(* ===== verification/C_Prelude.thy ===== *)
theory C_Prelude
  imports Main "HOL-Library.Word" "HOL-Library.Monad_Syntax"
begin

text \<open>
  The fragment of C that the Xinu sources rely on, and the lemmas every component shares.

  \<^item> Undefined behaviour (an out-of-range array access, signed overflow, a wild memory
    access) and a loop that never ends are both the value \<open>None\<close> of the option monad, so
    every theorem that concludes \<open>Some\<close> also states that the code is free of both.
  \<^item> \<open>int\<close> of the sources is a HOL \<open>int\<close>; a stored result goes through \<open>c_int\<close>,
    which is undefined outside the 32-bit range.
  \<^item> \<open>uint\<close>, \<open>ulong\<close> and pointers of the supported 32-bit platforms are
    \<open>32 word\<close>, whose arithmetic wraps around as the sources' does.
  \<^item> A C array is a list together with its checked accesses \<open>aget\<close> and \<open>aset\<close>.
\<close>

section \<open>Integer types and universal constants\<close>

type_synonym u32 = "32 word"

definition INT_MAX :: int where "INT_MAX = 2147483647"
definition INT_MIN :: int where "INT_MIN = - 2147483648"

text \<open>The value of a signed expression: undefined outside the range of \<open>int\<close>.\<close>

definition c_int :: "int \<Rightarrow> int option" where
  "c_int x = (if INT_MIN \<le> x \<and> x \<le> INT_MAX then Some x else None)"

text \<open>\<open>stddef.h\<close>: the universal return constants.\<close>

definition OK :: int where "OK = 1"
definition SYSERR :: int where "SYSERR = - 1"
definition EOF :: int where "EOF = - 2"
definition TIMEOUT :: int where "TIMEOUT = - 3"
definition NOMSG :: int where "NOMSG = - 4"

text \<open>\<open>SYSERR\<close> converted to an unsigned type or to a pointer.\<close>

definition USYSERR :: u32 where "USYSERR = - 1"

text \<open>The condition under which an operation is defined, for instance a non-zero divisor.\<close>

definition c_guard :: "bool \<Rightarrow> unit option" where
  "c_guard b = (if b then Some () else None)"

lemma c_guard_simps [simp]: "c_guard True = Some ()" "c_guard False = None"
  by (simp_all add: c_guard_def)

named_theorems c_consts \<open>numeric values of the constants\<close>

lemmas [c_consts] = INT_MAX_def INT_MIN_def OK_def SYSERR_def EOF_def TIMEOUT_def NOMSG_def
  USYSERR_def

lemma c_int_Some [simp]: "INT_MIN \<le> x \<Longrightarrow> x \<le> INT_MAX \<Longrightarrow> c_int x = Some x"
  by (simp add: c_int_def)

lemma c_int_eq_Some: "c_int x = Some y \<longleftrightarrow> INT_MIN \<le> x \<and> x \<le> INT_MAX \<and> y = x"
  by (auto simp: c_int_def)

section \<open>Arrays\<close>

definition aget :: "'a list \<Rightarrow> int \<Rightarrow> 'a option" where
  "aget xs i = (if 0 \<le> i \<and> i < int (length xs) then Some (xs ! nat i) else None)"

definition aset :: "'a list \<Rightarrow> int \<Rightarrow> 'a \<Rightarrow> 'a list option" where
  "aset xs i v = (if 0 \<le> i \<and> i < int (length xs) then Some (xs[nat i := v]) else None)"

text \<open>Update of an array element in place, \<open>xs[i].f = v\<close>.\<close>

definition aupd :: "'a list \<Rightarrow> int \<Rightarrow> ('a \<Rightarrow> 'a) \<Rightarrow> 'a list option" where
  "aupd xs i f = (if 0 \<le> i \<and> i < int (length xs) then Some (xs[nat i := f (xs ! nat i)]) else None)"

text \<open>Index \<open>i\<close> is inside the array.\<close>

definition inarr :: "'a list \<Rightarrow> int \<Rightarrow> bool" where
  "inarr xs i \<longleftrightarrow> 0 \<le> i \<and> i < int (length xs)"

text \<open>
  The element at a C index, for use where the index is known to be inside; the lemmas below
  turn every checked access into it.
\<close>

definition at :: "'a list \<Rightarrow> int \<Rightarrow> 'a" where
  "at xs i = xs ! nat i"

definition upd :: "'a list \<Rightarrow> int \<Rightarrow> ('a \<Rightarrow> 'a) \<Rightarrow> 'a list" where
  "upd xs i f = xs[nat i := f (xs ! nat i)]"

lemma aget_in [simp]: "inarr xs i \<Longrightarrow> aget xs i = Some (at xs i)"
  by (simp add: aget_def inarr_def at_def)

lemma aset_in [simp]: "inarr xs i \<Longrightarrow> aset xs i v = Some (upd xs i (\<lambda>_. v))"
  by (simp add: aset_def inarr_def upd_def)

lemma aupd_in [simp]: "inarr xs i \<Longrightarrow> aupd xs i f = Some (upd xs i f)"
  by (simp add: aupd_def inarr_def upd_def)

lemma aget_out: "\<not> inarr xs i \<Longrightarrow> aget xs i = None"
  by (auto simp: aget_def inarr_def)

lemma aupd_out: "\<not> inarr xs i \<Longrightarrow> aupd xs i f = None"
  by (auto simp: aupd_def inarr_def)

lemma length_upd [simp]: "length (upd xs i f) = length xs"
  by (simp add: upd_def)

lemma inarr_upd [simp]: "inarr (upd xs i f) j = inarr xs j"
  by (simp add: inarr_def)

lemma at_upd_same [simp]: "inarr xs i \<Longrightarrow> at (upd xs i f) i = f (at xs i)"
  by (simp add: at_def upd_def inarr_def nat_less_iff)

lemma at_upd_other [simp]:
  "i \<noteq> j \<Longrightarrow> inarr xs i \<Longrightarrow> inarr xs j \<Longrightarrow> at (upd xs i f) j = at xs j"
  by (simp add: at_def upd_def inarr_def nat_eq_iff2 nth_list_update)

lemma at_upd: "inarr xs i \<Longrightarrow> inarr xs j \<Longrightarrow>
    at (upd xs i f) j = (if i = j then f (at xs i) else at xs j)"
  by simp

lemma upd_id [simp]: "inarr xs i \<Longrightarrow> f (at xs i) = at xs i \<Longrightarrow> upd xs i f = xs"
  by (simp add: at_def upd_def inarr_def)

lemma upd_upd_same [simp]: "inarr xs i \<Longrightarrow> upd (upd xs i f) i g = upd xs i (\<lambda>x. g (f x))"
  by (simp add: upd_def inarr_def nat_less_iff)

lemma upd_commute: "i \<noteq> j \<Longrightarrow> inarr xs i \<Longrightarrow> inarr xs j \<Longrightarrow>
    upd (upd xs i f) j g = upd (upd xs j g) i f"
  by (simp add: upd_def inarr_def nat_eq_iff2 list_update_swap)

lemma at_eqI: "length xs = length ys \<Longrightarrow> (\<And>i. inarr xs i \<Longrightarrow> at xs i = at ys i) \<Longrightarrow> xs = ys"
  by (rule nth_equalityI, simp, metis at_def inarr_def nat_int of_nat_0_le_iff of_nat_less_iff)

section \<open>Option monad\<close>

lemma bind_Some_iff: "Option.bind m f = Some y \<longleftrightarrow> (\<exists>x. m = Some x \<and> f x = Some y)"
  by (cases m) auto

text \<open>Reduction of an unsigned array index to the checked accesses above.\<close>

definition uidx :: "u32 \<Rightarrow> int" where
  "uidx w = uint w"

lemma uidx_nonneg [simp]: "0 \<le> uidx w"
  by (simp add: uidx_def)

lemma inarr_uidx: "inarr xs (uidx w) \<longleftrightarrow> unat w < length xs"
  by (simp add: inarr_def uidx_def) (metis uint_nat of_nat_less_iff)

lemma uidx_inj [simp]: "uidx v = uidx w \<longleftrightarrow> v = w"
  by (simp add: uidx_def word_uint_eq_iff)

section \<open>Unsigned arithmetic that does not wrap\<close>

lemma unat_lt32 [simp]: "unat (w :: u32) < 4294967296"
  using unsigned_less [of w] by simp

lemma unat_add32: "unat (a :: u32) + unat b < 4294967296 \<Longrightarrow> unat (a + b) = unat a + unat b"
  by (simp add: unat_word_ariths)

lemma unat_sub32: "unat (b :: u32) \<le> unat a \<Longrightarrow> unat (a - b) = unat a - unat b"
  by (simp add: unat_sub word_le_nat_alt)

lemma unat_4 [simp]: "unat (4 :: u32) = 4" "unat (8 :: u32) = 8"
  by simp_all

lemma sint_small:
  assumes "unat (w :: u32) < 2147483648"
  shows "sint w = int (unat w)"
proof -
  have u: "uint w = int (unat w)" by simp
  have p: "(2 :: int) ^ 31 = 2147483648" by simp
  have "- (2 ^ 31) \<le> uint w" "uint w < 2 ^ 31" unfolding p using u assms by linarith+
  then have "signed_take_bit 31 (uint w) = uint w" by (rule signed_take_bit_int_eq_self)
  moreover have "sint w = signed_take_bit 31 (uint w)" using sint_uint [of w] by simp
  ultimately show ?thesis using u by linarith
qed

end
