(* ===== verification/Kernel_State.thy ===== *)
theory Kernel_State
  imports C_Prelude
begin

text \<open>
  The global data of the kernel: the tables declared in \<open>queue.h\<close>, \<open>thread.h\<close>,
  \<open>semaphore.h\<close>, \<open>monitor.h\<close>, \<open>mailbox.h\<close> and \<open>bufpool.h\<close>, the scheduler's variables, and the interrupt mask
  handled by \<open>disable\<close> and \<open>restore\<close>.

  The sizes \<open>NTHREAD\<close>, \<open>NQENT\<close>, \<open>NSEM\<close> and \<open>NMON\<close> come from the
  configuration file of a platform. They are the lengths of the tables, so every theorem
  holds for every configuration.
\<close>

section \<open>Table entries\<close>

text \<open>\<open>struct queent\<close>.\<close>

record queent =
  qkey :: int
  qnext :: int
  qprev :: int

definition EMPTY :: int where "EMPTY = - 2"
definition MAXKEY :: int where "MAXKEY = INT_MAX"
definition MINKEY :: int where "MINKEY = INT_MIN"

text \<open>The thread states of \<open>thread.h\<close>.\<close>

datatype thrstate =
    THRCURR | THRFREE | THRREADY | THRRECV | THRSLEEP | THRSUSP | THRWAIT | THRTMOUT | THRMIGRATE

text \<open>
  \<open>struct thrent\<close>. The saved interrupt mask is \<open>True\<close> when interrupts were enabled.
  The stack pointer is the one set at creation: the machine context of a suspended thread, which
  \<open>ctxsw\<close> saves below it, is the continuation of the operation that switched away (theory
  \<open>Outcomes\<close>). The structure \<open>memlist\<close> is its two fields \<open>tmem_next\<close> and \<open>tmem_length\<close>.
\<close>

record thrent =
  state :: thrstate
  prio :: int
  stkptr :: u32
  stkbase :: u32
  stklen :: u32
  name :: string
  intmask :: bool
  sem :: u32
  parent :: int
  msg :: int
  hasmsg :: bool
  tmem_next :: u32
  tmem_length :: u32
  fdesc :: "int list"

definition NULLTHREAD :: int where "NULLTHREAD = 0"
definition BADTID :: int where "BADTID = - 1"
definition MINSTK :: u32 where "MINSTK = 128"
definition TNMLEN :: nat where "TNMLEN = 16"

text \<open>\<open>struct sement\<close>.\<close>

datatype semstate = SFREE | SUSED

record sement =
  sstate :: semstate
  count :: int
  squeue :: int

text \<open>\<open>struct monent\<close>.\<close>

datatype monstate = MFREE | MUSED

record monent =
  mstate :: monstate
  owner :: int
  mcount :: u32
  msem :: u32

definition NOOWNER :: int where "NOOWNER = BADTID"

text \<open>\<open>struct mbox\<close> (\<open>mailbox.h\<close>); \<open>msgs\<close> is the heap address of the message array.\<close>

datatype mboxstate = MAILBOX_FREE | MAILBOX_ALLOC

record mbox =
  sender :: u32
  receiver :: u32
  mbmax :: u32
  mbcount :: u32
  mbstart :: u32
  mbstate :: mboxstate
  msgs :: u32

text \<open>\<open>struct bfpentry\<close> (\<open>bufpool.h\<close>).\<close>

datatype bfpstate = BFPFREE | BFPUSED

record bfpentry =
  bfpstate :: bfpstate
  bufsize :: u32
  nbuf :: u32
  bfphead :: u32
  bfpnext :: u32
  freebuf :: u32

lemmas [c_consts] = EMPTY_def MAXKEY_def MINKEY_def NULLTHREAD_def BADTID_def NOOWNER_def
  MINSTK_def TNMLEN_def

section \<open>The kernel's globals\<close>

record kstate =
  quetab :: "queent list"
  nextqid :: int
  readylist :: int
  sleepq :: int
  thrtab :: "thrent list"
  thrcount :: int
  thrcurrent :: int
  nexttid :: int
  resdefer :: int
  semtab :: "sement list"
  nextsem :: int
  montab :: "monent list"
  nextmon :: int
  mboxtab :: "mbox list"
  mboxtabsem :: u32
  nextmbx :: u32
  bfptab :: "bfpentry list"
  clkticks :: u32
  clktime :: u32
  irq :: bool
  mem :: "u32 \<Rightarrow> u32"
  memlist_next :: u32
  memlist_length :: u32
  memheap :: u32
  maxaddr :: u32

abbreviation NTHREAD :: "kstate \<Rightarrow> int" where "NTHREAD s \<equiv> int (length (thrtab s))"
abbreviation NQENT :: "kstate \<Rightarrow> int" where "NQENT s \<equiv> int (length (quetab s))"
abbreviation NSEM :: "kstate \<Rightarrow> int" where "NSEM s \<equiv> int (length (semtab s))"
abbreviation NMON :: "kstate \<Rightarrow> int" where "NMON s \<equiv> int (length (montab s))"
abbreviation NMAILBOX :: "kstate \<Rightarrow> int" where "NMAILBOX s \<equiv> int (length (mboxtab s))"
abbreviation NPOOL :: "kstate \<Rightarrow> int" where "NPOOL s \<equiv> int (length (bfptab s))"

text \<open>\<open>disable\<close> and \<open>restore\<close> (\<open>intutils.S\<close>): the current mask, and the mask put back.\<close>

definition disable :: "kstate \<Rightarrow> bool \<times> kstate" where
  "disable s = (irq s, s\<lparr>irq := False\<rparr>)"

definition restore :: "bool \<Rightarrow> kstate \<Rightarrow> kstate" where
  "restore im s = s\<lparr>irq := im\<rparr>"

text \<open>The macro \<open>isbadtid\<close>; its last disjunct is only evaluated inside the table.\<close>

definition isbadtid :: "kstate \<Rightarrow> int \<Rightarrow> bool" where
  "isbadtid s x \<longleftrightarrow> x \<ge> NTHREAD s \<or> x < 0 \<or> state (at (thrtab s) x) = THRFREE"

text \<open>Thread entry accesses \<open>thrtab[t].f\<close> for indices known to be inside the table.\<close>

abbreviation thr :: "kstate \<Rightarrow> int \<Rightarrow> thrent" where
  "thr s t \<equiv> at (thrtab s) t"

abbreviation thr_upd :: "int \<Rightarrow> (thrent \<Rightarrow> thrent) \<Rightarrow> kstate \<Rightarrow> kstate" where
  "thr_upd t f s \<equiv> s\<lparr>thrtab := upd (thrtab s) t f\<rparr>"

lemma isbadtid_frame [simp]:
  "isbadtid (s\<lparr>irq := i\<rparr>) t = isbadtid s t" "isbadtid (s\<lparr>quetab := qt\<rparr>) t = isbadtid s t"
  "isbadtid (s\<lparr>semtab := st\<rparr>) t = isbadtid s t" "isbadtid (s\<lparr>thrcurrent := c\<rparr>) t = isbadtid s t"
  "isbadtid (s\<lparr>montab := mt\<rparr>) t = isbadtid s t"
  by (simp_all add: isbadtid_def)

lemma isbadtid_iff: "isbadtid s x \<longleftrightarrow> \<not> inarr (thrtab s) x \<or> state (thr s x) = THRFREE"
  by (auto simp: isbadtid_def inarr_def)

end
