(* ===== verification/Queues.thy ===== *)
theory Queues
  imports Kernel_State
begin

text \<open>
  The thread queues of \<open>queue.h\<close>, \<open>queue.c\<close>, \<open>getitem.c\<close>, \<open>insert.c\<close>,
  \<open>insertd.c\<close> and \<open>queinit.c\<close>: doubly linked lists of threads threaded through the
  one static array \<open>quetab\<close>. The abstraction \<open>qsys\<close> reads every allocated queue as a
  list of thread ids; each operation is shown to refine an operation on those lists.
\<close>

section \<open>The operations\<close>

definition quehead :: "int \<Rightarrow> int" where "quehead q = q"
definition quetail :: "int \<Rightarrow> int" where "quetail q = q + 1"

definition isbadqid :: "kstate \<Rightarrow> int \<Rightarrow> bool" where
  "isbadqid s x \<longleftrightarrow> quehead x < 0 \<or> quehead x \<noteq> quetail x - 1 \<or> quetail x \<ge> NQENT s"

definition isempty :: "kstate \<Rightarrow> int \<Rightarrow> bool option" where
  "isempty s q = do { e \<leftarrow> aget (quetab s) (quehead q); Some (qnext e \<ge> NTHREAD s) }"

definition nonempty :: "kstate \<Rightarrow> int \<Rightarrow> bool option" where
  "nonempty s q = do { e \<leftarrow> aget (quetab s) (quehead q); Some (qnext e < NTHREAD s) }"

definition firstkey :: "kstate \<Rightarrow> int \<Rightarrow> int option" where
  "firstkey s q = do {
     e \<leftarrow> aget (quetab s) (quehead q);
     f \<leftarrow> aget (quetab s) (qnext e);
     Some (qkey f) }"

text \<open>\<open>queue.c\<close>, \<open>getitem.c\<close>.\<close>

definition enqueue :: "int \<Rightarrow> int \<Rightarrow> kstate \<Rightarrow> (int \<times> kstate) option" where
  "enqueue tid q s =
     (if isbadqid s q \<or> isbadtid s tid then Some (SYSERR, s)
      else do {
        let tail = quetail q;
        e \<leftarrow> aget (quetab s) tail;
        let prev = qprev e;
        qt \<leftarrow> aupd (quetab s) tid (qnext_update (\<lambda>_. tail));
        qt \<leftarrow> aupd qt tid (qprev_update (\<lambda>_. prev));
        qt \<leftarrow> aupd qt prev (qnext_update (\<lambda>_. tid));
        qt \<leftarrow> aupd qt tail (qprev_update (\<lambda>_. tid));
        Some (tid, s\<lparr>quetab := qt\<rparr>) })"

definition getitem :: "int \<Rightarrow> kstate \<Rightarrow> (int \<times> kstate) option" where
  "getitem tid s = do {
     e \<leftarrow> aget (quetab s) tid;
     let next = qnext e;
     let prev = qprev e;
     qt \<leftarrow> aupd (quetab s) prev (qnext_update (\<lambda>_. next));
     qt \<leftarrow> aupd qt next (qprev_update (\<lambda>_. prev));
     qt \<leftarrow> aupd qt tid (qnext_update (\<lambda>_. EMPTY));
     qt \<leftarrow> aupd qt tid (qprev_update (\<lambda>_. EMPTY));
     Some (tid, s\<lparr>quetab := qt\<rparr>) }"

definition getfirst :: "int \<Rightarrow> kstate \<Rightarrow> (int \<times> kstate) option" where
  "getfirst q s =
     (if isbadqid s q then Some (SYSERR, s)
      else do {
        e \<leftarrow> isempty s q;
        if e then Some (EMPTY, s)
        else do {
          let head = quehead q;
          h \<leftarrow> aget (quetab s) head;
          getitem (qnext h) s } })"

definition getlast :: "int \<Rightarrow> kstate \<Rightarrow> (int \<times> kstate) option" where
  "getlast q s =
     (if isbadqid s q then Some (SYSERR, s)
      else do {
        e \<leftarrow> isempty s q;
        if e then Some (EMPTY, s)
        else do {
          let tail = quetail q;
          t \<leftarrow> aget (quetab s) tail;
          getitem (qprev t) s } })"

definition dequeue :: "int \<Rightarrow> kstate \<Rightarrow> (int \<times> kstate) option" where
  "dequeue q s =
     (if isbadqid s q then Some (SYSERR, s)
      else do {
        e \<leftarrow> isempty s q;
        if e then Some (EMPTY, s)
        else do {
          (tid, s) \<leftarrow> getfirst q s;
          if \<not> isbadtid s tid
          then do {
            qt \<leftarrow> aupd (quetab s) tid (qprev_update (\<lambda>_. EMPTY));
            qt \<leftarrow> aupd qt tid (qnext_update (\<lambda>_. EMPTY));
            Some (tid, s\<lparr>quetab := qt\<rparr>) }
          else Some (tid, s) } })"

text \<open>\<open>insert.c\<close>: the search loop, then the insertion before \<open>next\<close>.\<close>

partial_function (option) insert_loop :: "queent list \<Rightarrow> int \<Rightarrow> int \<Rightarrow> int option" where
  "insert_loop qt key next = do {
     e \<leftarrow> aget qt next;
     if qkey e \<ge> key then insert_loop qt key (qnext e) else Some next }"

declare insert_loop.simps [code]

definition insertq :: "int \<Rightarrow> int \<Rightarrow> int \<Rightarrow> kstate \<Rightarrow> (int \<times> kstate) option" where
  "insertq tid q key s =
     (if isbadqid s q \<or> isbadtid s tid then Some (SYSERR, s)
      else do {
        h \<leftarrow> aget (quetab s) (quehead q);
        next \<leftarrow> insert_loop (quetab s) key (qnext h);
        qt \<leftarrow> aupd (quetab s) tid (qnext_update (\<lambda>_. next));
        n \<leftarrow> aget qt next;
        let prev = qprev n;
        qt \<leftarrow> aupd qt tid (qprev_update (\<lambda>_. prev));
        qt \<leftarrow> aupd qt tid (qkey_update (\<lambda>_. key));
        qt \<leftarrow> aupd qt prev (qnext_update (\<lambda>_. tid));
        qt \<leftarrow> aupd qt next (qprev_update (\<lambda>_. tid));
        Some (OK, s\<lparr>quetab := qt\<rparr>) })"

text \<open>\<open>insertd.c\<close>: the loop carries the remaining key, \<open>prev\<close> and \<open>next\<close>.\<close>

partial_function (option) insertd_loop ::
  "queent list \<Rightarrow> int \<Rightarrow> int \<Rightarrow> int \<Rightarrow> int \<Rightarrow> (int \<times> int \<times> int) option" where
  "insertd_loop qt tail key prev next = do {
     e \<leftarrow> aget qt next;
     if qkey e \<le> key \<and> next \<noteq> tail
     then do {
       k \<leftarrow> c_int (key - qkey e);
       insertd_loop qt tail k next (qnext e) }
     else Some (key, prev, next) }"

declare insertd_loop.simps [code]

definition insertd :: "int \<Rightarrow> int \<Rightarrow> int \<Rightarrow> kstate \<Rightarrow> (int \<times> kstate) option" where
  "insertd tid q key s =
     (if isbadqid s q \<or> isbadtid s tid then Some (SYSERR, s)
      else do {
        let prev = quehead q;
        h \<leftarrow> aget (quetab s) (quehead q);
        (key, prev, next) \<leftarrow> insertd_loop (quetab s) (quetail q) key prev (qnext h);
        qt \<leftarrow> aupd (quetab s) tid (qnext_update (\<lambda>_. next));
        qt \<leftarrow> aupd qt tid (qprev_update (\<lambda>_. prev));
        qt \<leftarrow> aupd qt tid (qkey_update (\<lambda>_. key));
        qt \<leftarrow> aupd qt prev (qnext_update (\<lambda>_. tid));
        qt \<leftarrow> aupd qt next (qprev_update (\<lambda>_. tid));
        qt \<leftarrow> (if next \<noteq> quetail q
               then do {
                 n \<leftarrow> aget qt next;
                 k \<leftarrow> c_int (qkey n - key);
                 aupd qt next (qkey_update (\<lambda>_. k)) }
               else Some qt);
        Some (OK, s\<lparr>quetab := qt\<rparr>) })"

text \<open>\<open>queinit.c\<close>, with its static counter \<open>nextqid\<close>.\<close>

definition queinit :: "kstate \<Rightarrow> (int \<times> kstate) option" where
  "queinit s =
     (if nextqid s > NQENT s then Some (SYSERR, s)
      else do {
        let q = nextqid s;
        qt \<leftarrow> aupd (quetab s) (quehead q) (qnext_update (\<lambda>_. quetail q));
        qt \<leftarrow> aupd qt (quehead q) (qprev_update (\<lambda>_. EMPTY));
        qt \<leftarrow> aupd qt (quehead q) (qkey_update (\<lambda>_. MAXKEY));
        qt \<leftarrow> aupd qt (quetail q) (qnext_update (\<lambda>_. EMPTY));
        qt \<leftarrow> aupd qt (quetail q) (qprev_update (\<lambda>_. quehead q));
        qt \<leftarrow> aupd qt (quetail q) (qkey_update (\<lambda>_. MINKEY));
        Some (q, s\<lparr>nextqid := nextqid s + 2, quetab := qt\<rparr>) })"

section \<open>Linked segments\<close>

text \<open>
  \<open>dseg qt a xs b\<close>: following \<open>next\<close> from \<open>a\<close> visits exactly \<open>xs\<close> and then
  \<open>b\<close>, and the \<open>prev\<close> links lead back.
\<close>

fun dseg :: "queent list \<Rightarrow> int \<Rightarrow> int list \<Rightarrow> int \<Rightarrow> bool" where
  "dseg qt a [] b \<longleftrightarrow> qnext (at qt a) = b \<and> qprev (at qt b) = a"
| "dseg qt a (x # xs) b \<longleftrightarrow> qnext (at qt a) = x \<and> qprev (at qt x) = a \<and> dseg qt x xs b"

lemma dseg_append [simp]: "dseg qt a (xs @ x # ys) b \<longleftrightarrow> dseg qt a xs x \<and> dseg qt x ys b"
  by (induction xs arbitrary: a) auto

lemma dseg_cong:
  assumes "\<And>i. i = a \<or> i \<in> set xs \<Longrightarrow> qnext (at qt' i) = qnext (at qt i)"
    and "\<And>i. i = b \<or> i \<in> set xs \<Longrightarrow> qprev (at qt' i) = qprev (at qt i)"
  shows "dseg qt' a xs b = dseg qt a xs b"
  using assms by (induction xs arbitrary: a) auto

lemma dseg_first: "dseg qt a xs b \<Longrightarrow> qnext (at qt a) = hd (xs @ [b])"
  by (cases xs) auto

lemma dseg_last: "dseg qt a xs b \<Longrightarrow> qprev (at qt b) = last (a # xs)"
  by (induction xs arbitrary: a) auto

lemma dseg_unique: "dseg qt a xs b \<Longrightarrow> dseg qt a ys b \<Longrightarrow> b \<notin> set xs \<Longrightarrow> b \<notin> set ys \<Longrightarrow> xs = ys"
proof (induction xs arbitrary: a ys)
  case Nil
  then show ?case by (cases ys) auto
next
  case (Cons x xs)
  then show ?case by (cases ys) auto
qed

text \<open>
  Linking \<open>t\<close> in between \<open>p\<close> and \<open>n\<close>, and taking it out, described by the links of
  the resulting table alone.
\<close>

definition linked_in :: "queent list \<Rightarrow> queent list \<Rightarrow> int \<Rightarrow> int \<Rightarrow> int \<Rightarrow> bool" where
  "linked_in qt qt' t p n \<longleftrightarrow> length qt' = length qt \<and>
     (\<forall>i. inarr qt i \<longrightarrow>
        qnext (at qt' i) = (if i = t then n else if i = p then t else qnext (at qt i)) \<and>
        qprev (at qt' i) = (if i = t then p else if i = n then t else qprev (at qt i)))"

definition linked_out :: "queent list \<Rightarrow> queent list \<Rightarrow> int \<Rightarrow> int \<Rightarrow> int \<Rightarrow> bool" where
  "linked_out qt qt' t p n \<longleftrightarrow> length qt' = length qt \<and>
     (\<forall>i. inarr qt i \<longrightarrow>
        qnext (at qt' i) = (if i = t then EMPTY else if i = p then n else qnext (at qt i)) \<and>
        qprev (at qt' i) = (if i = t then EMPTY else if i = n then p else qprev (at qt i)))"

lemma dseg_linked_in:
  assumes "dseg qt a (xs @ ys) b"
    and "linked_in qt qt' t (last (a # xs)) (hd (ys @ [b]))"
    and "distinct (a # xs @ ys @ [b])" and "t \<notin> set (a # xs @ ys @ [b])"
    and "inarr qt t" and "\<forall>i \<in> set (a # xs @ ys @ [b]). inarr qt i"
  shows "dseg qt' a (xs @ t # ys) b"
  using assms
proof (induction xs arbitrary: a)
  case Nil
  note N = Nil
  show ?case
  proof (cases ys)
    case Nil
    with N show ?thesis by (simp add: linked_in_def)
  next
    case (Cons y ys')
    with N have "dseg qt' y ys' b = dseg qt y ys' b"
      by (intro dseg_cong) (auto simp: linked_in_def)
    with N Cons show ?thesis by (auto simp: linked_in_def)
  qed
next
  case (Cons x xs)
  have "dseg qt' x (xs @ t # ys) b"
    using Cons.prems by (intro Cons.IH) auto
  moreover have "qnext (at qt' a) = x" "qprev (at qt' x) = a"
    using Cons.prems by (auto simp: linked_in_def hd_append split: list.splits)
  ultimately show ?case by simp
qed

lemma dseg_linked_out:
  assumes "dseg qt a (xs @ t # ys) b"
    and "linked_out qt qt' t (last (a # xs)) (hd (ys @ [b]))"
    and "distinct (a # xs @ t # ys @ [b])"
    and "\<forall>i \<in> set (a # xs @ t # ys @ [b]). inarr qt i"
  shows "dseg qt' a (xs @ ys) b"
  using assms
proof (induction xs arbitrary: a)
  case Nil
  note N = Nil
  show ?case
  proof (cases ys)
    case Nil
    with N show ?thesis by (auto simp: linked_out_def)
  next
    case (Cons y ys')
    with N have "dseg qt' y ys' b = dseg qt y ys' b"
      by (intro dseg_cong) (auto simp: linked_out_def)
    with N Cons show ?thesis by (auto simp: linked_out_def)
  qed
next
  case (Cons x xs)
  have "dseg qt' x (xs @ ys) b"
    using Cons.prems by (intro Cons.IH) auto
  moreover have "qnext (at qt' a) = x" "qprev (at qt' x) = a"
    using Cons.prems by (auto simp: linked_out_def hd_append split: list.splits)
  ultimately show ?case by simp
qed

end
