(* ===== verification/Queue_Refinement.thy ===== *)
theory Queue_Refinement
  imports Queues
begin

text \<open>
  Every allocated queue of \<open>quetab\<close> as a list of thread ids, and the operations of theory
  \<open>Queues\<close> as operations on these lists: appending, removing the first or any element,
  stable insertion by descending key, and insertion into a list of time differences.
\<close>

section \<open>Systems of disjoint queues\<close>

text \<open>
  \<open>qrep qt n q xs\<close>: the queue with head index \<open>q\<close> holds the threads \<open>xs\<close>, where
  \<open>n\<close> is \<open>NTHREAD\<close>. Its head and tail carry the sentinel keys of \<open>queinit\<close>.
\<close>

definition qrep :: "queent list \<Rightarrow> int \<Rightarrow> int \<Rightarrow> int list \<Rightarrow> bool" where
  "qrep qt n q xs \<longleftrightarrow> 0 \<le> n \<and> n \<le> q \<and> q + 1 < int (length qt) \<and> set xs \<subseteq> {0..<n} \<and> distinct xs \<and>
     dseg qt q xs (q + 1) \<and> qkey (at qt q) = MAXKEY \<and> qkey (at qt (q + 1)) = MINKEY"

definition qsys :: "queent list \<Rightarrow> int \<Rightarrow> int set \<Rightarrow> (int \<Rightarrow> int list) \<Rightarrow> bool" where
  "qsys qt n Q qs \<longleftrightarrow> (\<forall>q \<in> Q. qrep qt n q (qs q)) \<and>
     (\<forall>q \<in> Q. \<forall>r \<in> Q. q \<noteq> r \<longrightarrow> r \<noteq> q + 1 \<and> set (qs q) \<inter> set (qs r) = {})"

definition unqueued :: "int set \<Rightarrow> (int \<Rightarrow> int list) \<Rightarrow> int \<Rightarrow> bool" where
  "unqueued Q qs t \<longleftrightarrow> (\<forall>q \<in> Q. t \<notin> set (qs q))"

text \<open>A table with the same keys, apart from those of the listed threads.\<close>

definition same_keys :: "queent list \<Rightarrow> queent list \<Rightarrow> int set \<Rightarrow> bool" where
  "same_keys qt qt' T \<longleftrightarrow> length qt' = length qt \<and>
     (\<forall>i. inarr qt i \<and> i \<notin> T \<longrightarrow> qkey (at qt' i) = qkey (at qt i))"

lemma same_keys_mono: "same_keys qt qt' A \<Longrightarrow> A \<subseteq> B \<Longrightarrow> same_keys qt qt' B"
  by (auto simp: same_keys_def)

lemma qrep_nodes:
  assumes "qrep qt n q xs"
  shows "inarr qt q" "inarr qt (q + 1)" "\<And>i. i \<in> set xs \<Longrightarrow> inarr qt i"
    "distinct (q # xs @ [q + 1])" "\<And>i. i \<in> set xs \<Longrightarrow> i < q"
  using assms unfolding qrep_def inarr_def by force+

lemma qrep_frame:
  assumes "qrep qt n q xs" and "length qt' = length qt"
    and "\<And>i. i = q \<or> i = q + 1 \<or> i \<in> set xs \<Longrightarrow> qnext (at qt' i) = qnext (at qt i)
      \<and> qprev (at qt' i) = qprev (at qt i)"
    and "qkey (at qt' q) = qkey (at qt q)" "qkey (at qt' (q + 1)) = qkey (at qt (q + 1))"
  shows "qrep qt' n q xs"
proof -
  have "dseg qt' q xs (q + 1) = dseg qt q xs (q + 1)"
    by (rule dseg_cong) (use assms(3) in auto)
  with assms show ?thesis by (simp add: qrep_def)
qed

lemma qsysD:
  assumes "qsys qt n Q qs" "q \<in> Q"
  shows "qrep qt n q (qs q)"
  using assms by (simp add: qsys_def)

lemma qsys_disjD:
  assumes "qsys qt n Q qs" "q \<in> Q" "r \<in> Q" "x \<in> set (qs q)" "x \<in> set (qs r)"
  shows "q = r"
  using assms by (auto simp: qsys_def)

lemma qsys_cong:
  assumes "qsys qt n Q qs" and "\<And>q. q \<in> Q \<Longrightarrow> qs' q = qs q"
  shows "qsys qt n Q qs'"
  using assms by (simp add: qsys_def)

text \<open>A change of links inside queue \<open>q\<close> and at \<open>t\<close> leaves every other queue alone.\<close>

lemma qsys_others:
  assumes sys: "qsys qt n Q qs" and q: "q \<in> Q" and r: "r \<in> Q" "r \<noteq> q"
    and t: "t < n" "t \<notin> set (qs r)" and keys: "same_keys qt qt' {0..<n}"
    and links: "\<And>i. inarr qt i \<Longrightarrow> i \<notin> insert t (set (q # qs q @ [q + 1])) \<Longrightarrow>
      qnext (at qt' i) = qnext (at qt i) \<and> qprev (at qt' i) = qprev (at qt i)"
  shows "qrep qt' n r (qs r)"
proof (rule qrep_frame)
  show rr: "qrep qt n r (qs r)" using sys r by (simp add: qsys_def)
  show "length qt' = length qt" using keys by (simp add: same_keys_def)
  have sep: "r \<noteq> q + 1" "q \<noteq> r + 1" "set (qs r) \<inter> set (qs q) = {}"
    using sys q r by (auto simp: qsys_def)
  show "qnext (at qt' i) = qnext (at qt i) \<and> qprev (at qt' i) = qprev (at qt i)"
    if i: "i = r \<or> i = r + 1 \<or> i \<in> set (qs r)" for i
  proof (rule links)
    show "inarr qt i" using qrep_nodes [OF rr] i by auto
    show "i \<notin> insert t (set (q # qs q @ [q + 1]))"
      using i sep t r rr qsysD [OF sys q] by (fastforce simp: qrep_def)
  qed
  show "qkey (at qt' r) = qkey (at qt r)" "qkey (at qt' (r + 1)) = qkey (at qt (r + 1))"
    using keys rr qrep_nodes [OF rr] by (auto simp: same_keys_def qrep_def)
qed

lemma qsys_replace:
  assumes "qsys qt n Q qs" "q \<in> Q" "qrep qt' n q zs"
    and "\<And>r. r \<in> Q \<Longrightarrow> r \<noteq> q \<Longrightarrow> qrep qt' n r (qs r)"
    and "\<And>x. x \<in> set zs \<Longrightarrow> x \<in> set (qs q) \<or> unqueued Q qs x"
  shows "qsys qt' n Q (qs(q := zs))"
proof -
  have "set zs \<inter> set (qs r) = {}" if "r \<in> Q" "r \<noteq> q" for r
    using assms(1,2,5) that by (fastforce simp: qsys_def unqueued_def)
  with assms show ?thesis by (auto simp: qsys_def)
qed

lemma linked_ends: "last (q # xs) \<in> insert q (set xs)" "hd (ys @ [b]) \<in> insert b (set ys)"
  by (auto simp: hd_append)

lemma qsys_linked_in:
  assumes sys: "qsys qt n Q qs" and q: "q \<in> Q" and split: "qs q = xs @ ys"
    and t: "0 \<le> t" "t < n" "unqueued Q qs t"
    and link: "linked_in qt qt' t (last (q # xs)) (hd (ys @ [q + 1]))"
    and keys: "same_keys qt qt' {0..<n}"
  shows "qsys qt' n Q (qs(q := xs @ t # ys))"
proof -
  have rep: "qrep qt n q (xs @ ys)" using qsysD [OF sys q] split by simp
  note nodes = qrep_nodes [OF rep]
  have tin: "inarr qt t" using t rep by (auto simp: qrep_def inarr_def)
  have tnew: "t \<notin> set (q # xs @ ys @ [q + 1])"
    using t q split rep by (auto simp: unqueued_def qrep_def)
  have "dseg qt' q (xs @ t # ys) (q + 1)"
    by (rule dseg_linked_in [OF _ link]) (use rep nodes tin tnew in \<open>auto simp: qrep_def\<close>)
  moreover have "length qt' = length qt" using keys by (simp add: same_keys_def)
  moreover have "qkey (at qt' q) = qkey (at qt q)" "qkey (at qt' (q + 1)) = qkey (at qt (q + 1))"
    using keys nodes rep by (auto simp: same_keys_def qrep_def)
  ultimately have new: "qrep qt' n q (xs @ t # ys)"
    using rep tnew t by (auto simp: qrep_def)
  have old: "qrep qt' n r (qs r)" if r: "r \<in> Q" "r \<noteq> q" for r
  proof (rule qsys_others [OF sys q r t(2) _ keys])
    show "t \<notin> set (qs r)" using t r by (simp add: unqueued_def)
    show "qnext (at qt' i) = qnext (at qt i) \<and> qprev (at qt' i) = qprev (at qt i)"
      if "inarr qt i" "i \<notin> insert t (set (q # qs q @ [q + 1]))" for i
      using link linked_ends(1) [of q xs] linked_ends(2) [of ys "q + 1"] that split
      by (auto simp: linked_in_def)
  qed
  show ?thesis
    by (rule qsys_replace [OF sys q new old]) (use split t in auto)
qed

lemma qsys_linked_out:
  assumes sys: "qsys qt n Q qs" and q: "q \<in> Q" and split: "qs q = xs @ t # ys"
    and link: "linked_out qt qt' t (last (q # xs)) (hd (ys @ [q + 1]))"
    and keys: "same_keys qt qt' {0..<n}"
  shows "qsys qt' n Q (qs(q := xs @ ys))"
proof -
  have rep: "qrep qt n q (xs @ t # ys)" using qsysD [OF sys q] split by simp
  note nodes = qrep_nodes [OF rep]
  have "dseg qt' q (xs @ ys) (q + 1)"
    by (rule dseg_linked_out [OF _ link]) (use rep nodes in \<open>auto simp: qrep_def\<close>)
  moreover have "length qt' = length qt" using keys by (simp add: same_keys_def)
  moreover have "qkey (at qt' q) = qkey (at qt q)" "qkey (at qt' (q + 1)) = qkey (at qt (q + 1))"
    using keys nodes rep by (auto simp: same_keys_def qrep_def)
  ultimately have new: "qrep qt' n q (xs @ ys)"
    using rep by (auto simp: qrep_def)
  have old: "qrep qt' n r (qs r)" if r: "r \<in> Q" "r \<noteq> q" for r
  proof (rule qsys_others [OF sys q r _ _ keys])
    show "t < n" using rep by (simp add: qrep_def)
    show "t \<notin> set (qs r)" using sys r q split by (auto simp: qsys_def)
    show "qnext (at qt' i) = qnext (at qt i) \<and> qprev (at qt' i) = qprev (at qt i)"
      if "inarr qt i" "i \<notin> insert t (set (q # qs q @ [q + 1]))" for i
      using link linked_ends(1) [of q xs] linked_ends(2) [of ys "q + 1"] that split
      by (auto simp: linked_out_def)
  qed
  show ?thesis
    by (rule qsys_replace [OF sys q new old]) (use split in auto)
qed

section \<open>Refinement of the operations\<close>

text \<open>Validity of the queue and thread ids a caller passes.\<close>

lemma qsys_goodqid: "qsys (quetab s) n Q qs \<Longrightarrow> q \<in> Q \<Longrightarrow> \<not> isbadqid s q"
  by (auto simp: isbadqid_def quehead_def quetail_def qsys_def qrep_def)

lemma qsys_ends:
  assumes "qsys qt n Q qs" "q \<in> Q"
  shows "qnext (at qt q) = hd (qs q @ [q + 1])" "qprev (at qt (q + 1)) = last (q # qs q)"
    "inarr qt q" "inarr qt (q + 1)"
  using qsysD [OF assms] qrep_nodes [OF qsysD [OF assms]]
  by (auto simp: qrep_def dest: dseg_first dseg_last)

lemma qsys_isempty:
  assumes "qsys (quetab s) (NTHREAD s) Q qs" "q \<in> Q"
  shows "isempty s q = Some (qs q = [])" "nonempty s q = Some (qs q \<noteq> [])"
  using qsys_ends [OF assms] qsysD [OF assms]
  by (cases "qs q"; auto simp: isempty_def nonempty_def quehead_def qrep_def)+

lemma qsys_firstkey:
  assumes "qsys (quetab s) n Q qs" "q \<in> Q" "qs q = x # xs"
  shows "firstkey s q = Some (qkey (at (quetab s) x))"
  using qsys_ends [OF assms(1,2)] qrep_nodes [OF qsysD [OF assms(1,2)]] assms(3)
  by (simp add: firstkey_def quehead_def)

lemma qsys_thread:
  assumes "qsys qt n Q qs" "q \<in> Q" "x \<in> set (qs q)"
  shows "0 \<le> x" "x < n" "inarr qt x"
  using qsysD [OF assms(1,2)] qrep_nodes(3) [OF qsysD [OF assms(1,2)] assms(3)] assms(3)
  by (auto simp: qrep_def)

lemma enqueue_refines:
  assumes sys: "qsys (quetab s) (NTHREAD s) Q qs" and q: "q \<in> Q"
    and t: "\<not> isbadtid s t" "unqueued Q qs t"
  shows "\<exists>qt'. enqueue t q s = Some (t, s\<lparr>quetab := qt'\<rparr>)
    \<and> qsys qt' (NTHREAD s) Q (qs(q := qs q @ [t])) \<and> same_keys (quetab s) qt' {}"
proof -
  let ?qt = "quetab s" and ?p = "last (q # qs q)"
  define qt' where "qt' = upd (upd (upd ?qt t (qprev_update (\<lambda>_. ?p) \<circ> qnext_update (\<lambda>_. q + 1)))
    ?p (qnext_update (\<lambda>_. t))) (q + 1) (qprev_update (\<lambda>_. t))"
  note ends = qsys_ends [OF sys q] and rep = qsysD [OF sys q]
  note nodes = qrep_nodes [OF rep]
  have tr: "0 \<le> t" "t < NTHREAD s" using t by (auto simp: isbadtid_def)
  then have tin: "inarr ?qt t" using rep by (auto simp: qrep_def inarr_def)
  have pin: "inarr ?qt ?p" using nodes linked_ends(1) [of q "qs q"] by auto
  have "t \<noteq> q" "t \<noteq> q + 1" "t \<noteq> ?p" "?p \<noteq> q + 1"
    using tr rep t q linked_ends(1) [of q "qs q"] by (auto simp: qrep_def unqueued_def)
  then have link: "linked_in ?qt qt' t ?p (q + 1)" and keys: "same_keys ?qt qt' {}"
    unfolding linked_in_def same_keys_def qt'_def using tin pin ends
    by (auto simp: at_upd)
  have "enqueue t q s = Some (t, s\<lparr>quetab := qt'\<rparr>)"
    using qsys_goodqid [OF sys q] t(1) ends tin pin
    by (simp add: enqueue_def quetail_def qt'_def comp_def Let_def)
  moreover have "qsys qt' (NTHREAD s) Q (qs(q := qs q @ [t]))"
    using qsys_linked_in [OF sys q, of "qs q" "[]" t qt'] link keys t tr
    by (auto simp: same_keys_def)
  ultimately show ?thesis using keys by blast
qed

lemma getitem_refines:
  assumes sys: "qsys (quetab s) n Q qs" and q: "q \<in> Q" and split: "qs q = xs @ t # ys"
  shows "\<exists>qt'. getitem t s = Some (t, s\<lparr>quetab := qt'\<rparr>)
    \<and> qsys qt' n Q (qs(q := xs @ ys)) \<and> same_keys (quetab s) qt' {}
    \<and> qnext (at qt' t) = EMPTY \<and> qprev (at qt' t) = EMPTY"
proof -
  let ?qt = "quetab s" and ?p = "last (q # xs)" and ?n = "hd (ys @ [q + 1])"
  define qt' where "qt' = upd (upd (upd ?qt ?p (qnext_update (\<lambda>_. ?n))) ?n (qprev_update (\<lambda>_. ?p)))
    t (qprev_update (\<lambda>_. EMPTY) \<circ> qnext_update (\<lambda>_. EMPTY))"
  note rep = qsysD [OF sys q]
  note nodes = qrep_nodes [OF rep]
  have lk: "qprev (at ?qt t) = ?p" "qnext (at ?qt t) = ?n"
    using rep split by (auto simp: qrep_def dest: dseg_first dseg_last)
  have tin: "inarr ?qt t" using nodes split by auto
  have pin: "inarr ?qt ?p" and nin: "inarr ?qt ?n"
    using nodes split linked_ends(1) [of q xs] linked_ends(2) [of ys "q + 1"] by auto
  have "t \<noteq> ?p" "t \<noteq> ?n"
    using nodes split linked_ends(1) [of q xs] linked_ends(2) [of ys "q + 1"] by auto
  then have link: "linked_out ?qt qt' t ?p ?n" and keys: "same_keys ?qt qt' {}"
    unfolding linked_out_def same_keys_def qt'_def using tin pin nin by (auto simp: at_upd)
  have "getitem t s = Some (t, s\<lparr>quetab := qt'\<rparr>)"
    using tin pin nin lk by (simp add: getitem_def qt'_def comp_def Let_def)
  moreover have "qsys qt' n Q (qs(q := xs @ ys))"
    using qsys_linked_out [OF sys q split link] keys by (simp add: same_keys_def)
  moreover have "qnext (at qt' t) = EMPTY" "qprev (at qt' t) = EMPTY"
    using link tin by (auto simp: linked_out_def)
  ultimately show ?thesis using keys by blast
qed

lemma getfirst_refines:
  assumes sys: "qsys (quetab s) (NTHREAD s) Q qs" and q: "q \<in> Q" and xs: "qs q = t # xs"
  shows "\<exists>qt'. getfirst q s = Some (t, s\<lparr>quetab := qt'\<rparr>)
    \<and> qsys qt' (NTHREAD s) Q (qs(q := xs)) \<and> same_keys (quetab s) qt' {}
    \<and> qnext (at qt' t) = EMPTY \<and> qprev (at qt' t) = EMPTY"
  using getitem_refines [OF sys q, of "[]" t xs] xs qsys_goodqid [OF sys q]
    qsys_isempty [OF sys q] qsys_ends [OF sys q]
  by (simp add: getfirst_def quehead_def)

lemma getlast_refines:
  assumes sys: "qsys (quetab s) (NTHREAD s) Q qs" and q: "q \<in> Q" and xs: "qs q = xs @ [t]"
  shows "\<exists>qt'. getlast q s = Some (t, s\<lparr>quetab := qt'\<rparr>)
    \<and> qsys qt' (NTHREAD s) Q (qs(q := xs)) \<and> same_keys (quetab s) qt' {}
    \<and> qnext (at qt' t) = EMPTY \<and> qprev (at qt' t) = EMPTY"
  using getitem_refines [OF sys q, of xs t "[]"] xs qsys_goodqid [OF sys q]
    qsys_isempty [OF sys q] qsys_ends [OF sys q]
  by (simp add: getlast_def quetail_def)

lemma dequeue_refines:
  assumes sys: "qsys (quetab s) (NTHREAD s) Q qs" and q: "q \<in> Q" and xs: "qs q = t # xs"
  shows "\<exists>qt'. dequeue q s = Some (t, s\<lparr>quetab := qt'\<rparr>)
    \<and> qsys qt' (NTHREAD s) Q (qs(q := xs)) \<and> same_keys (quetab s) qt' {}
    \<and> qnext (at qt' t) = EMPTY \<and> qprev (at qt' t) = EMPTY"
proof -
  from getfirst_refines [OF assms] obtain qt'
    where *: "getfirst q s = Some (t, s\<lparr>quetab := qt'\<rparr>)" "qsys qt' (NTHREAD s) Q (qs(q := xs))"
      "same_keys (quetab s) qt' {}" "qnext (at qt' t) = EMPTY" "qprev (at qt' t) = EMPTY"
    by blast
  have "inarr qt' t"
    using qsys_thread(3) [OF sys q, of t] xs *(3) by (simp add: same_keys_def inarr_def)
  with * xs have "dequeue q s = Some (t, s\<lparr>quetab := qt'\<rparr>)"
    using qsys_goodqid [OF sys q] qsys_isempty [OF sys q] by (simp add: dequeue_def)
  with * show ?thesis by blast
qed

lemma dequeue_empty:
  assumes "qsys (quetab s) (NTHREAD s) Q qs" "q \<in> Q" "qs q = []"
  shows "dequeue q s = Some (EMPTY, s)"
  using qsys_goodqid [OF assms(1,2)] qsys_isempty [OF assms(1,2)] assms(3)
  by (simp add: dequeue_def)

subsection \<open>Insertion by descending key\<close>

text \<open>The list operation: behind every thread whose key is at least \<open>k\<close>.\<close>

definition insert_desc :: "(int \<Rightarrow> int) \<Rightarrow> int \<Rightarrow> int \<Rightarrow> int list \<Rightarrow> int list" where
  "insert_desc key t k xs = takeWhile (\<lambda>x. key x \<ge> k) xs @ t # dropWhile (\<lambda>x. key x \<ge> k) xs"

lemma insert_loop_dseg:
  assumes "dseg qt a xs b" "\<forall>i \<in> set xs. inarr qt i" "inarr qt b" "qkey (at qt b) < k"
  shows "insert_loop qt k (hd (xs @ [b])) = Some (hd (dropWhile (\<lambda>x. qkey (at qt x) \<ge> k) xs @ [b]))"
  using assms
proof (induction xs arbitrary: a)
  case Nil
  then show ?case by (simp add: insert_loop.simps)
next
  case (Cons x xs)
  then have "qnext (at qt x) = hd (xs @ [b])" by (auto dest: dseg_first)
  with Cons show ?case by (subst insert_loop.simps) auto
qed

lemma insertq_refines:
  assumes sys: "qsys (quetab s) (NTHREAD s) Q qs" and q: "q \<in> Q"
    and t: "\<not> isbadtid s t" "unqueued Q qs t" and k: "MINKEY < k"
  shows "\<exists>qt'. insertq t q k s = Some (OK, s\<lparr>quetab := qt'\<rparr>)
    \<and> qsys qt' (NTHREAD s) Q (qs(q := insert_desc (\<lambda>x. qkey (at (quetab s) x)) t k (qs q)))
    \<and> same_keys (quetab s) qt' {t} \<and> qkey (at qt' t) = k"
proof -
  let ?qt = "quetab s"
  define xs where "xs = takeWhile (\<lambda>x. qkey (at ?qt x) \<ge> k) (qs q)"
  define ys where "ys = dropWhile (\<lambda>x. qkey (at ?qt x) \<ge> k) (qs q)"
  have split: "qs q = xs @ ys" by (simp add: xs_def ys_def)
  let ?p = "last (q # xs)" and ?n = "hd (ys @ [q + 1])"
  define qt' where "qt' = upd (upd (upd ?qt t
      (qkey_update (\<lambda>_. k) \<circ> qprev_update (\<lambda>_. ?p) \<circ> qnext_update (\<lambda>_. ?n)))
    ?p (qnext_update (\<lambda>_. t))) ?n (qprev_update (\<lambda>_. t))"
  note ends = qsys_ends [OF sys q] and rep = qsysD [OF sys q]
  note nodes = qrep_nodes [OF rep]
  have tr: "0 \<le> t" "t < NTHREAD s" using t by (auto simp: isbadtid_def)
  then have tin: "inarr ?qt t" using rep by (auto simp: qrep_def inarr_def)
  have pin: "inarr ?qt ?p" and nin: "inarr ?qt ?n"
    using nodes split linked_ends(1) [of q xs] linked_ends(2) [of ys "q + 1"] by auto
  have ne: "t \<noteq> ?p" "t \<noteq> ?n"
    using tr rep t q split linked_ends(1) [of q xs] linked_ends(2) [of ys "q + 1"]
    by (auto simp: qrep_def unqueued_def)
  then have link: "linked_in ?qt qt' t ?p ?n" and keys: "same_keys ?qt qt' {t}"
    and kt: "qkey (at qt' t) = k"
    unfolding linked_in_def same_keys_def qt'_def using tin pin nin by (auto simp: at_upd)
  have loop: "insert_loop ?qt k (qnext (at ?qt q)) = Some ?n"
    using insert_loop_dseg [of ?qt q "qs q" "q + 1" k] rep nodes k ends(1)
    by (auto simp: qrep_def ys_def)
  have prev: "qprev (at ?qt ?n) = ?p"
    using rep split by (cases ys) (auto simp: qrep_def dest: dseg_last)
  have "insertq t q k s = Some (OK, s\<lparr>quetab := qt'\<rparr>)"
    using qsys_goodqid [OF sys q] t(1) ends tin pin nin loop prev ne
    by (simp add: insertq_def quehead_def qt'_def comp_def Let_def)
  moreover have "qsys qt' (NTHREAD s) Q (qs(q := xs @ t # ys))"
    using qsys_linked_in [OF sys q split tr t(2) link] keys tr by (auto simp: same_keys_def)
  ultimately show ?thesis using keys kt by (auto simp: insert_desc_def xs_def ys_def)
qed

lemma set_insert_desc [simp]: "set (insert_desc key t k xs) = insert t (set xs)"
proof -
  have "set xs = set (takeWhile (\<lambda>x. key x \<ge> k) xs) \<union> set (dropWhile (\<lambda>x. key x \<ge> k) xs)"
    by (metis set_append takeWhile_dropWhile_id)
  then show ?thesis by (auto simp: insert_desc_def)
qed

lemma insert_desc_sorted:
  assumes "sorted_wrt (\<lambda>x y. key y \<le> key x) xs" "t \<notin> set xs"
  shows "sorted_wrt (\<lambda>x y. (key(t := k)) y \<le> (key(t := k)) x) (insert_desc key t k xs)"
proof -
  have "sorted_wrt (\<lambda>x y. (key(t := k)) y \<le> (key(t := k)) x) (takeWhile (\<lambda>x. key x \<ge> k) xs)
      \<and> sorted_wrt (\<lambda>x y. (key(t := k)) y \<le> (key(t := k)) x) (dropWhile (\<lambda>x. key x \<ge> k) xs)"
    using assms
    by (intro conjI sorted_wrt_mono_rel [OF _ sorted_wrt_takeWhile]
        sorted_wrt_mono_rel [OF _ sorted_wrt_dropWhile])
      (auto dest: set_takeWhileD set_dropWhileD)
  moreover have "key y < k" if "y \<in> set (dropWhile (\<lambda>x. key x \<ge> k) xs)" for y
    using assms(1) that by (induction xs) (auto split: if_splits)
  moreover have "key x \<ge> k" if "x \<in> set (takeWhile (\<lambda>x. key x \<ge> k) xs)" for x
    using that by (auto dest: set_takeWhileD)
  ultimately show ?thesis
    using assms(2) by (fastforce simp: insert_desc_def sorted_wrt_append
        dest: set_takeWhileD set_dropWhileD)
qed

subsection \<open>Delta queues\<close>

text \<open>
  A delta queue stores with each thread the difference between its own delay and that of its
  predecessor. \<open>dins\<close> is the insertion on the list of pairs of thread and difference,
  \<open>wake\<close> turns the differences into absolute delays.
\<close>

fun dins :: "int \<Rightarrow> int \<Rightarrow> (int \<times> int) list \<Rightarrow> (int \<times> int) list" where
  "dins t k [] = [(t, k)]"
| "dins t k ((x, d) # xs) =
     (if d \<le> k then (x, d) # dins t (k - d) xs else (t, k) # (x, d - k) # xs)"

fun wake :: "int \<Rightarrow> (int \<times> int) list \<Rightarrow> (int \<times> int) list" where
  "wake acc [] = []"
| "wake acc ((x, d) # xs) = (x, acc + d) # wake (acc + d) xs"

lemma wake_dins:
  "wake acc (dins t k xs) = takeWhile (\<lambda>p. snd p \<le> acc + k) (wake acc xs) @
     (t, acc + k) # dropWhile (\<lambda>p. snd p \<le> acc + k) (wake acc xs)"
proof (induction t k xs arbitrary: acc rule: dins.induct)
  case (1 t k)
  then show ?case by simp
next
  case (2 t k x d xs)
  then show ?case by (cases "d \<le> k") (simp_all add: algebra_simps)
qed

text \<open>The threads of a queue with their keys.\<close>

definition keyed :: "queent list \<Rightarrow> int list \<Rightarrow> (int \<times> int) list" where
  "keyed qt xs = map (\<lambda>x. (x, qkey (at qt x))) xs"

lemma keyed_simps [simp]:
  "keyed qt [] = []" "keyed qt (x # xs) = (x, qkey (at qt x)) # keyed qt xs"
  "keyed qt (xs @ ys) = keyed qt xs @ keyed qt ys"
  by (simp_all add: keyed_def)

lemma insertd_loop_dseg:
  assumes "dseg qt a xs b" "\<forall>i \<in> set xs. inarr qt i \<and> 0 \<le> qkey (at qt i)" "inarr qt b"
    "b \<notin> set xs" "0 \<le> k" "k \<le> INT_MAX"
  shows "\<exists>us vs k'. xs = us @ vs \<and>
    insertd_loop qt b k a (hd (xs @ [b])) = Some (k', last (a # us), hd (vs @ [b])) \<and>
    0 \<le> k' \<and> k' \<le> k \<and> (vs \<noteq> [] \<longrightarrow> k' < qkey (at qt (hd vs))) \<and>
    dins t k (keyed qt xs) = keyed qt us @ (t, k') #
      (case vs of [] \<Rightarrow> [] | v # vs' \<Rightarrow> (v, qkey (at qt v) - k') # keyed qt vs')"
  using assms
proof (induction xs arbitrary: a k)
  case Nil
  then show ?case by (intro exI [of _ "[]"] exI [of _ k]) (simp add: insertd_loop.simps)
next
  case (Cons x xs)
  show ?case
  proof (cases "qkey (at qt x) \<le> k")
    case False
    with Cons.prems show ?thesis
      by (intro exI [of _ "[]"] exI [of _ "x # xs"] exI [of _ k])
        (simp add: insertd_loop.simps)
  next
    case True
    let ?k = "k - qkey (at qt x)"
    from Cons.prems have "0 \<le> ?k" "?k \<le> INT_MAX" "dseg qt x xs b" using True by auto
    have rest: "\<forall>i \<in> set xs. inarr qt i \<and> 0 \<le> qkey (at qt i)" "b \<notin> set xs"
      using Cons.prems by auto
    from Cons.IH [OF \<open>dseg qt x xs b\<close> rest(1) Cons.prems(3) rest(2) \<open>0 \<le> ?k\<close> \<open>?k \<le> INT_MAX\<close>]
    obtain us vs k' where IH: "xs = us @ vs"
        "insertd_loop qt b ?k x (hd (xs @ [b])) = Some (k', last (x # us), hd (vs @ [b]))"
        "0 \<le> k'" "k' \<le> ?k" "vs \<noteq> [] \<longrightarrow> k' < qkey (at qt (hd vs))"
        "dins t ?k (keyed qt xs) = keyed qt us @ (t, k') #
          (case vs of [] \<Rightarrow> [] | v # vs' \<Rightarrow> (v, qkey (at qt v) - k') # keyed qt vs')"
      by blast
    have "qnext (at qt x) = hd (xs @ [b])" using Cons.prems by (auto dest: dseg_first)
    moreover have "c_int ?k = Some ?k"
      using \<open>0 \<le> ?k\<close> \<open>?k \<le> INT_MAX\<close> by (simp add: c_consts c_int_def)
    ultimately have "insertd_loop qt b k a (hd ((x # xs) @ [b]))
        = Some (k', last (x # us), hd (vs @ [b]))"
      using IH(2) Cons.prems True by (subst insertd_loop.simps) auto
    moreover have "k' \<le> k" using IH(4) Cons.prems by auto
    ultimately show ?thesis using IH True
      by (intro exI [of _ "x # us"] exI [of _ vs] exI [of _ k']) auto
  qed
qed

lemma keyed_cong: "(\<And>x. x \<in> set xs \<Longrightarrow> qkey (at qt' x) = qkey (at qt x)) \<Longrightarrow> keyed qt' xs = keyed qt xs"
  by (simp add: keyed_def)

lemma insertd_refines:
  assumes sys: "qsys (quetab s) (NTHREAD s) Q qs" and q: "q \<in> Q"
    and t: "\<not> isbadtid s t" "unqueued Q qs t" and k: "0 \<le> k" "k \<le> INT_MAX"
    and pos: "\<forall>x \<in> set (qs q). 0 \<le> qkey (at (quetab s) x) \<and> qkey (at (quetab s) x) \<le> INT_MAX"
  shows "\<exists>qt' xs'. insertd t q k s = Some (OK, s\<lparr>quetab := qt'\<rparr>)
    \<and> qsys qt' (NTHREAD s) Q (qs(q := xs'))
    \<and> keyed qt' xs' = dins t k (keyed (quetab s) (qs q)) \<and> set xs' = insert t (set (qs q))
    \<and> same_keys (quetab s) qt' (insert t (set (qs q)))"
proof -
  let ?qt = "quetab s"
  note ends = qsys_ends [OF sys q] and rep = qsysD [OF sys q]
  note nodes = qrep_nodes [OF rep]
  have pre: "dseg ?qt q (qs q) (q + 1)" "\<forall>i \<in> set (qs q). inarr ?qt i \<and> 0 \<le> qkey (at ?qt i)"
    "q + 1 \<notin> set (qs q)"
    using rep nodes pos by (auto simp: qrep_def)
  from insertd_loop_dseg [OF pre(1,2) nodes(2) pre(3) k, of t]
  obtain us vs k' where split: "qs q = us @ vs"
    and loop: "insertd_loop ?qt (q + 1) k q (hd (qs q @ [q + 1])) = Some (k', last (q # us), hd (vs @ [q + 1]))"
    and k': "0 \<le> k'" "k' \<le> k" "vs \<noteq> [] \<longrightarrow> k' < qkey (at ?qt (hd vs))"
    and dins: "dins t k (keyed ?qt (qs q)) = keyed ?qt us @ (t, k') #
      (case vs of [] \<Rightarrow> [] | v # vs' \<Rightarrow> (v, qkey (at ?qt v) - k') # keyed ?qt vs')"
    by blast
  let ?p = "last (q # us)" and ?n = "hd (vs @ [q + 1])"
  define dec :: "queent \<Rightarrow> queent" where "dec = (if vs = [] then id else qkey_update (\<lambda>_. qkey (at ?qt ?n) - k'))"
  define qt' where "qt' = upd (upd (upd ?qt t
      (qkey_update (\<lambda>_. k') \<circ> qprev_update (\<lambda>_. ?p) \<circ> qnext_update (\<lambda>_. ?n)))
    ?p (qnext_update (\<lambda>_. t))) ?n (dec \<circ> qprev_update (\<lambda>_. t))"
  have tr: "0 \<le> t" "t < NTHREAD s" using t by (auto simp: isbadtid_def)
  then have tin: "inarr ?qt t" using rep by (auto simp: qrep_def inarr_def)
  have pin: "inarr ?qt ?p" and nin: "inarr ?qt ?n"
    using nodes split linked_ends(1) [of q us] linked_ends(2) [of vs "q + 1"] by auto
  have ne: "t \<noteq> ?p" "t \<noteq> ?n" "t \<notin> set (qs q)"
    using tr rep t q split linked_ends(1) [of q us] linked_ends(2) [of vs "q + 1"]
    by (auto simp: qrep_def unqueued_def)
  have pn: "?p \<noteq> ?n"
    using nodes(4) split linked_ends(1) [of q us] linked_ends(2) [of vs "q + 1"] by auto
  have link: "linked_in ?qt qt' t ?p ?n"
    unfolding linked_in_def qt'_def dec_def using tin pin nin ne by (auto simp: at_upd)
  have key: "qkey (at qt' i) = (if i = t then k' else if i = ?n \<and> vs \<noteq> [] then qkey (at ?qt ?n) - k'
      else qkey (at ?qt i))" if "inarr ?qt i" for i
    unfolding qt'_def dec_def using tin pin nin ne that by (auto simp: at_upd)
  have keys: "same_keys ?qt qt' (insert t (set (qs q)))"
    unfolding same_keys_def using key split by (cases vs) (auto simp: qt'_def)
  have sub: "insert t (set (qs q)) \<subseteq> {0..<NTHREAD s}" using rep tr by (auto simp: qrep_def)
  have tl: "?n = q + 1 \<longleftrightarrow> vs = []" using nodes split by (cases vs) auto
  have ck: "c_int (qkey (at ?qt ?n) - k') = Some (qkey (at ?qt ?n) - k')" if "vs \<noteq> []"
  proof -
    have "?n \<in> set (qs q)" using that split by (cases vs) auto
    with pos k' that show ?thesis by (auto simp: c_int_def c_consts)
  qed
  have "insertd t q k s = Some (OK, s\<lparr>quetab := qt'\<rparr>)"
    using qsys_goodqid [OF sys q] t(1) ends tin pin nin loop ne pn tl ck
    by (cases "vs = []")
      (auto simp: insertd_def quehead_def quetail_def qt'_def dec_def comp_def Let_def at_upd)
  moreover have "qsys qt' (NTHREAD s) Q (qs(q := us @ t # vs))"
    by (rule qsys_linked_in [OF sys q split tr t(2) link same_keys_mono [OF keys sub]])
  moreover have "keyed qt' (us @ t # vs) = dins t k (keyed ?qt (qs q))"
  proof -
    have "keyed qt' us = keyed ?qt us" "\<And>v vs'. vs = v # vs' \<Longrightarrow> keyed qt' vs' = keyed ?qt vs'"
      using key nodes ne split by (intro keyed_cong; force)+
    then show ?thesis using key tin nodes split ne unfolding dins by (cases vs) auto
  qed
  ultimately show ?thesis using keys split
    by (intro exI [of _ qt'] exI [of _ "us @ t # vs"]) auto
qed

subsection \<open>New queues\<close>

lemma queinit_refines:
  assumes sys: "qsys (quetab s) (NTHREAD s) Q qs" and new: "NTHREAD s \<le> nextqid s" "nextqid s + 1 < NQENT s"
    and above: "\<forall>q \<in> Q. q + 1 < nextqid s"
  shows "\<exists>qt'. queinit s = Some (nextqid s, s\<lparr>nextqid := nextqid s + 2, quetab := qt'\<rparr>)
    \<and> qsys qt' (NTHREAD s) (insert (nextqid s) Q) (qs(nextqid s := []))
    \<and> same_keys (quetab s) qt' {nextqid s, nextqid s + 1}"
proof -
  let ?qt = "quetab s" and ?q = "nextqid s"
  define qt' where "qt' = upd (upd ?qt ?q (\<lambda>e. e\<lparr>qnext := ?q + 1, qprev := EMPTY, qkey := MAXKEY\<rparr>))
    (?q + 1) (\<lambda>e. e\<lparr>qnext := EMPTY, qprev := ?q, qkey := MINKEY\<rparr>)"
  have nodes: "inarr ?qt ?q" "inarr ?qt (?q + 1)" using new by (auto simp: inarr_def)
  have same: "at qt' i = at ?qt i" if "inarr ?qt i" "i \<noteq> ?q" "i \<noteq> ?q + 1" for i
    using nodes that by (simp add: qt'_def at_upd)
  have "queinit s = Some (?q, s\<lparr>nextqid := ?q + 2, quetab := qt'\<rparr>)"
    using new nodes by (simp add: queinit_def qt'_def quehead_def quetail_def Let_def)
  moreover have "qrep qt' (NTHREAD s) ?q []"
    using new nodes by (simp add: qrep_def qt'_def at_upd)
  moreover have "qrep qt' (NTHREAD s) r (qs r)" if "r \<in> Q" for r
  proof (rule qrep_frame [OF qsysD [OF sys that]])
    note n = qrep_nodes [OF qsysD [OF sys that]]
    have r: "r + 1 < ?q" using above that by blast
    show "length qt' = length ?qt" by (simp add: qt'_def)
    show "qnext (at qt' i) = qnext (at ?qt i) \<and> qprev (at qt' i) = qprev (at ?qt i)"
      if "i = r \<or> i = r + 1 \<or> i \<in> set (qs r)" for i
      using same [of i] that n r by force
    show "qkey (at qt' r) = qkey (at ?qt r)" "qkey (at qt' (r + 1)) = qkey (at ?qt (r + 1))"
      using same n r by auto
  qed
  ultimately show ?thesis
    using sys above same unfolding qsys_def same_keys_def
    by (intro exI [of _ qt']) (auto simp: qt'_def)
qed

end
