(* ===== verification/Queue_Contract.thy ===== *)
theory Queue_Contract
  imports Queue_Refinement
begin

text \<open>
  The contract of the thread queues towards semaphores and scheduler, as a locale: queues are
  lists of threads, \<open>enqueue\<close> appends, \<open>dequeue\<close> takes the first. First-in first-out order
  over whole sequences of operations is proved from the contract alone.
\<close>

locale fifo_queues =
  fixes rep :: "'s \<Rightarrow> int set \<Rightarrow> (int \<Rightarrow> int list) \<Rightarrow> bool"
    and alive :: "'s \<Rightarrow> int \<Rightarrow> bool"
    and enq :: "int \<Rightarrow> int \<Rightarrow> 's \<Rightarrow> (int \<times> 's) option"
    and deq :: "int \<Rightarrow> 's \<Rightarrow> (int \<times> 's) option"
  assumes enq_law: "rep s Q qs \<Longrightarrow> q \<in> Q \<Longrightarrow> alive s t \<Longrightarrow> unqueued Q qs t \<Longrightarrow>
      \<exists>s'. enq t q s = Some (t, s') \<and> rep s' Q (qs(q := qs q @ [t])) \<and> (\<forall>u. alive s' u = alive s u)"
    and deq_law: "rep s Q qs \<Longrightarrow> q \<in> Q \<Longrightarrow> qs q = t # xs \<Longrightarrow>
      \<exists>s'. deq q s = Some (t, s') \<and> rep s' Q (qs(q := xs)) \<and> (\<forall>u. alive s' u = alive s u)"
begin

fun enq_all :: "int list \<Rightarrow> int \<Rightarrow> 's \<Rightarrow> 's option" where
  "enq_all [] q s = Some s"
| "enq_all (t # ts) q s = Option.bind (enq t q s) (\<lambda>(_, s). enq_all ts q s)"

fun deq_n :: "nat \<Rightarrow> int \<Rightarrow> 's \<Rightarrow> (int list \<times> 's) option" where
  "deq_n 0 q s = Some ([], s)"
| "deq_n (Suc n) q s = Option.bind (deq q s) (\<lambda>(t, s). Option.bind (deq_n n q s) (\<lambda>(ts, s). Some (t # ts, s)))"

lemma enq_all_law:
  assumes "rep s Q qs" "q \<in> Q" "\<forall>t \<in> set ts. alive s t \<and> unqueued Q qs t" "distinct ts"
  shows "\<exists>s'. enq_all ts q s = Some s' \<and> rep s' Q (qs(q := qs q @ ts)) \<and> (\<forall>u. alive s' u = alive s u)"
  using assms
proof (induction ts arbitrary: s qs)
  case (Cons t ts)
  from enq_law [OF Cons.prems(1,2), of t] Cons.prems(3)
  obtain s1 where s1: "enq t q s = Some (t, s1)" "rep s1 Q (qs(q := qs q @ [t]))" "\<forall>u. alive s1 u = alive s u"
    by auto
  have "\<forall>u \<in> set ts. alive s1 u \<and> unqueued Q (qs(q := qs q @ [t])) u"
    using Cons.prems(3,4) s1(3) by (auto simp: unqueued_def)
  from Cons.IH [OF s1(2) Cons.prems(2) this] Cons.prems(4) s1 show ?case by (auto simp del: fun_upd_apply simp: fun_upd_same)
qed auto

lemma deq_n_law:
  assumes "rep s Q qs" "q \<in> Q" "qs q = ts @ us"
  shows "\<exists>s'. deq_n (length ts) q s = Some (ts, s') \<and> rep s' Q (qs(q := us))"
  using assms
proof (induction ts arbitrary: s qs)
  case Nil
  then show ?case by (auto simp: fun_upd_idem)
next
  case (Cons t ts)
  from deq_law [OF Cons.prems(1,2)] Cons.prems(3)
  obtain s1 where s1: "deq q s = Some (t, s1)" "rep s1 Q (qs(q := ts @ us))" by auto
  from Cons.IH [OF s1(2) Cons.prems(2)] s1(1) show ?case by (auto simp del: fun_upd_apply simp: fun_upd_same)
qed

text \<open>Threads leave a queue in the order in which they entered it.\<close>

lemma fifo_order:
  assumes "rep s Q qs" "q \<in> Q" "qs q = []" "\<forall>t \<in> set ts. alive s t \<and> unqueued Q qs t" "distinct ts"
  shows "\<exists>s' s''. enq_all ts q s = Some s' \<and> deq_n (length ts) q s' = Some (ts, s'')"
proof -
  obtain s' where s': "enq_all ts q s = Some s'" "rep s' Q (qs(q := qs q @ ts))"
    using enq_all_law [OF assms(1,2,4,5)] by blast
  with deq_n_law [OF s'(2) assms(2), of ts "[]"] assms(3) show ?thesis by auto
qed

end

interpretation tq: fifo_queues "\<lambda>s Q qs. qsys (quetab s) (NTHREAD s) Q qs" "\<lambda>s t. \<not> isbadtid s t" enqueue dequeue
proof
  show "\<exists>s'. enqueue t q s = Some (t, s') \<and> qsys (quetab s') (NTHREAD s') Q (qs(q := qs q @ [t])) \<and>
      (\<forall>u. (\<not> isbadtid s' u) = (\<not> isbadtid s u))"
    if "qsys (quetab s) (NTHREAD s) Q qs" "q \<in> Q" "\<not> isbadtid s t" "unqueued Q qs t" for s Q qs q t
    using enqueue_refines [OF that] by auto
  show "\<exists>s'. dequeue q s = Some (t, s') \<and> qsys (quetab s') (NTHREAD s') Q (qs(q := xs)) \<and>
      (\<forall>u. (\<not> isbadtid s' u) = (\<not> isbadtid s u))"
    if "qsys (quetab s) (NTHREAD s) Q qs" "q \<in> Q" "qs q = t # xs" for s Q qs q t xs
    using dequeue_refines [OF that] by auto
qed

section \<open>Sequences of operations on the model\<close>

fun enqueue_all :: "int list \<Rightarrow> int \<Rightarrow> kstate \<Rightarrow> kstate option" where
  "enqueue_all [] q s = Some s"
| "enqueue_all (t # ts) q s = do { (_, s) \<leftarrow> enqueue t q s; enqueue_all ts q s }"

fun dequeue_n :: "nat \<Rightarrow> int \<Rightarrow> kstate \<Rightarrow> (int list \<times> kstate) option" where
  "dequeue_n 0 q s = Some ([], s)"
| "dequeue_n (Suc n) q s = do { (t, s) \<leftarrow> dequeue q s; (ts, s) \<leftarrow> dequeue_n n q s; Some (t # ts, s) }"

lemma enqueue_all_eq: "enqueue_all ts q = tq.enq_all ts q"
  by (induction ts) (rule ext, simp)+

lemma dequeue_n_eq: "dequeue_n n q = tq.deq_n n q"
  by (induction n) (simp_all add: fun_eq_iff)

text \<open>A queue whose tail still carries the \<open>next\<close> link written by \<open>queinit\<close>.\<close>

lemma insert_loop_minkey:
  assumes "dseg qt a xs b" "\<forall>i \<in> set xs. inarr qt i \<and> MINKEY \<le> qkey (at qt i)" "inarr qt b"
    "qkey (at qt b) = MINKEY" "qnext (at qt b) = EMPTY"
  shows "insert_loop qt MINKEY (hd (xs @ [b])) = None"
  using assms
proof (induction xs arbitrary: a)
  case Nil
  have "aget qt EMPTY = None" by (simp add: aget_def EMPTY_def)
  then have "insert_loop qt MINKEY EMPTY = None" by (subst insert_loop.simps) simp
  with Nil show ?case by (subst insert_loop.simps) simp
next
  case (Cons x xs)
  then have "qnext (at qt x) = hd (xs @ [b])" by (auto dest: dseg_first)
  with Cons show ?case by (subst insert_loop.simps) auto
qed

end
