(* ===== verification/Outcomes.thy ===== *)
theory Outcomes
  imports Kernel_State
begin

text \<open>
  What a kernel call can do besides computing: \<open>ctxsw\<close> stops the calling thread in the
  middle of the call and another thread runs, until some later \<open>ctxsw\<close> lets the call
  continue in whatever state the kernel has by then. A call is therefore an \<open>outcome\<close>:

  \<^item> \<open>Done v s\<close>: the call returned \<open>v\<close> in state \<open>s\<close>;
  \<^item> \<open>Switch t s k\<close>: thread \<open>t\<close> called \<open>ctxsw\<close> in state \<open>s\<close>, whose
    \<open>thrcurrent\<close> is the thread switched to; \<open>k\<close> is the rest of the call, to be
    applied to the state in which \<open>t\<close> is switched back to;
  \<^item> \<open>Halt s\<close>: the processor was stopped by \<open>halt\<close>;
  \<^item> \<open>Fault\<close>: undefined behaviour or a loop without end.

  \<open>obind\<close> is the sequencing of C statements.
\<close>

datatype 'a outcome =
    Done 'a kstate
  | Switch int kstate "kstate \<Rightarrow> 'a outcome"
  | Halt kstate
  | Fault

primrec obind :: "'a outcome \<Rightarrow> ('a \<Rightarrow> kstate \<Rightarrow> 'b outcome) \<Rightarrow> 'b outcome" where
  "obind (Done v s) f = f v s"
| "obind (Switch t s k) f = Switch t s (\<lambda>u. obind (k u) f)"
| "obind (Halt s) f = Halt s"
| "obind Fault f = Fault"

lemma obind_Done [simp]: "obind m Done = m"
  by (induction m) auto

lemma obind_assoc: "obind (obind m f) g = obind m (\<lambda>v s. obind (f v s) g)"
  by (induction m) auto

text \<open>A computation that cannot switch, and the use of its value.\<close>

definition olift :: "('a \<times> kstate) option \<Rightarrow> 'a outcome" where
  "olift m = (case m of None \<Rightarrow> Fault | Some (v, s) \<Rightarrow> Done v s)"

definition oget :: "'a option \<Rightarrow> ('a \<Rightarrow> 'b outcome) \<Rightarrow> 'b outcome" where
  "oget m f = (case m of None \<Rightarrow> Fault | Some v \<Rightarrow> f v)"

lemma olift_simps [simp]: "olift None = Fault" "olift (Some (v, s)) = Done v s"
  by (simp_all add: olift_def)

lemma oget_simps [simp]: "oget None f = Fault" "oget (Some v) f = f v"
  by (simp_all add: oget_def)

section \<open>Statements about every way a call can go on\<close>

text \<open>
  \<open>returns P m\<close>: whatever the other threads do while the calling thread is switched out,
  if the call returns then value and state satisfy \<open>P\<close>, and it does not fault as long as
  each state in which it continues satisfies \<open>R\<close>.
\<close>

primrec returns :: "(kstate \<Rightarrow> bool) \<Rightarrow> ('a \<Rightarrow> kstate \<Rightarrow> bool) \<Rightarrow> 'a outcome \<Rightarrow> bool" where
  "returns R P (Done v s) = P v s"
| "returns R P (Switch t s k) = (\<forall>u. R u \<longrightarrow> returns R P (k u))"
| "returns R P (Halt s) = True"
| "returns R P Fault = False"

lemma returns_bind:
  "returns R P m \<Longrightarrow> (\<And>v s. P v s \<Longrightarrow> returns R P' (f v s)) \<Longrightarrow> returns R P' (obind m f)"
  by (induction m) auto

lemma returns_mono:
  "returns R P m \<Longrightarrow> (\<And>v s. P v s \<Longrightarrow> P' v s) \<Longrightarrow> (\<And>u. R' u \<Longrightarrow> R u) \<Longrightarrow> returns R' P' m"
  by (induction m) auto

end
