(* ===== verification/Threads.thy ===== *)
theory Threads
  imports Queues Outcomes
begin

text \<open>
  The scheduler and the simple thread calls: \<open>resched.c\<close>, \<open>ready.c\<close>,
  \<open>resume.c\<close>, \<open>suspend.c\<close>, \<open>chprio.c\<close>, \<open>getprio.c\<close>, \<open>gettid.c\<close>,
  \<open>yield.c\<close> and \<open>xdone.c\<close>. Creation and destruction of threads, which need the memory
  allocator and messages, are in theory \<open>Thread_Lifecycle\<close>.
\<close>

section \<open>The scheduler\<close>

text \<open>The current thread goes back to the ready list with its priority as key.\<close>

definition resched_requeue :: "kstate \<Rightarrow> kstate option" where
  "resched_requeue s = do {
     throld \<leftarrow> aget (thrtab s) (thrcurrent s);
     tt \<leftarrow> aupd (thrtab s) (thrcurrent s) (state_update (\<lambda>_. THRREADY));
     (_, s) \<leftarrow> insertq (thrcurrent s) (readylist s) (prio throld) (s\<lparr>thrtab := tt\<rparr>);
     Some s }"

text \<open>The first thread of the ready list becomes the current one.\<close>

definition resched_pick :: "kstate \<Rightarrow> kstate option" where
  "resched_pick s = do {
     (new, s) \<leftarrow> dequeue (readylist s) s;
     s \<leftarrow> Some (s\<lparr>thrcurrent := new\<rparr>);
     tt \<leftarrow> aupd (thrtab s) new (state_update (\<lambda>_. THRCURR));
     Some (s\<lparr>thrtab := tt\<rparr>) }"

text \<open>
  The part of \<open>resched\<close> up to \<open>ctxsw\<close>: \<open>True\<close> when the current thread keeps the
  processor, \<open>False\<close> when \<open>thrcurrent\<close> is now the thread to switch to.
\<close>

definition resched_select :: "kstate \<Rightarrow> (bool \<times> kstate) option" where
  "resched_select s = do {
     let old = thrcurrent s;
     let (im, s) = disable s;
     tt \<leftarrow> aupd (thrtab s) old (intmask_update (\<lambda>_. im));
     s \<leftarrow> Some (s\<lparr>thrtab := tt\<rparr>);
     throld \<leftarrow> aget (thrtab s) old;
     keep \<leftarrow> (if state throld = THRCURR
              then do {
                ne \<leftarrow> nonempty s (readylist s);
                if ne then do { k \<leftarrow> firstkey s (readylist s); Some (prio throld > k) } else Some False }
              else Some False);
     if keep then Some (True, restore (intmask throld) s)
     else do {
       s \<leftarrow> (if state throld = THRCURR then resched_requeue s else Some s);
       s \<leftarrow> resched_pick s;
       Some (False, s) } }"

definition resched :: "kstate \<Rightarrow> int outcome" where
  "resched s =
     (if resdefer s > 0
      then oget (c_int (resdefer s + 1)) (\<lambda>r. Done OK (s\<lparr>resdefer := r\<rparr>))
      else oget (resched_select s) (\<lambda>(keep, s').
        if keep then Done OK s'
        else Switch (thrcurrent s) s' (\<lambda>t.
          oget (aget (thrtab t) (thrcurrent s)) (\<lambda>throld.
            Done OK (restore (intmask throld) t)))))"

text \<open>\<open>ready\<close>; its second parameter is \<open>RESCHED_YES\<close> or \<open>RESCHED_NO\<close>.\<close>

definition RESCHED_YES :: bool where "RESCHED_YES = True"
definition RESCHED_NO :: bool where "RESCHED_NO = False"

definition ready :: "int \<Rightarrow> bool \<Rightarrow> kstate \<Rightarrow> int outcome" where
  "ready tid resch s =
     (if isbadtid s tid then Done SYSERR s
      else oget (do {
             tt \<leftarrow> aupd (thrtab s) tid (state_update (\<lambda>_. THRREADY));
             thrptr \<leftarrow> aget tt tid;
             (_, s) \<leftarrow> insertq tid (readylist s) (prio thrptr) (s\<lparr>thrtab := tt\<rparr>);
             Some s })
           (\<lambda>s. obind (if resch = RESCHED_YES then resched s else Done OK s)
             (\<lambda>_ s. Done OK s)))"

section \<open>Calls\<close>

definition yield :: "kstate \<Rightarrow> int outcome" where
  "yield s = (let (im, s) = disable s in
     obind (resched s) (\<lambda>_ s. Done OK (restore im s)))"

definition resume :: "int \<Rightarrow> kstate \<Rightarrow> int outcome" where
  "resume tid s = (let (im, s) = disable s in
     if isbadtid s tid \<or> state (thr s tid) \<noteq> THRSUSP then Done SYSERR (restore im s)
     else oget (aget (thrtab s) tid) (\<lambda>thrptr.
       obind (ready tid RESCHED_YES s) (\<lambda>_ s. Done (prio thrptr) (restore im s))))"

definition suspend :: "int \<Rightarrow> kstate \<Rightarrow> int outcome" where
  "suspend tid s = (let (im, s) = disable s in
     if isbadtid s tid \<or> NULLTHREAD = tid then Done SYSERR (restore im s)
     else oget (aget (thrtab s) tid) (\<lambda>thrptr.
       if state thrptr \<noteq> THRCURR \<and> state thrptr \<noteq> THRREADY then Done SYSERR (restore im s)
       else
         obind
           (if state thrptr = THRREADY
            then oget (do {
                   (_, s) \<leftarrow> getitem tid s;
                   tt \<leftarrow> aupd (thrtab s) tid (state_update (\<lambda>_. THRSUSP));
                   Some (s\<lparr>thrtab := tt\<rparr>) }) (\<lambda>s. Done OK s)
            else oget (aupd (thrtab s) tid (state_update (\<lambda>_. THRSUSP)))
                   (\<lambda>tt. resched (s\<lparr>thrtab := tt\<rparr>)))
           (\<lambda>_ s. oget (aget (thrtab s) tid) (\<lambda>thrptr. Done (prio thrptr) (restore im s)))))"

definition chprio :: "int \<Rightarrow> int \<Rightarrow> kstate \<Rightarrow> (int \<times> kstate) option" where
  "chprio tid newprio s = (let (im, s) = disable s in
     if isbadtid s tid then Some (SYSERR, restore im s)
     else do {
       thrptr \<leftarrow> aget (thrtab s) tid;
       let oldprio = prio thrptr;
       tt \<leftarrow> aupd (thrtab s) tid (prio_update (\<lambda>_. newprio));
       Some (oldprio, restore im (s\<lparr>thrtab := tt\<rparr>)) })"

definition getprio :: "int \<Rightarrow> kstate \<Rightarrow> (int \<times> kstate) option" where
  "getprio tid s = (let (im, s) = disable s in
     if isbadtid s tid then Some (SYSERR, restore im s)
     else do {
       thrptr \<leftarrow> aget (thrtab s) tid;
       Some (prio thrptr, restore im s) })"

definition gettid :: "kstate \<Rightarrow> int" where
  "gettid s = thrcurrent s"

text \<open>\<open>xdone\<close>: the completion message is console output; the processor stops with
  interrupts disabled.\<close>

definition xdone :: "kstate \<Rightarrow> unit outcome" where
  "xdone s = Halt (snd (disable s))"

end
