(* ===== verification/Slot_Scan.thy ===== *)
theory Slot_Scan
  imports C_Prelude
begin

text \<open>
  \<open>thrnew\<close>, \<open>semalloc\<close> and \<open>monalloc\<close> search their tables in the same way: at most one
  full round, starting one past the slot at which the last search ended. The locale states
  what they have in common; each of them is an interpretation.
\<close>

locale slot_scan =
  fixes slots :: "'s \<Rightarrow> nat" and is_free :: "'s \<Rightarrow> int \<Rightarrow> bool"
    and last_slot :: "'s \<Rightarrow> int" and set_last :: "int \<Rightarrow> 's \<Rightarrow> 's"
    and claim :: "int \<Rightarrow> 's \<Rightarrow> 's" and loop :: "nat \<Rightarrow> 's \<Rightarrow> (int \<times> 's) option"
  assumes loop_0: "loop 0 s = Some (SYSERR, s)"
    and loop_Suc: "0 < slots s \<Longrightarrow> i = (last_slot s + 1) mod int (slots s) \<Longrightarrow>
      loop (Suc n) s = (if is_free s i then Some (i, claim i (set_last i s)) else loop n (set_last i s))"
    and set_last [simp]: "last_slot (set_last i s) = i" "is_free (set_last i s) j = is_free s j"
      "slots (set_last i s) = slots s" "set_last i (set_last j s) = set_last i s"
begin

lemma scan_finds:
  assumes "0 < slots s" "1 \<le> k" "k \<le> int n" "is_free s ((last_slot s + k) mod int (slots s))"
  shows "\<exists>i. 0 \<le> i \<and> i < int (slots s) \<and> is_free s i \<and> loop n s = Some (i, claim i (set_last i s))"
  using assms
proof (induction n arbitrary: s k)
  case (Suc n)
  define i where "i = (last_slot s + 1) mod int (slots s)"
  have i: "0 \<le> i" "i < int (slots s)" using Suc.prems(1) by (simp_all add: i_def)
  show ?case
  proof (cases "is_free s i")
    case True
    then show ?thesis using loop_Suc [OF Suc.prems(1) i_def] i by auto
  next
    case False
    have "k \<noteq> 1" using False Suc.prems(4) by (auto simp: i_def)
    moreover have "(i + (k - 1)) mod int (slots s) = (last_slot s + k) mod int (slots s)"
      unfolding i_def mod_add_left_eq by simp
    ultimately obtain j where "0 \<le> j" "j < int (slots s)" "is_free s j"
        "loop n (set_last i s) = Some (j, claim j (set_last j s))"
      using Suc.IH [of "set_last i s" "k - 1"] Suc.prems by auto
    with False show ?thesis using loop_Suc [OF Suc.prems(1) i_def] by auto
  qed
qed simp

text \<open>A free slot is found whenever there is one.\<close>

lemma scan_free:
  assumes "0 \<le> j" "j < int (slots s)" "is_free s j"
  shows "\<exists>i. 0 \<le> i \<and> i < int (slots s) \<and> is_free s i \<and> loop (slots s) s = Some (i, claim i (set_last i s))"
proof (rule scan_finds)
  let ?k = "(j - last_slot s - 1) mod int (slots s) + 1"
  show "0 < slots s" using assms by linarith
  then have "0 \<le> (j - last_slot s - 1) mod int (slots s)" "(j - last_slot s - 1) mod int (slots s) < int (slots s)"
    by simp_all
  then show "1 \<le> ?k" "?k \<le> int (slots s)" by linarith+
  have "(last_slot s + ?k) mod int (slots s) = (last_slot s + 1 + (j - last_slot s - 1)) mod int (slots s)"
    by (metis (no_types, opaque_lifting) add.assoc add.commute mod_add_right_eq)
  then show "is_free s ((last_slot s + ?k) mod int (slots s))" using assms by (simp add: mod_pos_pos_trivial)
qed

lemma scan_full:
  assumes "0 < slots s" "\<forall>i. 0 \<le> i \<and> i < int (slots s) \<longrightarrow> \<not> is_free s i"
  shows "loop n s = Some (SYSERR, s) \<or> (\<exists>i. 0 \<le> i \<and> i < int (slots s) \<and> loop n s = Some (SYSERR, set_last i s))"
  using assms
proof (induction n arbitrary: s)
  case (Suc n)
  define i where "i = (last_slot s + 1) mod int (slots s)"
  have i: "0 \<le> i" "i < int (slots s)" using Suc.prems(1) by (simp_all add: i_def)
  then have "loop (Suc n) s = loop n (set_last i s)" using loop_Suc [OF Suc.prems(1) i_def] Suc.prems(2) by auto
  with Suc.IH [of "set_last i s"] Suc.prems i show ?case by auto
qed (simp add: loop_0)

end

end
