(* ===== verification/Semaphores.thy ===== *)
theory Semaphores
  imports Threads Slot_Scan
begin

text \<open>
  Counting semaphores: \<open>semcreate.c\<close>, \<open>semfree.c\<close>, \<open>semcount.c\<close>, \<open>wait.c\<close>,
  \<open>signal.c\<close> and \<open>signaln.c\<close>. A \<open>semaphore\<close> is an unsigned index into
  \<open>semtab\<close>; \<open>SYSERR\<close> returned as a semaphore is \<open>USYSERR\<close>.
\<close>

definition isbadsem :: "kstate \<Rightarrow> u32 \<Rightarrow> bool" where
  "isbadsem s x \<longleftrightarrow> uidx x \<ge> NSEM s \<or> sstate (at (semtab s) (uidx x)) = SFREE"

text \<open>
  \<open>semalloc\<close>: the loop tries \<open>i\<close> more slots, starting one past \<open>nextsem\<close>.
\<close>

fun semalloc_loop :: "nat \<Rightarrow> kstate \<Rightarrow> (int \<times> kstate) option" where
  "semalloc_loop 0 s = Some (SYSERR, s)"
| "semalloc_loop (Suc i) s = do {
     s \<leftarrow> Some (s\<lparr>nextsem := (nextsem s + 1) mod NSEM s\<rparr>);
     e \<leftarrow> aget (semtab s) (nextsem s);
     if sstate e = SFREE
     then do {
       st \<leftarrow> aupd (semtab s) (nextsem s) (sstate_update (\<lambda>_. SUSED));
       Some (nextsem s, s\<lparr>semtab := st\<rparr>) }
     else semalloc_loop i s }"

interpretation sem_scan: slot_scan "\<lambda>s. length (semtab s)" "\<lambda>s i. sstate (at (semtab s) i) = SFREE"
    nextsem "\<lambda>i s. s\<lparr>nextsem := i\<rparr>" "\<lambda>i s. s\<lparr>semtab := upd (semtab s) i (sstate_update (\<lambda>_. SUSED))\<rparr>"
    semalloc_loop
  by unfold_locales (auto simp: inarr_def)

definition semalloc :: "kstate \<Rightarrow> (u32 \<times> kstate) option" where
  "semalloc s = do {
     (r, s) \<leftarrow> semalloc_loop (length (semtab s)) s;
     Some (word_of_int r, s) }"

definition semcreate :: "int \<Rightarrow> kstate \<Rightarrow> (u32 \<times> kstate) option" where
  "semcreate cnt s =
     (if cnt < 0 then Some (USYSERR, s)
      else do {
        let (im, s) = disable s;
        (sm, s) \<leftarrow> semalloc s;
        s \<leftarrow> (if USYSERR \<noteq> sm
              then do {
                st \<leftarrow> aupd (semtab s) (uidx sm) (count_update (\<lambda>_. cnt));
                Some (s\<lparr>semtab := st\<rparr>) }
              else Some s);
        Some (sm, restore im s) })"

definition semcount :: "u32 \<Rightarrow> kstate \<Rightarrow> int option" where
  "semcount sm s =
     (if isbadsem s sm then Some SYSERR
      else do { e \<leftarrow> aget (semtab s) (uidx sm); Some (count e) })"

text \<open>\<open>semfree\<close>: the loop readies the waiting threads without rescheduling.\<close>

partial_function (option) semfree_loop :: "int \<Rightarrow> kstate \<Rightarrow> kstate option" where
  "semfree_loop q s = do {
     ne \<leftarrow> nonempty s q;
     if ne
     then do {
       (tid, s) \<leftarrow> dequeue q s;
       case ready tid RESCHED_NO s of Done _ s' \<Rightarrow> semfree_loop q s' | _ \<Rightarrow> None }
     else Some s }"

declare semfree_loop.simps [code]

definition semfree :: "u32 \<Rightarrow> kstate \<Rightarrow> (int \<times> kstate) option" where
  "semfree sm s = (let (im, s) = disable s in
     if isbadsem s sm then Some (SYSERR, restore im s)
     else do {
       semptr \<leftarrow> aget (semtab s) (uidx sm);
       s \<leftarrow> semfree_loop (squeue semptr) s;
       st \<leftarrow> aupd (semtab s) (uidx sm) (count_update (\<lambda>_. 0));
       st \<leftarrow> aupd st (uidx sm) (sstate_update (\<lambda>_. SFREE));
       Some (OK, restore im (s\<lparr>semtab := st\<rparr>)) })"

definition wait :: "u32 \<Rightarrow> kstate \<Rightarrow> int outcome" where
  "wait sm s = (let (im, s) = disable s in
     if isbadsem s sm then Done SYSERR (restore im s)
     else oget (do {
         semptr \<leftarrow> aget (semtab s) (uidx sm);
         c \<leftarrow> c_int (count semptr - 1);
         st \<leftarrow> aupd (semtab s) (uidx sm) (count_update (\<lambda>_. c));
         s \<leftarrow> Some (s\<lparr>semtab := st\<rparr>);
         if c < 0
         then do {
           tt \<leftarrow> aupd (thrtab s) (thrcurrent s) (state_update (\<lambda>_. THRWAIT));
           tt \<leftarrow> aupd tt (thrcurrent s) (sem_update (\<lambda>_. sm));
           (_, s) \<leftarrow> enqueue (thrcurrent s) (squeue semptr) (s\<lparr>thrtab := tt\<rparr>);
           Some (True, s) }
         else Some (False, s) })
       (\<lambda>(block, s). obind (if block then resched s else Done OK s)
         (\<lambda>_ s. Done OK (restore im s))))"

text \<open>The body shared by \<open>signal\<close> and \<open>signaln\<close>: \<open>if (semptr->count++ < 0) ready(...)\<close>.\<close>

definition signal1 :: "u32 \<Rightarrow> bool \<Rightarrow> kstate \<Rightarrow> int outcome" where
  "signal1 sm resch s =
     oget (do {
         semptr \<leftarrow> aget (semtab s) (uidx sm);
         c \<leftarrow> c_int (count semptr + 1);
         st \<leftarrow> aupd (semtab s) (uidx sm) (count_update (\<lambda>_. c));
         s \<leftarrow> Some (s\<lparr>semtab := st\<rparr>);
         if count semptr < 0
         then do { (tid, s) \<leftarrow> dequeue (squeue semptr) s; Some (Some tid, s) }
         else Some (None, s) })
       (\<lambda>(w, s). case w of None \<Rightarrow> Done OK s | Some tid \<Rightarrow> ready tid resch s)"

definition signal :: "u32 \<Rightarrow> kstate \<Rightarrow> int outcome" where
  "signal sm s = (let (im, s) = disable s in
     if isbadsem s sm then Done SYSERR (restore im s)
     else obind (signal1 sm RESCHED_YES s) (\<lambda>_ s. Done OK (restore im s)))"

fun signaln_loop :: "nat \<Rightarrow> u32 \<Rightarrow> kstate \<Rightarrow> int outcome" where
  "signaln_loop 0 sm s = Done OK s"
| "signaln_loop (Suc n) sm s = obind (signal1 sm RESCHED_NO s) (\<lambda>_ s. signaln_loop n sm s)"

definition signaln :: "u32 \<Rightarrow> int \<Rightarrow> kstate \<Rightarrow> int outcome" where
  "signaln sm cnt s = (let (im, s) = disable s in
     if isbadsem s sm \<or> cnt \<le> 0 then Done SYSERR (restore im s)
     else obind (signaln_loop (nat cnt) sm s) (\<lambda>_ s.
       obind (resched s) (\<lambda>_ s. Done OK (restore im s))))"

end
