(* ===== verification/Kernel_Invariant.thy ===== *)
theory Kernel_Invariant
  imports Queue_Refinement Semaphores
begin

text \<open>
  The invariant that ties the tables of the kernel together: every thread is in exactly the
  queue its state names, one thread is current, the ready list is in priority order, the null
  thread can always run, a semaphore with a negative count has that many waiting threads, and
  the sleep queue holds non-negative delays. The operations temporarily break the link between
  a thread's state and its place, so the invariant has a set \<open>X\<close> of threads in transit.
\<close>

section \<open>Definitions\<close>

definition kqueues :: "kstate \<Rightarrow> int set" where
  "kqueues s = set (readylist s # sleepq s # map squeue (semtab s))"

text \<open>The queue a thread's entry says it is in.\<close>

definition loc :: "kstate \<Rightarrow> int \<Rightarrow> int option" where
  "loc s t = (case state (thr s t) of
       THRREADY \<Rightarrow> Some (readylist s)
     | THRSLEEP \<Rightarrow> Some (sleepq s)
     | THRTMOUT \<Rightarrow> Some (sleepq s)
     | THRWAIT \<Rightarrow> Some (at (map squeue (semtab s)) (uidx (sem (thr s t))))
     | _ \<Rightarrow> None)"

text \<open>The queue it is in.\<close>

definition qat :: "kstate \<Rightarrow> (int \<Rightarrow> int list) \<Rightarrow> int \<Rightarrow> int option \<Rightarrow> bool" where
  "qat s qs t l \<longleftrightarrow> (\<forall>q \<in> kqueues s. t \<in> set (qs q) \<longleftrightarrow> l = Some q)"

abbreviation key :: "kstate \<Rightarrow> int \<Rightarrow> int" where
  "key s t \<equiv> qkey (at (quetab s) t)"

definition thr_ok :: "int set \<Rightarrow> kstate \<Rightarrow> (int \<Rightarrow> int list) \<Rightarrow> int \<Rightarrow> bool" where
  "thr_ok X s qs t \<longleftrightarrow>
     (t \<in> X \<longrightarrow> state (thr s t) \<noteq> THRFREE) \<and>
     (t \<notin> X \<longrightarrow> qat s qs t (loc s t) \<and>
        (state (thr s t) = THRWAIT \<longrightarrow> inarr (semtab s) (uidx (sem (thr s t))))) \<and>
     (state (thr s t) = THRCURR \<longrightarrow> t = thrcurrent s) \<and>
     (state (thr s t) \<noteq> THRFREE \<longrightarrow> MINKEY < prio (thr s t)) \<and>
     (t = NULLTHREAD \<longrightarrow> state (thr s t) = THRREADY \<or> state (thr s t) = THRCURR)"

definition sched_ok :: "int set \<Rightarrow> kstate \<Rightarrow> (int \<Rightarrow> int list) \<Rightarrow> bool" where
  "sched_ok X s qs \<longleftrightarrow>
     qsys (quetab s) (NTHREAD s) (kqueues s) qs \<and>
     distinct (readylist s # sleepq s # map squeue (semtab s)) \<and>
     (\<forall>t. inarr (thrtab s) t \<longrightarrow> thr_ok X s qs t) \<and> (\<forall>t \<in> X. inarr (thrtab s) t) \<and>
     sorted_wrt (\<lambda>x y. key s y \<le> key s x) (qs (readylist s)) \<and>
     inarr (thrtab s) (thrcurrent s) \<and> inarr (thrtab s) NULLTHREAD \<and>
     NTHREAD s \<le> INT_MAX \<and> NSEM s \<le> INT_MAX \<and> resdefer s = 0"

definition sem_ok :: "kstate \<Rightarrow> (int \<Rightarrow> int list) \<Rightarrow> bool" where
  "sem_ok s qs \<longleftrightarrow> (\<forall>e \<in> set (semtab s). int (length (qs (squeue e))) = max 0 (- count e) \<and>
     count e \<le> INT_MAX \<and> (sstate e = SFREE \<longrightarrow> count e = 0))"

definition delays :: "kstate \<Rightarrow> (int \<Rightarrow> int list) \<Rightarrow> int list" where
  "delays s qs = map (key s) (qs (sleepq s))"

definition sleep_ok :: "kstate \<Rightarrow> (int \<Rightarrow> int list) \<Rightarrow> bool" where
  "sleep_ok s qs \<longleftrightarrow> (\<forall>d \<in> set (delays s qs). 0 \<le> d) \<and> sum_list (delays s qs) \<le> INT_MAX"

definition kinv_qs :: "kstate \<Rightarrow> (int \<Rightarrow> int list) \<Rightarrow> bool" where
  "kinv_qs s qs \<longleftrightarrow> sched_ok {} s qs \<and> sem_ok s qs \<and> sleep_ok s qs"

definition running :: "kstate \<Rightarrow> bool" where
  "running s \<longleftrightarrow> state (thr s (thrcurrent s)) = THRCURR"

definition kinv :: "kstate \<Rightarrow> bool" where
  "kinv s \<longleftrightarrow> (\<exists>qs. kinv_qs s qs) \<and> running s"

text \<open>The fields the invariant is about.\<close>

definition same_core :: "kstate \<Rightarrow> kstate \<Rightarrow> bool" where
  "same_core s s' \<longleftrightarrow> quetab s' = quetab s \<and> readylist s' = readylist s \<and> sleepq s' = sleepq s \<and>
     thrtab s' = thrtab s \<and> thrcurrent s' = thrcurrent s \<and> resdefer s' = resdefer s \<and> semtab s' = semtab s"

lemma same_core_inv:
  assumes "same_core s s'"
  shows "sched_ok X s' qs = sched_ok X s qs" "sem_ok s' qs = sem_ok s qs" "sleep_ok s' qs = sleep_ok s qs"
    "kinv_qs s' qs = kinv_qs s qs" "running s' = running s" "kinv s' = kinv s"
proof -
  have e: "quetab s' = quetab s" "readylist s' = readylist s" "sleepq s' = sleepq s"
    "thrtab s' = thrtab s" "thrcurrent s' = thrcurrent s" "resdefer s' = resdefer s" "semtab s' = semtab s"
    using assms by (simp_all add: same_core_def)
  have "kqueues s' = kqueues s" "loc s' = loc s" by (simp_all add: kqueues_def fun_eq_iff loc_def e cong: thrstate.case_cong)
  then show "sched_ok X s' qs = sched_ok X s qs" for X qs by (simp add: sched_ok_def thr_ok_def qat_def e)
  moreover show "sem_ok s' qs = sem_ok s qs" "sleep_ok s' qs = sleep_ok s qs" for qs
    by (simp_all add: sem_ok_def sleep_ok_def delays_def e)
  ultimately show "kinv_qs s' qs = kinv_qs s qs" for qs by (simp add: kinv_qs_def)
  moreover show "running s' = running s" by (simp add: running_def e)
  ultimately show "kinv s' = kinv s" by (simp add: kinv_def)
qed

section \<open>Reading the invariant\<close>

lemma sched_okD:
  assumes "sched_ok X s qs"
  shows "qsys (quetab s) (NTHREAD s) (kqueues s) qs" "readylist s \<in> kqueues s" "sleepq s \<in> kqueues s"
    "readylist s \<noteq> sleepq s" "readylist s \<notin> squeue ` set (semtab s)" "sleepq s \<notin> squeue ` set (semtab s)"
    "inarr (thrtab s) (thrcurrent s)" "inarr (thrtab s) NULLTHREAD" "resdefer s = 0" "NTHREAD s \<le> INT_MAX"
    "sorted_wrt (\<lambda>x y. key s y \<le> key s x) (qs (readylist s))"
    "\<And>t. inarr (thrtab s) t \<Longrightarrow> thr_ok X s qs t" "\<And>t. t \<in> X \<Longrightarrow> inarr (thrtab s) t"
    "\<And>e. e \<in> set (semtab s) \<Longrightarrow> squeue e \<in> kqueues s"
    "distinct (map squeue (semtab s))" "NSEM s \<le> INT_MAX"
  using assms by (auto simp: sched_ok_def kqueues_def)

lemma at_in_set: "inarr xs i \<Longrightarrow> at xs i \<in> set xs"
  by (auto simp: inarr_def at_def nat_less_iff)

lemma at_map [simp]: "inarr xs i \<Longrightarrow> at (map f xs) i = f (at xs i)"
  by (simp add: inarr_def at_def nat_less_iff)

lemma inarr_map [simp]: "inarr (map f xs) i = inarr xs i"
  by (simp add: inarr_def)

lemma map_upd_same [simp]: "inarr xs i \<Longrightarrow> (\<And>x. g (f x) = g x) \<Longrightarrow> map g (upd xs i f) = map g xs"
  by (auto simp: upd_def inarr_def map_update nat_less_iff list_update_id [symmetric])
    (metis list_update_id nat_less_iff nth_map)

lemma squeue_inj:
  assumes "sched_ok X s qs" "inarr (semtab s) i" "inarr (semtab s) j"
    "squeue (at (semtab s) i) = squeue (at (semtab s) j)"
  shows "i = j"
proof -
  have "map squeue (semtab s) ! nat i = map squeue (semtab s) ! nat j"
    using assms by (simp add: at_def inarr_def nat_less_iff)
  then have "nat i = nat j"
    using sched_okD(15) [OF assms(1)] assms(2,3)
    by (subst (asm) nth_eq_iff_index_eq) (auto simp: inarr_def nat_less_iff)
  then show ?thesis using assms(2,3) by (simp add: inarr_def nat_eq_iff)
qed

lemma unqueued_iff: "unqueued (kqueues s) qs t \<longleftrightarrow> qat s qs t None"
  by (auto simp: unqueued_def qat_def)

lemma goodtid: "sched_ok X s qs \<Longrightarrow> t \<in> X \<Longrightarrow> \<not> isbadtid s t"
  using sched_okD(12,13) [of X s qs t] by (auto simp: isbadtid_iff thr_ok_def)

section \<open>Moves\<close>

text \<open>Taking a thread into transit and settling it.\<close>

lemma sched_exempt:
  assumes ok: "sched_ok X s qs" and t: "\<not> isbadtid s t" "t \<notin> X"
  shows "sched_ok (insert t X) s qs" "qat s qs t (loc s t)"
proof -
  have tin: "inarr (thrtab s) t" "state (thr s t) \<noteq> THRFREE" using t by (auto simp: isbadtid_iff)
  with ok t show "qat s qs t (loc s t)" by (auto simp: sched_ok_def thr_ok_def)
  from ok tin show "sched_ok (insert t X) s qs"
    unfolding sched_ok_def thr_ok_def by auto
qed

lemma sched_settle:
  assumes ok: "sched_ok (insert t X) s qs" and "qat s qs t (loc s t)"
    and "state (thr s t) = THRWAIT \<Longrightarrow> inarr (semtab s) (uidx (sem (thr s t)))"
  shows "sched_ok X s qs"
  using assms unfolding sched_ok_def thr_ok_def by auto

text \<open>Writing the entry of a thread in transit.\<close>

lemma loc_upd [simp]:
  "inarr (thrtab s) t \<Longrightarrow> inarr (thrtab s) u \<Longrightarrow> u \<noteq> t \<Longrightarrow> loc (thr_upd t f s) u = loc s u"
  by (simp add: loc_def cong: thrstate.case_cong)

lemma kqueues_thr [simp]:
  "kqueues (s\<lparr>thrtab := tt\<rparr>) = kqueues s" "kqueues (s\<lparr>quetab := qt\<rparr>) = kqueues s"
  "kqueues (s\<lparr>thrcurrent := c\<rparr>) = kqueues s" "kqueues (s\<lparr>irq := i\<rparr>) = kqueues s"
  by (simp_all add: kqueues_def)

lemma loc_frame [simp]:
  "loc (s\<lparr>quetab := qt\<rparr>) t = loc s t" "loc (s\<lparr>thrcurrent := c\<rparr>) t = loc s t"
  "loc (s\<lparr>irq := i\<rparr>) t = loc s t"
  by (simp_all add: loc_def cong: thrstate.case_cong)

lemma qat_frame [simp]:
  "qat (s\<lparr>thrtab := tt\<rparr>) qs t l = qat s qs t l" "qat (s\<lparr>quetab := qt\<rparr>) qs t l = qat s qs t l"
  "qat (s\<lparr>thrcurrent := c\<rparr>) qs t l = qat s qs t l" "qat (s\<lparr>irq := i\<rparr>) qs t l = qat s qs t l"
  by (simp_all add: qat_def)

lemma sched_touch:
  assumes ok: "sched_ok X s qs" and t: "t \<in> X"
    and f: "state (f (thr s t)) \<noteq> THRFREE" "MINKEY < prio (f (thr s t))"
      "state (f (thr s t)) = THRCURR \<Longrightarrow> t = thrcurrent s"
      "t = NULLTHREAD \<Longrightarrow> state (f (thr s t)) = THRREADY \<or> state (f (thr s t)) = THRCURR"
  shows "sched_ok X (thr_upd t f s) qs"
proof -
  have tin: "inarr (thrtab s) t" using ok t by (rule sched_okD)
  have "thr_ok X (thr_upd t f s) qs u" if u: "inarr (thrtab s) u" for u
    using sched_okD(12) [OF ok u] t f tin u by (cases "u = t") (auto simp: thr_ok_def)
  with ok show ?thesis by (simp add: sched_ok_def)
qed

lemma sched_free:
  assumes ok: "sched_ok (insert t X) s qs" and t: "qat s qs t None" "t \<noteq> NULLTHREAD" "t \<notin> X"
  shows "sched_ok X (thr_upd t (state_update (\<lambda>_. THRFREE)) s) qs"
proof -
  have tin: "inarr (thrtab s) t" using ok by (rule sched_okD) simp
  have "thr_ok X (thr_upd t (state_update (\<lambda>_. THRFREE)) s) qs u" if u: "inarr (thrtab s) u" for u
    using sched_okD(12) [OF ok u] t tin u
    by (cases "u = t") (auto simp: thr_ok_def, auto simp: loc_def)
  with ok show ?thesis by (simp add: sched_ok_def)
qed

text \<open>A thread in transit is not moved by what happens to the queues of the others.\<close>

lemma sched_queues:
  assumes ok: "sched_ok X s qs"
    and sys: "qsys qt' (NTHREAD s) (kqueues s) qs'"
    and sorted: "sorted_wrt (\<lambda>x y. qkey (at qt' y) \<le> qkey (at qt' x)) (qs' (readylist s))"
    and same: "\<And>u q. u \<notin> X \<Longrightarrow> q \<in> kqueues s \<Longrightarrow> u \<in> set (qs' q) \<longleftrightarrow> u \<in> set (qs q)"
  shows "sched_ok X (s\<lparr>quetab := qt'\<rparr>) qs'"
proof -
  have "thr_ok X (s\<lparr>quetab := qt'\<rparr>) qs' u" if u: "inarr (thrtab s) u" for u
    using sched_okD(12) [OF ok u] same [of u] by (auto simp: thr_ok_def qat_def)
  with assms show ?thesis by (simp add: sched_ok_def)
qed

lemma qat_insert:
  assumes "qat s qs t None" "q \<in> kqueues s" "set xs' = insert t (set (qs q))"
  shows "qat s (qs(q := xs')) t (Some q)"
  using assms by (auto simp: qat_def)

lemma qat_remove:
  assumes "qat s qs t (Some q)" "q \<in> kqueues s" "t \<notin> set xs'"
  shows "qat s (qs(q := xs')) t None"
  using assms by (auto simp: qat_def)

lemma sorted_keys_cong:
  assumes "sorted_wrt (\<lambda>x y. qkey (at qt y) \<le> qkey (at qt x)) xs" "same_keys qt qt' T"
    "\<And>x. x \<in> set xs \<Longrightarrow> x \<notin> T \<and> inarr qt x"
  shows "sorted_wrt (\<lambda>x y. qkey (at qt' y) \<le> qkey (at qt' x)) xs"
  using assms by (auto simp: same_keys_def intro: sorted_wrt_mono_rel [OF _ assms(1)])

lemma key_in:
  assumes "sched_ok X s qs" "q \<in> kqueues s" "x \<in> set (qs q)"
  shows "inarr (quetab s) x" "inarr (thrtab s) x"
  using qsys_thread [OF sched_okD(1) [OF assms(1)] assms(2,3)] by (auto simp: inarr_def)

lemma sched_insert_ready:
  assumes ok: "sched_ok X s qs" and t: "t \<in> X" "qat s qs t None" and k: "MINKEY < k"
  defines "qs' \<equiv> qs(readylist s := insert_desc (key s) t k (qs (readylist s)))"
  shows "\<exists>qt'. insertq t (readylist s) k s = Some (OK, s\<lparr>quetab := qt'\<rparr>) \<and>
    sched_ok X (s\<lparr>quetab := qt'\<rparr>) qs' \<and> qat s qs' t (Some (readylist s)) \<and>
    same_keys (quetab s) qt' {t} \<and> qkey (at qt' t) = k"
proof -
  note D = sched_okD [OF ok]
  obtain qt' where qt': "insertq t (readylist s) k s = Some (OK, s\<lparr>quetab := qt'\<rparr>)"
      "qsys qt' (NTHREAD s) (kqueues s) qs'" "same_keys (quetab s) qt' {t}" "qkey (at qt' t) = k"
    using insertq_refines [OF D(1,2) goodtid [OF ok t(1)] _ k] t(2) by (auto simp: unqueued_iff qs'_def)
  have nt: "t \<notin> set (qs (readylist s))" using t(2) D(2) by (auto simp: qat_def)
  have "sorted_wrt (\<lambda>x y. qkey (at qt' y) \<le> qkey (at qt' x)) (qs' (readylist s))"
  proof -
    have "qkey (at qt' x) = ((key s)(t := k)) x" if "x \<in> set (qs' (readylist s))" for x
      using that qt'(3,4) key_in [OF ok D(2)] by (auto simp: qs'_def same_keys_def)
    then show ?thesis using insert_desc_sorted [OF D(11) nt, of k]
      by (auto simp: qs'_def intro: sorted_wrt_mono_rel [rotated])
  qed
  then have "sched_ok X (s\<lparr>quetab := qt'\<rparr>) qs'"
    using t(1) by (intro sched_queues [OF ok qt'(2)]) (auto simp: qs'_def)
  moreover have "qat s qs' t (Some (readylist s))"
    unfolding qs'_def by (rule qat_insert [OF t(2) D(2)]) simp
  ultimately show ?thesis using qt' by blast
qed

lemma sorted_wrt_remove: "sorted_wrt P (xs @ t # ys) \<Longrightarrow> sorted_wrt P (xs @ ys)"
  by (auto simp: sorted_wrt_append)

text \<open>Removing a thread from its queue brings it into transit.\<close>

lemma sched_removed:
  assumes ok: "sched_ok X s qs" and q: "q \<in> kqueues s" "qs q = xs @ t # ys" "t \<notin> X"
    and qt': "qsys qt' (NTHREAD s) (kqueues s) (qs(q := xs @ ys))" "same_keys (quetab s) qt' {}"
  shows "sched_ok (insert t X) (s\<lparr>quetab := qt'\<rparr>) (qs(q := xs @ ys))" "qat s (qs(q := xs @ ys)) t None"
    "loc s t = Some q"
proof -
  note D = sched_okD [OF ok]
  have tin: "inarr (thrtab s) t" using key_in [OF ok q(1)] q(2) by simp
  have "qat s qs t (loc s t)" using D(12) [OF tin] q(3) by (simp add: thr_ok_def)
  moreover have "t \<in> set (qs q)" using q(2) by simp
  ultimately show loc: "loc s t = Some q" using q(1) by (simp add: qat_def)
  then have "\<not> isbadtid s t" using tin by (auto simp: isbadtid_iff loc_def)
  note ex = sched_exempt [OF ok this q(3)]
  have dist: "distinct (xs @ t # ys)" using qsysD [OF D(1) q(1)] q(2) by (simp add: qrep_def)
  have "sorted_wrt (\<lambda>x y. key s y \<le> key s x) ((qs(q := xs @ ys)) (readylist s))"
    using D(11) q(2) by (auto dest: sorted_wrt_remove)
  then have "sorted_wrt (\<lambda>x y. qkey (at qt' y) \<le> qkey (at qt' x)) ((qs(q := xs @ ys)) (readylist s))"
    by (rule sorted_keys_cong [OF _ qt'(2)])
      (use q(2) key_in(1) [OF ok D(2)] in \<open>auto split: if_splits\<close>)
  then show "sched_ok (insert t X) (s\<lparr>quetab := qt'\<rparr>) (qs(q := xs @ ys))"
    by (rule sched_queues [OF ex(1) qt'(1)]) (use q in auto)
  show "qat s (qs(q := xs @ ys)) t None"
    using ex(2) loc by (intro qat_remove) (use q dist in auto)
qed

lemma sched_getitem:
  assumes ok: "sched_ok X s qs" and q: "q \<in> kqueues s" "qs q = xs @ t # ys" "t \<notin> X"
  shows "\<exists>qt'. getitem t s = Some (t, s\<lparr>quetab := qt'\<rparr>) \<and>
    sched_ok (insert t X) (s\<lparr>quetab := qt'\<rparr>) (qs(q := xs @ ys)) \<and>
    qat s (qs(q := xs @ ys)) t None \<and> same_keys (quetab s) qt' {}"
  using getitem_refines [OF sched_okD(1) [OF ok] q(1,2)] sched_removed [OF ok q] by blast

lemma sched_dequeue:
  assumes ok: "sched_ok X s qs" and q: "q \<in> kqueues s" "qs q = t # xs" "t \<notin> X"
  shows "\<exists>qt'. dequeue q s = Some (t, s\<lparr>quetab := qt'\<rparr>) \<and>
    sched_ok (insert t X) (s\<lparr>quetab := qt'\<rparr>) (qs(q := xs)) \<and>
    qat s (qs(q := xs)) t None \<and> same_keys (quetab s) qt' {} \<and> loc s t = Some q"
proof -
  have e: "qs q = [] @ t # xs" using q(2) by simp
  note r = sched_removed [OF ok q(1) e q(3), unfolded append_Nil]
  from dequeue_refines [OF sched_okD(1) [OF ok] q(1,2)] r show ?thesis by blast
qed

lemma sched_enqueue:
  assumes ok: "sched_ok X s qs" and t: "t \<in> X" "qat s qs t None"
    and q: "q \<in> kqueues s" "q \<noteq> readylist s"
  shows "\<exists>qt'. enqueue t q s = Some (t, s\<lparr>quetab := qt'\<rparr>) \<and>
    sched_ok X (s\<lparr>quetab := qt'\<rparr>) (qs(q := qs q @ [t])) \<and>
    qat s (qs(q := qs q @ [t])) t (Some q) \<and> same_keys (quetab s) qt' {}"
proof -
  note D = sched_okD [OF ok]
  obtain qt' where qt': "enqueue t q s = Some (t, s\<lparr>quetab := qt'\<rparr>)"
      "qsys qt' (NTHREAD s) (kqueues s) (qs(q := qs q @ [t]))" "same_keys (quetab s) qt' {}"
    using enqueue_refines [OF D(1) q(1) goodtid [OF ok t(1)]] t(2) by (auto simp: unqueued_iff)
  have "sorted_wrt (\<lambda>x y. qkey (at qt' y) \<le> qkey (at qt' x)) (qs (readylist s))"
    using sorted_keys_cong [OF D(11) qt'(3)] key_in [OF ok D(2)] by auto
  then have "sched_ok X (s\<lparr>quetab := qt'\<rparr>) (qs(q := qs q @ [t]))"
    using t(1) q by (intro sched_queues [OF ok qt'(2)]) auto
  moreover have "qat s (qs(q := qs q @ [t])) t (Some q)" by (rule qat_insert [OF t(2) q(1)]) simp
  ultimately show ?thesis using qt' by blast
qed

section \<open>Frames\<close>

text \<open>Whatever happens on the ready list leaves semaphores and delays alone.\<close>

definition only_ready :: "kstate \<Rightarrow> (int \<Rightarrow> int list) \<Rightarrow> kstate \<Rightarrow> (int \<Rightarrow> int list) \<Rightarrow> bool" where
  "only_ready s qs s' qs' \<longleftrightarrow> readylist s' = readylist s \<and> sleepq s' = sleepq s \<and> semtab s' = semtab s \<and>
     (\<forall>q. q \<noteq> readylist s \<longrightarrow> qs' q = qs q) \<and> (\<forall>x \<in> set (qs (sleepq s)). key s' x = key s x)"

lemma only_ready_refl [simp]: "only_ready s qs s qs"
  by (simp add: only_ready_def)

lemma only_ready_trans:
  "only_ready s qs t qs' \<Longrightarrow> only_ready t qs' u qs'' \<Longrightarrow> readylist s \<noteq> sleepq s \<Longrightarrow> only_ready s qs u qs''"
  by (auto simp: only_ready_def)

lemma only_ready_sem_ok:
  "only_ready s qs s' qs' \<Longrightarrow> sched_ok X s qs \<Longrightarrow> sem_ok s qs \<Longrightarrow> sem_ok s' qs'"
  unfolding sem_ok_def only_ready_def using sched_okD(5) [of X s qs] by (auto simp: image_iff)

lemma only_ready_delays:
  "only_ready s qs s' qs' \<Longrightarrow> sched_ok X s qs \<Longrightarrow> delays s' qs' = delays s qs"
  using sched_okD(4) [of X s qs] by (auto simp: delays_def only_ready_def)

lemma only_ready_sleep_ok:
  "only_ready s qs s' qs' \<Longrightarrow> sched_ok X s qs \<Longrightarrow> sleep_ok s qs \<Longrightarrow> sleep_ok s' qs'"
  by (simp add: sleep_ok_def only_ready_delays)

end
