(* ===== verification/Scheduler.thy ===== *)
theory Scheduler
  imports Kernel_Invariant
begin

text \<open>
  The scheduler keeps the kernel invariant, and the calculus \<open>good\<close> that lets the calls
  built on it be checked one after the other although each of them may be switched out.
\<close>

section \<open>Entries that change in fields the invariant does not mention\<close>

lemma sched_note:
  assumes ok: "sched_ok X s qs" and t: "inarr (thrtab s) t"
    and f: "state (f (thr s t)) = state (thr s t)" "sem (f (thr s t)) = sem (thr s t)"
      "state (thr s t) \<noteq> THRFREE \<Longrightarrow> MINKEY < prio (f (thr s t))"
  shows "sched_ok X (thr_upd t f s) qs"
proof -
  have "thr_ok X (thr_upd t f s) qs u" if u: "inarr (thrtab s) u" for u
  proof -
    have e: "state (thr (thr_upd t f s) u) = state (thr s u)" "sem (thr (thr_upd t f s) u) = sem (thr s u)"
      using t u f by (auto simp: at_upd)
    then have "loc (thr_upd t f s) u = loc s u" by (simp add: loc_def cong: thrstate.case_cong)
    then show ?thesis using sched_okD(12) [OF ok u] e t u f(3) by (auto simp: thr_ok_def at_upd)
  qed
  with ok show ?thesis by (simp add: sched_ok_def)
qed

lemma sched_irq [simp]: "sched_ok X (s\<lparr>irq := i\<rparr>) qs = sched_ok X s qs"
  by (simp add: sched_ok_def thr_ok_def)

lemma sem_ok_frame [simp]:
  "sem_ok (s\<lparr>irq := i\<rparr>) qs = sem_ok s qs" "sem_ok (s\<lparr>thrtab := tt\<rparr>) qs = sem_ok s qs"
  "sem_ok (s\<lparr>quetab := qt\<rparr>) qs = sem_ok s qs" "sem_ok (s\<lparr>thrcurrent := c\<rparr>) qs = sem_ok s qs"
  by (simp_all add: sem_ok_def)

lemma sleep_ok_frame [simp]:
  "sleep_ok (s\<lparr>irq := i\<rparr>) qs = sleep_ok s qs" "sleep_ok (s\<lparr>thrtab := tt\<rparr>) qs = sleep_ok s qs"
  "sleep_ok (s\<lparr>thrcurrent := c\<rparr>) qs = sleep_ok s qs" "sleep_ok (s\<lparr>semtab := st\<rparr>) qs = sleep_ok s qs"
  by (simp_all add: sleep_ok_def delays_def)

lemma kinv_irq [simp]: "kinv (s\<lparr>irq := i\<rparr>) = kinv s"
  by (simp add: kinv_def kinv_qs_def running_def)

lemma kinv_qs_note:
  assumes "kinv_qs s qs" "inarr (thrtab s) t" "state (f (thr s t)) = state (thr s t)"
    "sem (f (thr s t)) = sem (thr s t)" "state (thr s t) \<noteq> THRFREE \<Longrightarrow> MINKEY < prio (f (thr s t))"
  shows "kinv_qs (thr_upd t f s) qs"
  using assms sched_note [of "{}" s qs t f] by (simp add: kinv_qs_def)

section \<open>Dispatch\<close>

text \<open>The thread taken from the ready list becomes the current one.\<close>

lemma sched_dispatch:
  assumes ok: "sched_ok {t} s qs" and t: "qat s qs t None"
    and none: "\<And>u. inarr (thrtab s) u \<Longrightarrow> u \<noteq> t \<Longrightarrow> state (thr s u) \<noteq> THRCURR"
  shows "sched_ok {} (thr_upd t (state_update (\<lambda>_. THRCURR)) (s\<lparr>thrcurrent := t\<rparr>)) qs"
proof -
  let ?s = "thr_upd t (state_update (\<lambda>_. THRCURR)) (s\<lparr>thrcurrent := t\<rparr>)"
  have tin: "inarr (thrtab s) t" using sched_okD(13) [OF ok] by simp
  have "thr_ok {} ?s qs u" if u: "inarr (thrtab s) u" for u
  proof (cases "u = t")
    case True
    then have "loc ?s u = None" "state (thr ?s u) = THRCURR" "prio (thr ?s u) = prio (thr s t)"
      using tin by (simp_all add: loc_def)
    then show ?thesis using True t tin sched_okD(12) [OF ok u] by (auto simp: thr_ok_def)
  next
    case False
    then have "thr ?s u = thr s u" using tin u by simp
    moreover have "loc ?s u = loc s u" using calculation by (simp add: loc_def cong: thrstate.case_cong)
    ultimately show ?thesis using sched_okD(12) [OF ok u] none [OF u False] False by (auto simp: thr_ok_def)
  qed
  with ok tin show ?thesis by (simp add: sched_ok_def)
qed

text \<open>A thread in transit goes to the ready list with a key above \<open>MINKEY\<close>.\<close>

lemma sched_to_ready:
  assumes ok: "sched_ok (insert t X) s qs" and t: "qat s qs t None" and k: "MINKEY < k"
    and st: "state (thr s t) = THRREADY"
  defines "qs' \<equiv> qs(readylist s := insert_desc (key s) t k (qs (readylist s)))"
  shows "\<exists>qt'. insertq t (readylist s) k s = Some (OK, s\<lparr>quetab := qt'\<rparr>) \<and>
    sched_ok X (s\<lparr>quetab := qt'\<rparr>) qs' \<and> only_ready s qs (s\<lparr>quetab := qt'\<rparr>) qs' \<and>
    same_keys (quetab s) qt' {t} \<and> qkey (at qt' t) = k"
proof -
  obtain qt' where qt': "insertq t (readylist s) k s = Some (OK, s\<lparr>quetab := qt'\<rparr>)"
      "sched_ok (insert t X) (s\<lparr>quetab := qt'\<rparr>) qs'" "qat s qs' t (Some (readylist s))"
      "same_keys (quetab s) qt' {t}" "qkey (at qt' t) = k"
    using sched_insert_ready [OF ok insertI1 t k] unfolding qs'_def by blast
  have "sched_ok X (s\<lparr>quetab := qt'\<rparr>) qs'"
    by (rule sched_settle [OF qt'(2)]) (use qt'(3) st in \<open>simp_all add: loc_def\<close>)
  moreover have "qkey (at qt' x) = key s x" if x: "x \<in> set (qs (sleepq s))" for x
  proof -
    have "x \<noteq> t" using x t sched_okD(3) [OF ok] by (auto simp: qat_def)
    then show ?thesis using qt'(4) key_in [OF ok sched_okD(3) [OF ok] x] by (simp add: same_keys_def)
  qed
  then have "only_ready s qs (s\<lparr>quetab := qt'\<rparr>) qs'" by (simp add: only_ready_def qs'_def)
  ultimately show ?thesis using qt' by blast
qed

lemma ready_nonempty:
  assumes ok: "sched_ok {} s qs" and "state (thr s (thrcurrent s)) \<noteq> THRCURR"
  shows "qs (readylist s) \<noteq> []"
proof -
  note D = sched_okD [OF ok]
  have "state (thr s NULLTHREAD) = THRREADY" using D(12) [OF D(8)] assms(2) by (auto simp: thr_ok_def)
  then have "NULLTHREAD \<in> set (qs (readylist s))"
    using D(12) [OF D(8)] D(2) by (auto simp: thr_ok_def qat_def loc_def)
  then show ?thesis by auto
qed

lemma sorted_hd: "sorted_wrt P (x # xs) \<Longrightarrow> y \<in> set xs \<Longrightarrow> P x y"
  by simp

text \<open>Taking the first ready thread, when no other thread is current.\<close>

lemma dispatch_ok:
  assumes ok: "sched_ok {} s qs" and none: "state (thr s (thrcurrent s)) \<noteq> THRCURR"
  shows "\<exists>t xs qt'. qs (readylist s) = t # xs \<and> dequeue (readylist s) s = Some (t, s\<lparr>quetab := qt'\<rparr>) \<and>
    inarr (thrtab s) t \<and>
    sched_ok {} (thr_upd t (state_update (\<lambda>_. THRCURR)) (s\<lparr>quetab := qt', thrcurrent := t\<rparr>)) (qs(readylist s := xs)) \<and>
    same_keys (quetab s) qt' {} \<and> (\<forall>x \<in> set xs. key s x \<le> key s t) \<and>
    only_ready s qs (thr_upd t (state_update (\<lambda>_. THRCURR)) (s\<lparr>quetab := qt', thrcurrent := t\<rparr>)) (qs(readylist s := xs))"
proof -
  note D = sched_okD [OF ok]
  obtain t xs where xs: "qs (readylist s) = t # xs"
    using ready_nonempty [OF assms] by (cases "qs (readylist s)") auto
  obtain qt' where qt': "dequeue (readylist s) s = Some (t, s\<lparr>quetab := qt'\<rparr>)"
      "sched_ok {t} (s\<lparr>quetab := qt'\<rparr>) (qs(readylist s := xs))" "qat s (qs(readylist s := xs)) t None"
      "same_keys (quetab s) qt' {}"
    using sched_dequeue [OF ok D(2) xs] by auto
  have tin: "inarr (thrtab s) t" using key_in(2) [OF ok D(2)] xs by simp
  have "state (thr s u) \<noteq> THRCURR" if "inarr (thrtab s) u" for u
    using D(12) [OF that] none by (auto simp: thr_ok_def)
  then have "sched_ok {} (thr_upd t (state_update (\<lambda>_. THRCURR)) (s\<lparr>quetab := qt', thrcurrent := t\<rparr>)) (qs(readylist s := xs))"
    using sched_dispatch [OF qt'(2)] qt'(3) by simp
  moreover have "\<forall>x \<in> set xs. key s x \<le> key s t" using D(11) xs by simp
  moreover have "\<forall>x \<in> set (qs (sleepq s)). qkey (at qt' x) = key s x"
    using qt'(4) key_in(1) [OF ok D(3)] by (simp add: same_keys_def)
  ultimately show ?thesis using xs qt' tin by (auto simp: only_ready_def)
qed

section \<open>Rescheduling\<close>

text \<open>What \<open>resched\<close> changes: queue links, thread states, saved masks, the current thread.\<close>

definition sched_frame :: "kstate \<Rightarrow> kstate \<Rightarrow> bool" where
  "sched_frame s s' \<longleftrightarrow> (\<exists>qt tt c i. s' = s\<lparr>quetab := qt, thrtab := tt, thrcurrent := c, irq := i\<rparr> \<and>
     length qt = length (quetab s) \<and> length tt = length (thrtab s) \<and>
     (\<forall>t. inarr (thrtab s) t \<longrightarrow> (\<exists>a b. at tt t = (thr s t)\<lparr>state := a, intmask := b\<rparr>)))"

lemma sched_frame_trans:
  assumes "sched_frame s t" "sched_frame t u"
  shows "sched_frame s u"
proof -
  obtain qt tt c i where t: "t = s\<lparr>quetab := qt, thrtab := tt, thrcurrent := c, irq := i\<rparr>"
      "length qt = length (quetab s)" "length tt = length (thrtab s)"
      "\<And>x. inarr (thrtab s) x \<Longrightarrow> \<exists>a b. at tt x = (thr s x)\<lparr>state := a, intmask := b\<rparr>"
    using assms(1) unfolding sched_frame_def by blast
  obtain qt' tt' c' i' where u: "u = t\<lparr>quetab := qt', thrtab := tt', thrcurrent := c', irq := i'\<rparr>"
      "length qt' = length (quetab t)" "length tt' = length (thrtab t)"
      "\<And>x. inarr (thrtab t) x \<Longrightarrow> \<exists>a b. at tt' x = (thr t x)\<lparr>state := a, intmask := b\<rparr>"
    using assms(2) unfolding sched_frame_def by blast
  have "\<exists>a b. at tt' x = (thr s x)\<lparr>state := a, intmask := b\<rparr>" if x: "inarr (thrtab s) x" for x
  proof -
    have "inarr (thrtab t) x" using x t(1,3) by (simp add: inarr_def)
    with u(4) t(1) obtain a b where "at tt' x = (at tt x)\<lparr>state := a, intmask := b\<rparr>" by force
    moreover obtain a' b' where "at tt x = (thr s x)\<lparr>state := a', intmask := b'\<rparr>" using t(4) [OF x] by blast
    ultimately show ?thesis by (auto intro: exI [of _ a] exI [of _ b])
  qed
  with t u show ?thesis unfolding sched_frame_def by auto
qed

lemma sched_frame_steps:
  "inarr (thrtab s) t \<Longrightarrow> sched_frame s (thr_upd t (state_update (\<lambda>_. a)) s)"
  "inarr (thrtab s) t \<Longrightarrow> sched_frame s (thr_upd t (intmask_update (\<lambda>_. b)) s)"
  "length qt = length (quetab s) \<Longrightarrow> sched_frame s (s\<lparr>quetab := qt\<rparr>)"
  "sched_frame s (s\<lparr>irq := i\<rparr>)" "sched_frame s (s\<lparr>thrcurrent := c\<rparr>)"
proof -
  have *: "\<exists>c d. e = e\<lparr>state := c, intmask := d\<rparr>" for e :: thrent
    by (rule exI [of _ "state e"], rule exI [of _ "intmask e"]) simp
  have 1: "\<exists>c d. at (upd xs t (state_update (\<lambda>_. a))) u = (at xs u)\<lparr>state := c, intmask := d\<rparr>"
    and 2: "\<exists>c d. at (upd xs t (intmask_update (\<lambda>_. b))) u = (at xs u)\<lparr>state := c, intmask := d\<rparr>"
    if "inarr xs t" "inarr xs u" for xs :: "thrent list" and u
    by (rule exI [of _ "if t = u then a else state (at xs u)"], rule exI [of _ "intmask (at xs u)"],
        use that in \<open>simp add: at_upd\<close>,
        rule exI [of _ "state (at xs u)"], rule exI [of _ "if t = u then b else intmask (at xs u)"],
        use that in \<open>simp add: at_upd\<close>)
  have e: "s\<lparr>thrtab := tt\<rparr> = s\<lparr>quetab := quetab s, thrtab := tt, thrcurrent := thrcurrent s, irq := irq s\<rparr>"
    "s\<lparr>quetab := qt\<rparr> = s\<lparr>quetab := qt, thrtab := thrtab s, thrcurrent := thrcurrent s, irq := irq s\<rparr>"
    "s\<lparr>irq := i\<rparr> = s\<lparr>quetab := quetab s, thrtab := thrtab s, thrcurrent := thrcurrent s, irq := i\<rparr>"
    "s\<lparr>thrcurrent := c\<rparr> = s\<lparr>quetab := quetab s, thrtab := thrtab s, thrcurrent := c, irq := irq s\<rparr>" for tt
    by simp_all
  show "inarr (thrtab s) t \<Longrightarrow> sched_frame s (thr_upd t (state_update (\<lambda>_. a)) s)"
    unfolding sched_frame_def by (intro exI conjI, rule e(1)) (simp_all add: 1)
  show "inarr (thrtab s) t \<Longrightarrow> sched_frame s (thr_upd t (intmask_update (\<lambda>_. b)) s)"
    unfolding sched_frame_def by (intro exI conjI, rule e(1)) (simp_all add: 2)
  show "length qt = length (quetab s) \<Longrightarrow> sched_frame s (s\<lparr>quetab := qt\<rparr>)"
    unfolding sched_frame_def by (intro exI conjI, rule e(2)) (simp_all add: *)
  show "sched_frame s (s\<lparr>irq := i\<rparr>)"
    unfolding sched_frame_def by (intro exI conjI, rule e(3)) (simp_all add: *)
  show "sched_frame s (s\<lparr>thrcurrent := c\<rparr>)"
    unfolding sched_frame_def by (intro exI conjI, rule e(4)) (simp_all add: *)
qed

lemma sched_frame_refl: "sched_frame s s"
  using sched_frame_steps(4) [of s "irq s"] by simp

lemma sched_frameD:
  assumes "sched_frame s s'"
  shows "length (quetab s') = length (quetab s)" "length (thrtab s') = length (thrtab s)"
    "readylist s' = readylist s" "semtab s' = semtab s"
    "\<And>t. inarr (thrtab s) t \<Longrightarrow> prio (thr s' t) = prio (thr s t) \<and> hasmsg (thr s' t) = hasmsg (thr s t) \<and>
       msg (thr s' t) = msg (thr s t) \<and> parent (thr s' t) = parent (thr s t) \<and> sem (thr s' t) = sem (thr s t)"
  using assms unfolding sched_frame_def by fastforce+

text \<open>The current thread, put back on the ready list.\<close>

lemma requeue_current:
  assumes ok: "sched_ok {} s qs" and run: "running s"
  defines "c \<equiv> thrcurrent s"
  shows "\<exists>s' qs'. resched_requeue s = Some s' \<and>
     sched_ok {} s' qs' \<and> only_ready s qs s' qs' \<and> sched_frame s s' \<and> thrcurrent s' = c \<and> irq s' = irq s \<and>
     state (thr s' c) = THRREADY \<and> qs' (readylist s) = insert_desc (key s) c (prio (thr s c)) (qs (readylist s)) \<and>
     same_keys (quetab s) (quetab s') {c} \<and> key s' c = prio (thr s c) \<and> intmask (thr s' c) = intmask (thr s c)"
proof -
  let ?s = "thr_upd c (state_update (\<lambda>_. THRREADY)) s"
  note D = sched_okD [OF ok]
  have cin: "inarr (thrtab s) c" unfolding c_def by (rule D(7))
  have st: "state (thr s c) = THRCURR" using run by (simp add: running_def c_def)
  have pk: "MINKEY < prio (thr s c)" using D(12) [OF cin] st by (auto simp: thr_ok_def)
  have "\<not> isbadtid s c" using cin st by (simp add: isbadtid_iff)
  from sched_exempt [OF ok this] st have ex: "sched_ok {c} s qs" "qat s qs c None" by (simp_all add: loc_def)
  have "sched_ok {c} ?s qs" by (rule sched_touch [OF ex(1)]) (use pk in simp_all)
  from sched_to_ready [OF this, of "prio (thr s c)"] ex(2) pk cin
  obtain qt' where qt': "insertq c (readylist s) (prio (thr s c)) ?s = Some (OK, ?s\<lparr>quetab := qt'\<rparr>)"
      "sched_ok {} (?s\<lparr>quetab := qt'\<rparr>) (qs(readylist s := insert_desc (key s) c (prio (thr s c)) (qs (readylist s))))"
      "only_ready ?s qs (?s\<lparr>quetab := qt'\<rparr>) (qs(readylist s := insert_desc (key s) c (prio (thr s c)) (qs (readylist s))))"
      "same_keys (quetab s) qt' {c}" "qkey (at qt' c) = prio (thr s c)"
    by auto
  have "sched_frame s (?s\<lparr>quetab := qt'\<rparr>)"
    by (rule sched_frame_trans [OF sched_frame_steps(1) [OF cin] sched_frame_steps(3)])
      (use qt'(4) in \<open>simp add: same_keys_def\<close>)
  moreover have "only_ready s qs (?s\<lparr>quetab := qt'\<rparr>) (qs(readylist s := insert_desc (key s) c (prio (thr s c)) (qs (readylist s))))"
    using qt'(3) by (simp add: only_ready_def)
  ultimately show ?thesis using qt' cin
    by (intro exI [of _ "?s\<lparr>quetab := qt'\<rparr>"] exI) (auto simp: c_def resched_requeue_def)
qed

lemma running_frame [simp]:
  "running (s\<lparr>quetab := qt\<rparr>) = running s" "running (s\<lparr>irq := i\<rparr>) = running s"
  by (simp_all add: running_def)

text \<open>
  The thread that runs next: the current one when its priority exceeds every key on the ready
  list, otherwise a ready thread whose key is the largest.
\<close>

definition selected :: "kstate \<Rightarrow> (bool \<times> kstate) \<Rightarrow> (int \<Rightarrow> int list) \<Rightarrow> bool" where
  "selected s r qs' \<longleftrightarrow> (case r of (keep, s') \<Rightarrow>
     if keep then thrcurrent s' = thrcurrent s \<and> irq s' = irq s \<and>
       (\<forall>x \<in> set (qs' (readylist s)). key s' x < prio (thr s (thrcurrent s)))
     else \<not> irq s' \<and> intmask (thr s' (thrcurrent s)) = irq s \<and>
       (\<forall>x \<in> set (qs' (readylist s)). key s' x \<le> key s' (thrcurrent s')))"

lemma resched_keep:
  assumes ok: "sched_ok {} s qs" and run: "running s"
    and x: "qs (readylist s) = x # xs" "prio (thr s (thrcurrent s)) > key s x"
  defines "s' \<equiv> thr_upd (thrcurrent s) (intmask_update (\<lambda>_. irq s)) s"
  shows "resched_select s = Some (True, s') \<and> sched_ok {} s' qs \<and> running s' \<and> only_ready s qs s' qs \<and>
    sched_frame s s' \<and> selected s (True, s') qs"
proof -
  note D = sched_okD [OF ok]
  let ?s = "thr_upd (thrcurrent s) (intmask_update (\<lambda>_. irq s)) (s\<lparr>irq := False\<rparr>)"
  have ok': "sched_ok {} s' qs" unfolding s'_def by (rule sched_note [OF ok D(7)])
    (use D(12) [OF D(7)] in \<open>auto simp: thr_ok_def\<close>)
  have t: "thrtab ?s = thrtab s'" "quetab ?s = quetab s" "readylist ?s = readylist s" by (simp_all add: s'_def)
  have "?s = s'\<lparr>irq := False\<rparr>" "s' = ?s\<lparr>irq := irq s\<rparr>" by (simp_all add: s'_def)
  then have ok'': "sched_ok {} ?s qs" using ok' by (simp only: sched_irq)
  have ne: "nonempty ?s (readylist s) = Some True"
    using qsys_isempty(2) [OF sched_okD(1,2) [OF ok'']] x t by simp
  have fk: "firstkey ?s (readylist s) = Some (key s x)"
    using qsys_firstkey [OF sched_okD(1,2) [OF ok''], of x xs] x t by simp
  have "resched_select s = Some (True, s')"
    using run x(2) D(7) ne fk
    by (simp add: resched_select_def disable_def restore_def Let_def s'_def running_def cong: if_cong)
  moreover have "sched_frame s s'" unfolding s'_def by (rule sched_frame_steps(2) [OF D(7)])
  moreover have "running s'" using run D(7) by (simp add: running_def s'_def)
  moreover have "\<forall>y \<in> set (qs (readylist s)). key s y < prio (thr s (thrcurrent s))"
    using D(11) x by fastforce
  ultimately show ?thesis using ok' by (simp add: only_ready_def selected_def s'_def)
qed

text \<open>The last part: some thread is taken from the ready list.\<close>

lemma resched_tail:
  assumes ok: "sched_ok {} s qs" and none: "state (thr s (thrcurrent s)) \<noteq> THRCURR"
  shows "\<exists>s' qs'. resched_pick s = Some s' \<and>
    sched_ok {} s' qs' \<and> running s' \<and> only_ready s qs s' qs' \<and> sched_frame s s' \<and> irq s' = irq s \<and>
    qs (readylist s) = thrcurrent s' # qs' (readylist s) \<and> intmask (thr s' (thrcurrent s)) = intmask (thr s (thrcurrent s)) \<and>
    (\<forall>x \<in> set (qs' (readylist s)). key s' x \<le> key s' (thrcurrent s'))"
proof -
  obtain t xs qt' where d: "qs (readylist s) = t # xs" "dequeue (readylist s) s = Some (t, s\<lparr>quetab := qt'\<rparr>)"
      "inarr (thrtab s) t"
      "sched_ok {} (thr_upd t (state_update (\<lambda>_. THRCURR)) (s\<lparr>quetab := qt', thrcurrent := t\<rparr>)) (qs(readylist s := xs))"
      "same_keys (quetab s) qt' {}" "\<forall>x \<in> set xs. key s x \<le> key s t"
      "only_ready s qs (thr_upd t (state_update (\<lambda>_. THRCURR)) (s\<lparr>quetab := qt', thrcurrent := t\<rparr>)) (qs(readylist s := xs))"
    using dispatch_ok [OF assms] by blast
  let ?s' = "thr_upd t (state_update (\<lambda>_. THRCURR)) (s\<lparr>quetab := qt', thrcurrent := t\<rparr>)"
  have cin: "inarr (thrtab s) (thrcurrent s)" using ok by (rule sched_okD)
  have "inarr (quetab s) x" if "x \<in> set (t # xs)" for x
    using key_in(1) [OF ok sched_okD(2) [OF ok]] d(1) that by simp
  then have keys: "\<forall>x \<in> set xs. qkey (at qt' x) \<le> qkey (at qt' t)"
    using d(5,6) by (simp add: same_keys_def)
  have "length qt' = length (quetab s)" using d(5) by (simp add: same_keys_def)
  then have "sched_frame s (s\<lparr>quetab := qt'\<rparr>)" by (rule sched_frame_steps(3))
  moreover have "sched_frame (s\<lparr>quetab := qt', thrcurrent := t\<rparr>) ?s'"
    using sched_frame_steps(1) [of "s\<lparr>quetab := qt', thrcurrent := t\<rparr>" t THRCURR] d(3) by simp
  ultimately have frame: "sched_frame s ?s'"
    using sched_frame_steps(5) [of "s\<lparr>quetab := qt'\<rparr>" t] by (meson sched_frame_trans)
  show ?thesis
    by (rule exI [of _ ?s'], rule exI [of _ "qs(readylist s := xs)"])
      (use d frame keys cin in \<open>simp add: running_def at_upd resched_pick_def\<close>)
qed

lemma resched_select_ok:
  assumes ok: "sched_ok {} s qs"
  shows "\<exists>r qs'. resched_select s = Some r \<and> sched_ok {} (snd r) qs' \<and> running (snd r) \<and>
    only_ready s qs (snd r) qs' \<and> sched_frame s (snd r) \<and> selected s r qs'"
proof (cases "running s \<and> (\<exists>x xs. qs (readylist s) = x # xs \<and> prio (thr s (thrcurrent s)) > key s x)")
  case True
  then show ?thesis using resched_keep [OF ok] by fastforce
next
  case False
  note D = sched_okD [OF ok]
  let ?c = "thrcurrent s"
  define s1 where "s1 = thr_upd ?c (intmask_update (\<lambda>_. irq s)) (s\<lparr>irq := False\<rparr>)"
  have "sched_ok {} s1 qs" unfolding s1_def
    using sched_note [OF sched_irq [THEN iffD2, OF ok, of False], where t = ?c and f = "intmask_update (\<lambda>_. irq s)"] D(7) D(12) [OF D(7)]
    by (auto simp: thr_ok_def)
  note ok1 = this
  have e1: "thrcurrent s1 = ?c" "readylist s1 = readylist s" "irq s1 = False" "quetab s1 = quetab s"
    "thr s1 ?c = (thr s ?c)\<lparr>intmask := irq s\<rparr>" "running s1 \<longleftrightarrow> running s"
    using D(7) by (simp_all add: s1_def running_def)
  have or1: "only_ready s qs s1 qs" by (simp add: only_ready_def s1_def)
  have fr1: "sched_frame s s1" unfolding s1_def
    using sched_frame_trans [OF sched_frame_steps(4) sched_frame_steps(2)] D(7) by simp
  have ne: "nonempty s1 (readylist s) = Some (qs (readylist s) \<noteq> [])"
    using qsys_isempty(2) [OF sched_okD(1,2) [OF ok1]] e1 by simp
  have fk: "\<exists>k. firstkey s1 (readylist s) = Some k \<and> (running s \<longrightarrow> \<not> prio (thr s ?c) > k)"
    if "qs (readylist s) \<noteq> []"
    using qsys_firstkey [OF sched_okD(1,2) [OF ok1]] e1 False that by (cases "qs (readylist s)") auto
  have sel: "resched_select s = do { s \<leftarrow> (if running s then resched_requeue s1 else Some s1);
      s \<leftarrow> resched_pick s; Some (False, s) }"
  proof (cases "qs (readylist s) = []")
    case True
    then show ?thesis using ne D(7) by (simp add: running_def resched_select_def disable_def Let_def s1_def)
  next
    case ne2: False
    then obtain k where "firstkey s1 (readylist s) = Some k" "running s \<longrightarrow> \<not> prio (thr s ?c) > k" using fk by blast
    then show ?thesis using ne ne2 D(7) by (simp add: running_def resched_select_def disable_def Let_def s1_def cong: if_cong)
  qed
  obtain s2 qs2 where s2: "(if running s then resched_requeue s1 else Some s1) = Some s2"
      "sched_ok {} s2 qs2" "state (thr s2 (thrcurrent s2)) \<noteq> THRCURR" "only_ready s1 qs s2 qs2"
      "sched_frame s1 s2" "thrcurrent s2 = ?c" "irq s2 = False" "intmask (thr s2 ?c) = irq s"
  proof (cases "running s")
    case False
    then show ?thesis using that [of s1 qs] ok1 e1 by (simp add: sched_frame_refl running_def)
  next
    case True
    then show ?thesis using requeue_current [OF ok1] that e1 by auto
  qed
  obtain s' qs' where t: "resched_pick s2 = Some s'"
      "sched_ok {} s' qs'" "running s'" "only_ready s2 qs2 s' qs'" "sched_frame s2 s'" "irq s' = irq s2"
      "intmask (thr s' ?c) = intmask (thr s2 ?c)"
      "\<forall>x \<in> set (qs' (readylist s2)). key s' x \<le> key s' (thrcurrent s')"
    using resched_tail [OF s2(2,3)] s2(6) by auto
  have fr: "sched_frame s s2" by (rule sched_frame_trans [OF fr1 s2(5)])
  have "only_ready s qs s2 qs2" by (rule only_ready_trans [OF or1 s2(4) D(4)])
  then have "only_ready s qs s' qs'" using t(4) D(4) by (rule only_ready_trans)
  moreover have "selected s (False, s') qs'" using t s2 sched_frameD(3) [OF fr] by (simp add: selected_def)
  moreover have "resched_select s = Some (False, s')" using sel s2(1) t(1) by simp
  ultimately show ?thesis using t(2,3) sched_frame_trans [OF fr t(5)] by auto
qed

end
