(* ===== verification/Call_Safety.thy ===== *)
theory Call_Safety
  imports Scheduler
begin

text \<open>
  Safety of calls that may be switched out. \<open>good I t P m\<close>: the call \<open>m\<close>, made by thread
  \<open>t\<close>, never faults, hands the processor over only in states with \<open>I\<close>, and if it returns
  then in a state with \<open>I\<close> and with \<open>P\<close>, provided that \<open>t\<close> is only switched back to in
  states with \<open>I\<close>. A thread that gave up its table entry is not switched back to.
\<close>

primrec good :: "(kstate \<Rightarrow> bool) \<Rightarrow> int \<Rightarrow> ('a \<Rightarrow> kstate \<Rightarrow> bool) \<Rightarrow> 'a outcome \<Rightarrow> bool" where
  "good I t P (Done v s) \<longleftrightarrow> I s \<and> thrcurrent s = t \<and> P v s"
| "good I t P (Switch u s k) \<longleftrightarrow> u = t \<and> I s \<and>
     (state (thr s t) \<noteq> THRFREE \<longrightarrow> (\<forall>w. I w \<and> thrcurrent w = t \<longrightarrow> good I t P (k w)))"
| "good I t P (Halt s) \<longleftrightarrow> True"
| "good I t P Fault \<longleftrightarrow> False"

lemma good_bind:
  assumes "good I t P m"
    and "\<And>v s. I s \<Longrightarrow> thrcurrent s = t \<Longrightarrow> P v s \<Longrightarrow> good I t P' (f v s)"
  shows "good I t P' (obind m f)"
  using assms(1) by (induction m) (simp_all add: assms(2))

lemma good_mono:
  assumes "good I t P m" and "\<And>v s. I s \<Longrightarrow> thrcurrent s = t \<Longrightarrow> P v s \<Longrightarrow> P' v s"
  shows "good I t P' m"
  using assms(1) by (induction m) (auto intro: assms(2))

lemma good_not_Fault [simp]: "\<not> good I t P Fault"
  by simp

text \<open>
  The laws an invariant of the kernel has to obey for the calls' common frame, saving and
  restoring the interrupt mask around a body.
\<close>

locale kernel_inv =
  fixes I :: "kstate \<Rightarrow> bool"
  assumes irq_irrelevant: "I (s\<lparr>irq := b\<rparr>) \<longleftrightarrow> I s"
begin

lemma good_restore:
  assumes "good I t P m" and "\<And>v s. I s \<Longrightarrow> P v s \<Longrightarrow> P' (f v) (restore im s)"
  shows "good I t P' (obind m (\<lambda>v s. Done (f v) (restore im s)))"
proof (rule good_bind [OF assms(1)])
  fix v s assume "I s" "thrcurrent s = t" "P v s"
  then show "good I t P' (Done (f v) (restore im s))"
    using assms(2) [of s v] by (simp add: irq_irrelevant restore_def)
qed

lemma good_done: "I s \<Longrightarrow> thrcurrent s = t \<Longrightarrow> P v (restore im s) \<Longrightarrow> good I t P (Done v (restore im s))"
  by (simp add: irq_irrelevant restore_def)

end

interpretation kinv: kernel_inv kinv
  by unfold_locales (rule kinv_irq)

section \<open>The scheduler's entry points\<close>

lemma kinvI: "kinv_qs s qs \<Longrightarrow> running s \<Longrightarrow> kinv s"
  by (auto simp: kinv_def)

lemma kinvE:
  assumes "kinv s"
  obtains qs where "sched_ok {} s qs" "sem_ok s qs" "sleep_ok s qs" "running s" "inarr (thrtab s) (thrcurrent s)"
    "kinv_qs s qs"
  using assms sched_okD(7) unfolding kinv_def kinv_qs_def by blast

lemma only_ready_kinv:
  assumes "kinv_qs s qs" "sched_ok {} s' qs'" "only_ready s qs s' qs'"
  shows "kinv_qs s' qs'"
  using assms only_ready_sem_ok [OF assms(3)] only_ready_sleep_ok [OF assms(3)] by (auto simp: kinv_qs_def)

lemma resched_good:
  assumes inv: "kinv_qs s qs"
  shows "good kinv (thrcurrent s) (\<lambda>v _. v = OK) (resched s)"
proof -
  have ok: "sched_ok {} s qs" using inv by (simp add: kinv_qs_def)
  obtain r qs' where r: "resched_select s = Some r" "sched_ok {} (snd r) qs'" "running (snd r)"
      "only_ready s qs (snd r) qs'" "selected s r qs'"
    using resched_select_ok [OF ok] by blast
  have kinv: "kinv (snd r)" using only_ready_kinv [OF inv r(2,4)] r(3) by (rule kinvI)
  have cont: "good kinv (thrcurrent s) (\<lambda>v _. v = OK) (oget (aget (thrtab w) (thrcurrent s)) (\<lambda>throld.
      Done OK (restore (intmask throld) w)))" if "kinv w" "thrcurrent w = thrcurrent s" for w
  proof -
    have "inarr (thrtab w) (thrcurrent s)" using that by (metis kinvE)
    with that show ?thesis by (simp add: restore_def)
  qed
  from sched_okD(9) [OF ok] r(1,5) kinv cont show ?thesis
    by (cases r) (auto simp: resched_def selected_def split: if_splits)
qed

text \<open>\<open>ready\<close> on a thread in transit.\<close>

lemma ready_body:
  assumes ok: "sched_ok (insert t X) s qs" and t: "qat s qs t None"
  shows "\<exists>s' qs'. (do { tt \<leftarrow> aupd (thrtab s) t (state_update (\<lambda>_. THRREADY));
      thrptr \<leftarrow> aget tt t;
      (_, s) \<leftarrow> insertq t (readylist s) (prio thrptr) (s\<lparr>thrtab := tt\<rparr>);
      Some s }) = Some s' \<and>
    sched_ok X s' qs' \<and> only_ready s qs s' qs' \<and> sched_frame s s' \<and> thrcurrent s' = thrcurrent s \<and>
    state (thr s' t) = THRREADY \<and> irq s' = irq s \<and>
    qs' (readylist s) = insert_desc (key s) t (prio (thr s t)) (qs (readylist s)) \<and>
    same_keys (quetab s) (quetab s') {t} \<and> key s' t = prio (thr s t) \<and>
    (\<forall>u. inarr (thrtab s) u \<and> u \<noteq> t \<longrightarrow> thr s' u = thr s u)"
proof -
  let ?s = "thr_upd t (state_update (\<lambda>_. THRREADY)) s"
  have tin: "inarr (thrtab s) t" using sched_okD(13) [OF ok] by simp
  have pk: "MINKEY < prio (thr s t)" using sched_okD(12) [OF ok tin] by (auto simp: thr_ok_def)
  have "sched_ok (insert t X) ?s qs" by (rule sched_touch [OF ok]) (use pk in simp_all)
  note tr = sched_to_ready [OF this, of "prio (thr s t)"]
  obtain qt' where qt': "insertq t (readylist s) (prio (thr s t)) ?s = Some (OK, ?s\<lparr>quetab := qt'\<rparr>)"
      "sched_ok X (?s\<lparr>quetab := qt'\<rparr>) (qs(readylist s := insert_desc (key s) t (prio (thr s t)) (qs (readylist s))))"
      "only_ready ?s qs (?s\<lparr>quetab := qt'\<rparr>) (qs(readylist s := insert_desc (key s) t (prio (thr s t)) (qs (readylist s))))"
      "same_keys (quetab s) qt' {t}" "qkey (at qt' t) = prio (thr s t)"
    using tr t pk tin by auto
  have "sched_frame s (?s\<lparr>quetab := qt'\<rparr>)"
    by (rule sched_frame_trans [OF sched_frame_steps(1) [OF tin] sched_frame_steps(3)])
      (use qt'(4) in \<open>simp add: same_keys_def\<close>)
  moreover have "only_ready s qs (?s\<lparr>quetab := qt'\<rparr>) (qs(readylist s := insert_desc (key s) t (prio (thr s t)) (qs (readylist s))))"
    using qt'(3) by (simp add: only_ready_def)
  ultimately show ?thesis using qt' tin
    by (intro exI [of _ "?s\<lparr>quetab := qt'\<rparr>"] exI) (auto simp: at_upd)
qed

lemma ready_no:
  assumes ok: "sched_ok (insert t X) s qs" and t: "qat s qs t None"
  shows "\<exists>s' qs'. ready t RESCHED_NO s = Done OK s' \<and>
    sched_ok X s' qs' \<and> only_ready s qs s' qs' \<and> sched_frame s s' \<and> thrcurrent s' = thrcurrent s \<and>
    state (thr s' t) = THRREADY \<and> irq s' = irq s \<and>
    qs' (readylist s) = insert_desc (key s) t (prio (thr s t)) (qs (readylist s)) \<and>
    same_keys (quetab s) (quetab s') {t} \<and> key s' t = prio (thr s t) \<and>
    (\<forall>u. inarr (thrtab s) u \<and> u \<noteq> t \<longrightarrow> thr s' u = thr s u)"
  using ready_body [OF assms] goodtid [OF ok insertI1]
  by (auto simp: ready_def RESCHED_NO_def RESCHED_YES_def)

lemma ready_waking:
  assumes ok: "sched_ok {t} s qs" and t: "qat s qs t None" and rest: "sem_ok s qs" "sleep_ok s qs"
  shows "\<exists>s2 qs2. ready t RESCHED_YES s = obind (resched s2) (\<lambda>_ s. Done OK s) \<and> kinv_qs s2 qs2 \<and>
    only_ready s qs s2 qs2 \<and> sched_frame s s2 \<and> thrcurrent s2 = thrcurrent s \<and>
    state (thr s2 t) = THRREADY \<and> t \<in> set (qs2 (readylist s))"
proof -
  obtain s2 qs2 where b: "(do { tt \<leftarrow> aupd (thrtab s) t (state_update (\<lambda>_. THRREADY));
      thrptr \<leftarrow> aget tt t;
      (_, s) \<leftarrow> insertq t (readylist s) (prio thrptr) (s\<lparr>thrtab := tt\<rparr>);
      Some s }) = Some s2" "sched_ok {} s2 qs2" "only_ready s qs s2 qs2" "thrcurrent s2 = thrcurrent s"
      "state (thr s2 t) = THRREADY" "sched_frame s s2"
      "qs2 (readylist s) = insert_desc (key s) t (prio (thr s t)) (qs (readylist s))"
    using ready_body [OF assms(1,2)] by blast
  have "kinv_qs s2 qs2"
    using b(2) only_ready_sem_ok [OF b(3) ok rest(1)] only_ready_sleep_ok [OF b(3) ok rest(2)]
    by (simp add: kinv_qs_def)
  moreover have "ready t RESCHED_YES s = obind (resched s2) (\<lambda>_ s. Done OK s)"
    using b(1) goodtid [OF ok] by (simp add: ready_def RESCHED_YES_def)
  moreover have "t \<in> set (qs2 (readylist s))" unfolding b(7) by simp
  ultimately show ?thesis using b(3-6) by blast
qed

lemma ready_yes:
  assumes "sched_ok {t} s qs" "qat s qs t None" "sem_ok s qs" "sleep_ok s qs"
  shows "good kinv (thrcurrent s) (\<lambda>v _. v = OK) (ready t RESCHED_YES s)"
proof -
  obtain s2 qs2 where s2: "ready t RESCHED_YES s = obind (resched s2) (\<lambda>_ s. Done OK s)" "kinv_qs s2 qs2"
      "thrcurrent s2 = thrcurrent s"
    using ready_waking [OF assms] by blast
  from resched_good [OF s2(2)] s2 show ?thesis by (auto intro: good_bind)
qed

section \<open>State the scheduler does not touch\<close>

text \<open>
  \<open>keeps J m\<close>: the call leaves \<open>J\<close> true whenever it hands over or returns, if it is true
  whenever it is resumed. A predicate on tables other than those of threads, queues and
  semaphores is kept by every call of the scheduler.
\<close>

primrec keeps :: "(kstate \<Rightarrow> bool) \<Rightarrow> 'a outcome \<Rightarrow> bool" where
  "keeps J (Done v s) \<longleftrightarrow> J s"
| "keeps J (Switch t s k) \<longleftrightarrow> J s \<and> (\<forall>w. J w \<longrightarrow> keeps J (k w))"
| "keeps J (Halt s) \<longleftrightarrow> True"
| "keeps J Fault \<longleftrightarrow> True"

lemma keeps_bind: "keeps J m \<Longrightarrow> (\<And>v s. J s \<Longrightarrow> keeps J (f v s)) \<Longrightarrow> keeps J (obind m f)"
  by (induction m) auto

lemma keeps_oget: "(\<And>v. m = Some v \<Longrightarrow> keeps J (f v)) \<Longrightarrow> keeps J (oget m f)"
  by (cases m) auto

lemma good_keeps: "good I t P m \<Longrightarrow> keeps J m \<Longrightarrow> good (\<lambda>s. I s \<and> J s) t P m"
  by (induction m) auto

text \<open>The queue operations write \<open>quetab\<close> only.\<close>

lemma queue_ops_frame:
  "enqueue t q s = Some (v, s') \<Longrightarrow> \<exists>qt. s' = s\<lparr>quetab := qt\<rparr>"
  "getitem t s = Some (v, s') \<Longrightarrow> \<exists>qt. s' = s\<lparr>quetab := qt\<rparr>"
  "dequeue q s = Some (v, s') \<Longrightarrow> \<exists>qt. s' = s\<lparr>quetab := qt\<rparr>"
  "insertq t q k s = Some (v, s') \<Longrightarrow> \<exists>qt. s' = s\<lparr>quetab := qt\<rparr>"
  "insertd t q k s = Some (v, s') \<Longrightarrow> \<exists>qt. s' = s\<lparr>quetab := qt\<rparr>"
proof -
  have id: "\<exists>qt. s = s\<lparr>quetab := qt\<rparr>" by (rule exI [of _ "quetab s"]) simp
  have gi: "\<exists>qt. s' = s\<lparr>quetab := qt\<rparr>" if "getitem t s = Some (v, s')" for t v and s s' :: kstate
    using that by (auto simp: getitem_def bind_Some_iff Let_def)
  show "enqueue t q s = Some (v, s') \<Longrightarrow> \<exists>qt. s' = s\<lparr>quetab := qt\<rparr>"
    using id by (auto simp: enqueue_def bind_Some_iff Let_def split: if_splits)
  show "getitem t s = Some (v, s') \<Longrightarrow> \<exists>qt. s' = s\<lparr>quetab := qt\<rparr>" by (rule gi)
  show "dequeue q s = Some (v, s') \<Longrightarrow> \<exists>qt. s' = s\<lparr>quetab := qt\<rparr>"
    using id by (auto simp: dequeue_def getfirst_def bind_Some_iff Let_def split: if_splits dest!: gi)
  show "insertq t q k s = Some (v, s') \<Longrightarrow> \<exists>qt. s' = s\<lparr>quetab := qt\<rparr>"
    using id by (auto simp: insertq_def bind_Some_iff Let_def split: if_splits)
  show "insertd t q k s = Some (v, s') \<Longrightarrow> \<exists>qt. s' = s\<lparr>quetab := qt\<rparr>"
    using id by (auto simp: insertd_def bind_Some_iff Let_def split: if_splits)
qed

locale kernel_frame =
  fixes J :: "kstate \<Rightarrow> bool"
  assumes frame [simp]: "J (s\<lparr>quetab := qt\<rparr>) = J s" "J (s\<lparr>thrtab := tt\<rparr>) = J s"
    "J (s\<lparr>thrcurrent := c\<rparr>) = J s" "J (s\<lparr>semtab := st\<rparr>) = J s" "J (s\<lparr>irq := b\<rparr>) = J s"
    "J (s\<lparr>resdefer := r\<rparr>) = J s"
begin

lemma keeps_restore: "keeps J m \<Longrightarrow> keeps J (obind m (\<lambda>v s. Done (f v) (restore im s)))"
  by (erule keeps_bind) (simp add: restore_def)

lemma select_keeps: "resched_select s = Some (b, s') \<Longrightarrow> J s' = J s"
  unfolding resched_select_def resched_requeue_def resched_pick_def disable_def restore_def
  by (auto simp: bind_Some_iff Let_def split: if_splits dest!: queue_ops_frame)

lemma resched_keeps: "J s \<Longrightarrow> keeps J (resched s)"
  unfolding resched_def
  by (auto intro!: keeps_oget simp: select_keeps restore_def)

lemma ready_keeps: "J s \<Longrightarrow> keeps J (ready t r s)"
  unfolding ready_def
  by (auto intro!: keeps_oget keeps_bind resched_keeps simp: bind_Some_iff dest!: queue_ops_frame)

lemma wait_keeps: "J s \<Longrightarrow> keeps J (wait sm s)"
  unfolding wait_def disable_def Let_def prod.case
  by (auto intro!: keeps_oget keeps_bind resched_keeps simp: bind_Some_iff restore_def
      split: if_splits dest!: queue_ops_frame)

lemma signal1_keeps: "J s \<Longrightarrow> keeps J (signal1 sm r s)"
  unfolding signal1_def
  by (auto intro!: keeps_oget ready_keeps simp: bind_Some_iff split: if_splits option.splits dest!: queue_ops_frame)

lemma signal_keeps: "J s \<Longrightarrow> keeps J (signal sm s)"
  unfolding signal_def disable_def Let_def prod.case
  by (auto intro!: keeps_bind signal1_keeps simp: restore_def)

end

end
