(* ===== verification/Semaphore_Calls.thy ===== *)
theory Semaphore_Calls
  imports Call_Safety
begin

text \<open>
  The thread calls and the semaphore calls keep the kernel invariant and do not fault; what
  \<open>wait\<close> and \<open>signal\<close> do to count and queue is stated exactly.
\<close>

section \<open>Thread calls\<close>

lemma yield_good: "kinv s \<Longrightarrow> good kinv (thrcurrent s) (\<lambda>v s'. v = OK \<and> irq s' = irq s) (yield s)"
proof -
  assume inv: "kinv s"
  then obtain qs where "kinv_qs (s\<lparr>irq := False\<rparr>) qs" by (auto elim: kinvE simp: kinv_qs_def)
  from resched_good [OF this] have "good kinv (thrcurrent s) (\<lambda>v _. v = OK) (resched (s\<lparr>irq := False\<rparr>))" by simp
  then show ?thesis unfolding yield_def disable_def Let_def prod.case
    by (rule kinv.good_restore) (simp add: restore_def)
qed

lemma resume_good:
  assumes inv: "kinv s"
  shows "good kinv (thrcurrent s) (\<lambda>v s'. irq s' = irq s \<and>
    v = (if isbadtid s t \<or> state (thr s t) \<noteq> THRSUSP then SYSERR else prio (thr s t))) (resume t s)"
proof (cases "isbadtid s t \<or> state (thr s t) \<noteq> THRSUSP")
  case True
  then show ?thesis using inv by (auto simp: resume_def disable_def restore_def)
next
  case False
  obtain qs where qs: "sched_ok {} s qs" "sem_ok s qs" "sleep_ok s qs" using inv by (elim kinvE)
  have g: "\<not> isbadtid s t" and tin: "inarr (thrtab s) t" using False by (auto simp: isbadtid_iff)
  have "sched_ok {t} s qs" "qat s qs t None" using sched_exempt [OF qs(1) g] False by (auto simp: loc_def)
  then have "good kinv (thrcurrent s) (\<lambda>v _. v = OK) (ready t RESCHED_YES (s\<lparr>irq := False\<rparr>))"
    using ready_yes [of t "s\<lparr>irq := False\<rparr>" qs] qs by simp
  then have "good kinv (thrcurrent s) (\<lambda>v s'. irq s' = irq s \<and> v = prio (thr s t))
      (obind (ready t RESCHED_YES (s\<lparr>irq := False\<rparr>)) (\<lambda>_ s'. Done (prio (thr s t)) (restore (irq s) s')))"
    by (rule kinv.good_restore) (simp add: restore_def)
  then show ?thesis using False tin by (simp add: resume_def disable_def)
qed

text \<open>The last statements of \<open>suspend\<close>.\<close>

lemma suspend_return:
  assumes "kinv w" "inarr (thrtab w) t"
  shows "good kinv (thrcurrent w) (\<lambda>v s'. irq s' = im)
      (oget (aget (thrtab w) t) (\<lambda>thrptr. Done (prio thrptr) (restore im w)))"
  using assms by (simp add: restore_def)

lemma suspend_ready:
  assumes inv: "kinv s" and t: "inarr (thrtab s) t" "state (thr s t) = THRREADY" "t \<noteq> NULLTHREAD"
  defines "f \<equiv> state_update (\<lambda>_. THRSUSP)"
  shows "\<exists>qt'. getitem t s = Some (t, s\<lparr>quetab := qt'\<rparr>) \<and> kinv (thr_upd t f (s\<lparr>quetab := qt'\<rparr>))"
proof -
  obtain qs where qs: "sched_ok {} s qs" "running s" "kinv_qs s qs" using inv by (elim kinvE)
  note D = sched_okD [OF qs(1)]
  have "t \<in> set (qs (readylist s))" using D(12) [OF t(1)] D(2) t(2) by (auto simp: thr_ok_def qat_def loc_def)
  then obtain xs ys where xs: "qs (readylist s) = xs @ t # ys" by (auto simp: in_set_conv_decomp)
  define qs' where "qs' = qs(readylist s := xs @ ys)"
  obtain qt' where qt': "getitem t s = Some (t, s\<lparr>quetab := qt'\<rparr>)"
      "sched_ok {t} (s\<lparr>quetab := qt'\<rparr>) qs'" "qat s qs' t None" "same_keys (quetab s) qt' {}"
    using sched_getitem [OF qs(1) D(2) xs] by (auto simp: qs'_def)
  define s' where "s' = thr_upd t f (s\<lparr>quetab := qt'\<rparr>)"
  have prio: "MINKEY < prio (thr s t)" using D(12) [OF t(1)] t by (auto simp: thr_ok_def)
  have "sched_ok {t} s' qs'" unfolding s'_def
    by (rule sched_touch [OF qt'(2)]) (use prio t in \<open>simp_all add: f_def\<close>)
  then have ok': "sched_ok {} s' qs'"
    by (rule sched_settle) (use qt'(3) t in \<open>simp_all add: loc_def f_def s'_def\<close>)
  have "only_ready s qs s' qs'"
    using qt'(4) key_in(1) [OF qs(1) D(3)] by (simp add: only_ready_def same_keys_def s'_def qs'_def)
  then have "kinv_qs s' qs'" by (rule only_ready_kinv [OF qs(3) ok'])
  moreover have "t \<noteq> thrcurrent s" using t qs(2) by (auto simp: running_def)
  then have "running s'" using qs(2) t(1) D(7) by (simp add: running_def s'_def)
  ultimately have "kinv s'" by (rule kinvI)
  then show ?thesis using qt'(1) by (auto simp: s'_def)
qed

text \<open>The current thread takes a state in which it is in no queue.\<close>

lemma block_current:
  assumes inv: "kinv s" and st: "thrcurrent s \<noteq> NULLTHREAD" "st \<in> {THRSUSP, THRRECV}"
  shows "good kinv (thrcurrent s) (\<lambda>v _. v = OK) (resched (thr_upd (thrcurrent s) (state_update (\<lambda>_. st)) s))"
proof -
  obtain qs where qs: "sched_ok {} s qs" "running s" "kinv_qs s qs" using inv by (elim kinvE)
  let ?t = "thrcurrent s" and ?f = "state_update (\<lambda>_. st)"
  note D = sched_okD [OF qs(1)]
  have cur: "state (thr s ?t) = THRCURR" using qs(2) by (simp add: running_def)
  have prio: "MINKEY < prio (thr s ?t)" using D(12) [OF D(7)] cur by (auto simp: thr_ok_def)
  have "\<not> isbadtid s ?t" using D(7) cur by (simp add: isbadtid_iff)
  note ex = sched_exempt [OF qs(1) this, simplified]
  have "sched_ok {?t} (thr_upd ?t ?f s) qs"
    by (rule sched_touch [OF ex(1)]) (use prio st in auto)
  then have "sched_ok {} (thr_upd ?t ?f s) qs"
    by (rule sched_settle) (use ex(2) D(7) st cur in \<open>auto simp: loc_def\<close>)
  then have "kinv_qs (thr_upd ?t ?f s) qs" using qs(3) by (simp add: kinv_qs_def)
  from resched_good [OF this] show ?thesis by simp
qed

lemma suspend_good:
  assumes inv: "kinv s"
  shows "good kinv (thrcurrent s) (\<lambda>v s'. irq s' = irq s) (suspend t s)"
proof (cases "isbadtid s t \<or> NULLTHREAD = t \<or> state (thr s t) \<noteq> THRCURR \<and> state (thr s t) \<noteq> THRREADY")
  case True
  then show ?thesis using inv by (auto simp: suspend_def disable_def restore_def isbadtid_iff)
next
  case False
  let ?f = "state_update (\<lambda>_. THRSUSP)" and ?s = "s\<lparr>irq := False\<rparr>"
  have t: "\<not> isbadtid s t" "inarr (thrtab s) t" "NULLTHREAD \<noteq> t" "state (thr s t) \<in> {THRCURR, THRREADY}"
    using False by (auto simp: isbadtid_iff)
  have inv': "kinv ?s" using inv by simp
  show ?thesis
  proof (cases "state (thr s t) = THRREADY")
    case True
    obtain qt' where g: "getitem t ?s = Some (t, ?s\<lparr>quetab := qt'\<rparr>)" "kinv (thr_upd t ?f (?s\<lparr>quetab := qt'\<rparr>))"
      using suspend_ready [OF inv', of t] True t by auto
    from suspend_return [OF g(2), of t "irq s"] show ?thesis
      using True t g(1) by (simp add: suspend_def disable_def)
  next
    case cur: False
    then have tc: "t = thrcurrent s" "state (thr s t) = THRCURR"
      using t(4) kinvE [OF inv] sched_okD(12) t(2) unfolding thr_ok_def by (metis insertE empty_iff)+
    have r: "good kinv t (\<lambda>v _. v = OK) (resched (thr_upd t ?f ?s))"
      using block_current [OF inv', of THRSUSP] t(3) tc(1) by simp
    have "good kinv t (\<lambda>v s'. irq s' = irq s) (obind (resched (thr_upd t ?f ?s))
        (\<lambda>_ s'. oget (aget (thrtab s') t) (\<lambda>thrptr. Done (prio thrptr) (restore (irq s) s'))))"
      by (rule good_bind [OF r]) (metis kinvE suspend_return)
    then show ?thesis using t cur tc(2) by (simp add: suspend_def disable_def flip: tc(1))
  qed
qed

lemma chprio_good:
  assumes inv: "kinv s" and p: "MINKEY < p"
  shows "\<exists>v s'. chprio t p s = Some (v, s') \<and> kinv s' \<and> thrcurrent s' = thrcurrent s \<and> irq s' = irq s \<and>
    (if isbadtid s t then v = SYSERR \<and> s' = s else v = prio (thr s t) \<and> s' = thr_upd t (prio_update (\<lambda>_. p)) s)"
proof (cases "isbadtid s t")
  case True
  then show ?thesis using inv by (simp add: chprio_def disable_def restore_def)
next
  case False
  then have tin: "inarr (thrtab s) t" by (simp add: isbadtid_iff)
  obtain qs where qs: "kinv_qs s qs" "running s" "inarr (thrtab s) (thrcurrent s)" using inv by (elim kinvE)
  have "kinv_qs (thr_upd t (prio_update (\<lambda>_. p)) s) qs" by (rule kinv_qs_note [OF qs(1) tin]) (use p in simp_all)
  moreover have "running (thr_upd t (prio_update (\<lambda>_. p)) s)"
    using qs(2,3) tin by (simp add: running_def at_upd)
  ultimately have "kinv (thr_upd t (prio_update (\<lambda>_. p)) s)" by (rule kinvI)
  then show ?thesis using False tin by (simp add: chprio_def disable_def restore_def)
qed

section \<open>Semaphores\<close>

lemma ball_at: "(\<forall>e \<in> set xs. P e) \<longleftrightarrow> (\<forall>i. inarr xs i \<longrightarrow> P (at xs i))"
proof
  assume a: "\<forall>i. inarr xs i \<longrightarrow> P (at xs i)"
  have "P (xs ! n)" if "n < length xs" for n
    using a [rule_format, of "int n"] that by (simp add: inarr_def at_def)
  then show "\<forall>e \<in> set xs. P e" by (metis in_set_conv_nth)
qed (auto intro: at_in_set)

lemma upd_count: "upd xs i (count_update (\<lambda>_. h (count (at xs i)))) = upd xs i (count_update h)"
  by (cases "xs ! nat i") (simp add: upd_def at_def)

lemma sched_semtab:
  assumes "map squeue st = map squeue (semtab s)"
  shows "sched_ok X (s\<lparr>semtab := st\<rparr>) qs = sched_ok X s qs"
proof -
  have "kqueues (s\<lparr>semtab := st\<rparr>) = kqueues s" using assms by (simp add: kqueues_def)
  moreover have "loc (s\<lparr>semtab := st\<rparr>) = loc s"
    using assms by (auto simp: loc_def fun_eq_iff cong: thrstate.case_cong)
  moreover have "length st = length (semtab s)" using assms by (metis length_map)
  ultimately show ?thesis using assms by (simp add: sched_ok_def thr_ok_def qat_def inarr_def)
qed

lemma sem_ok_at: "sem_ok s qs \<longleftrightarrow> (\<forall>i. inarr (semtab s) i \<longrightarrow>
    int (length (qs (squeue (at (semtab s) i)))) = max 0 (- count (at (semtab s) i)) \<and>
    count (at (semtab s) i) \<le> INT_MAX \<and>
    (sstate (at (semtab s) i) = SFREE \<longrightarrow> count (at (semtab s) i) = 0))"
  unfolding sem_ok_def by (rule ball_at)

lemma sem_ok_upd:
  assumes ok: "sched_ok X s qs" and sem: "sem_ok s qs" and i: "inarr (semtab s) i"
  defines "e \<equiv> at (semtab s) i"
  assumes f: "squeue (f e) = squeue e" "int (length (qs' (squeue e))) = max 0 (- count (f e))"
      "count (f e) \<le> INT_MAX" "sstate (f e) = SFREE \<Longrightarrow> count (f e) = 0"
    and same: "\<And>q. q \<noteq> squeue e \<Longrightarrow> q \<in> squeue ` set (semtab s) \<Longrightarrow> qs' q = qs q"
  shows "sem_ok (s\<lparr>semtab := upd (semtab s) i f\<rparr>) qs'"
proof -
  have "qs' (squeue (at (semtab s) j)) = qs (squeue (at (semtab s) j))"
    if "inarr (semtab s) j" "j \<noteq> i" for j
    using same squeue_inj [OF ok that(1) i] that at_in_set [OF that(1)] by (auto simp: e_def)
  with sem f i show ?thesis unfolding sem_ok_at by (auto simp: at_upd e_def)
qed

lemma sem_count_bound:
  assumes ok: "sched_ok X s qs" "sem_ok s qs" and i: "inarr (semtab s) i"
  shows "- INT_MAX \<le> count (at (semtab s) i)" "count (at (semtab s) i) \<le> INT_MAX"
    "int (length (qs (squeue (at (semtab s) i)))) = max 0 (- count (at (semtab s) i))"
proof -
  note D = sched_okD [OF ok(1)]
  let ?q = "squeue (at (semtab s) i)"
  have q: "?q \<in> kqueues s" using D(14) at_in_set [OF i] by blast
  have "set (qs ?q) \<subseteq> {0 ..< NTHREAD s}" "distinct (qs ?q)"
    using qsysD [OF D(1) q] by (auto simp: qrep_def)
  then have "length (qs ?q) \<le> nat (NTHREAD s)"
    by (metis card_atLeastLessThan_int card_mono distinct_card finite_atLeastLessThan_int diff_zero)
  moreover show l: "int (length (qs ?q)) = max 0 (- count (at (semtab s) i))"
    using ok(2) i by (simp add: sem_ok_at)
  ultimately show "- INT_MAX \<le> count (at (semtab s) i)" using D(10) by linarith
  show "count (at (semtab s) i) \<le> INT_MAX" using ok(2) i by (simp add: sem_ok_at)
qed

lemma goodsem: "\<not> isbadsem s x \<longleftrightarrow> inarr (semtab s) (uidx x) \<and> sstate (at (semtab s) (uidx x)) = SUSED"
  by (cases "sstate (at (semtab s) (uidx x))") (auto simp: isbadsem_def inarr_def)

lemma isbadsem_frame [simp]:
  "isbadsem (s\<lparr>irq := i\<rparr>) x = isbadsem s x" "isbadsem (s\<lparr>montab := mt\<rparr>) x = isbadsem s x"
  "isbadsem (s\<lparr>thrtab := tt\<rparr>) x = isbadsem s x" "isbadsem (s\<lparr>quetab := qt\<rparr>) x = isbadsem s x"
  by (simp_all add: isbadsem_def)

text \<open>\<open>wait\<close> when a unit is available, and the body that queues the caller.\<close>

lemma wait_pass:
  assumes inv: "kinv s" and sm: "\<not> isbadsem s sm" "0 < count (at (semtab s) (uidx sm))"
  shows "wait sm s = Done OK (s\<lparr>semtab := upd (semtab s) (uidx sm) (count_update (\<lambda>c. c - 1))\<rparr>) \<and>
    kinv (s\<lparr>semtab := upd (semtab s) (uidx sm) (count_update (\<lambda>c. c - 1))\<rparr>)"
proof -
  obtain qs where qs: "sched_ok {} s qs" "sem_ok s qs" "sleep_ok s qs" "running s" using inv by (elim kinvE)
  let ?i = "uidx sm" and ?f = "count_update (\<lambda>c. c - 1)"
  have i: "inarr (semtab s) ?i" and u: "sstate (at (semtab s) ?i) = SUSED" using sm(1) by (auto simp: goodsem)
  note b = sem_count_bound [OF qs(1,2) i]
  have eq: "upd (semtab s) ?i (count_update (\<lambda>_. count (at (semtab s) ?i) - 1)) = upd (semtab s) ?i ?f"
    by (rule upd_count)
  have "wait sm s = Done OK (s\<lparr>semtab := upd (semtab s) ?i ?f\<rparr>)"
    using sm i b(1,2) by (simp add: wait_def disable_def restore_def c_consts flip: eq)
  moreover have "sem_ok (s\<lparr>semtab := upd (semtab s) ?i ?f\<rparr>) qs"
    by (rule sem_ok_upd [OF qs(1,2) i]) (use b sm u in auto)
  then have "kinv (s\<lparr>semtab := upd (semtab s) ?i ?f\<rparr>)"
    using qs i by (intro kinvI [of _ qs]) (simp_all add: kinv_qs_def sched_semtab running_def)
  ultimately show ?thesis by simp
qed

lemma wait_queue:
  assumes inv: "kinv_qs s qs" "running s" and sm: "\<not> isbadsem s sm" "count (at (semtab s) (uidx sm)) \<le> 0"
    and c: "thrcurrent s \<noteq> NULLTHREAD"
  defines "q \<equiv> squeue (at (semtab s) (uidx sm))" and "cur \<equiv> thrcurrent s"
    and "s1 \<equiv> s\<lparr>semtab := upd (semtab s) (uidx sm) (count_update (\<lambda>c. c - 1)),
      thrtab := upd (thrtab s) (thrcurrent s) (\<lambda>e. e\<lparr>state := THRWAIT, sem := sm\<rparr>)\<rparr>"
  shows "\<exists>qt'. enqueue cur q s1 = Some (cur, s1\<lparr>quetab := qt'\<rparr>) \<and>
     kinv_qs (s1\<lparr>quetab := qt'\<rparr>) (qs(q := qs q @ [cur]))"
proof -
  have ok: "sched_ok {} s qs" "sem_ok s qs" "sleep_ok s qs" using inv by (simp_all add: kinv_qs_def)
  note D = sched_okD [OF ok(1)]
  let ?i = "uidx sm" and ?f = "count_update (\<lambda>c. c - 1)" and ?g = "\<lambda>e. e\<lparr>state := THRWAIT, sem := sm\<rparr>"
  have i: "inarr (semtab s) ?i" and u: "sstate (at (semtab s) ?i) = SUSED" using sm(1) by (auto simp: goodsem)
  have cur: "state (thr s cur) = THRCURR" "inarr (thrtab s) cur" using inv(2) D(7) by (simp_all add: running_def cur_def)
  have prio: "MINKEY < prio (thr s cur)" using D(12) [OF cur(2)] cur by (auto simp: thr_ok_def)
  let ?s0 = "s\<lparr>semtab := upd (semtab s) ?i ?f\<rparr>"
  have ok0: "sched_ok {} ?s0 qs" using ok(1) i by (simp add: sched_semtab)
  have "\<not> isbadtid ?s0 cur" using cur by (simp add: isbadtid_iff)
  note ex = sched_exempt [OF ok0 this, simplified]
  have "sched_ok {cur} s1 qs"
    using sched_touch [OF ex(1), of cur ?g] prio c by (simp add: s1_def cur_def)
  moreover have "qat s1 qs cur None" using ex(2) cur by (simp add: loc_def qat_def kqueues_def s1_def)
  moreover have "q \<in> kqueues s1" "q \<noteq> readylist s1" "q \<noteq> sleepq s"
    using D(5,6) at_in_set [OF i] i by (auto simp: q_def kqueues_def s1_def image_iff)
  ultimately obtain qt' where qt': "enqueue cur q s1 = Some (cur, s1\<lparr>quetab := qt'\<rparr>)"
      "sched_ok {cur} (s1\<lparr>quetab := qt'\<rparr>) (qs(q := qs q @ [cur]))"
      "qat s1 (qs(q := qs q @ [cur])) cur (Some q)" "same_keys (quetab s1) qt' {}"
    using sched_enqueue [of "{cur}" s1 qs cur q] by auto
  have "loc s1 cur = Some q" using cur i by (simp add: loc_def s1_def q_def flip: cur_def)
  then have ok1: "sched_ok {} (s1\<lparr>quetab := qt'\<rparr>) (qs(q := qs q @ [cur]))"
    by (intro sched_settle [OF qt'(2)]) (use qt'(3) i cur in \<open>simp_all add: s1_def flip: cur_def\<close>)
  have "sem_ok ?s0 (qs(q := qs q @ [cur]))"
    by (rule sem_ok_upd [OF ok(1,2) i]) (use sem_count_bound [OF ok(1,2) i] sm u in \<open>auto simp: q_def\<close>)
  then have "sem_ok (s1\<lparr>quetab := qt'\<rparr>) (qs(q := qs q @ [cur]))" by (simp add: sem_ok_def s1_def)
  moreover have "sleep_ok (s1\<lparr>quetab := qt'\<rparr>) (qs(q := qs q @ [cur]))"
  proof -
    have "qkey (at qt' x) = key s x" if "x \<in> set (qs (sleepq s))" for x
      using key_in(1) [OF ok(1) D(3) that] qt'(4) by (simp add: same_keys_def s1_def)
    then have "delays (s1\<lparr>quetab := qt'\<rparr>) (qs(q := qs q @ [cur])) = delays s qs"
      using \<open>q \<noteq> sleepq s\<close> by (auto simp: delays_def s1_def)
    with ok(3) show ?thesis by (simp add: sleep_ok_def)
  qed
  ultimately show ?thesis using qt'(1) ok1 unfolding kinv_qs_def by blast
qed

lemma wait_pass_qs:
  assumes inv: "kinv_qs s qs" "running s" and sm: "\<not> isbadsem s sm" "0 < count (at (semtab s) (uidx sm))"
  defines "s' \<equiv> s\<lparr>semtab := upd (semtab s) (uidx sm) (count_update (\<lambda>c. c - 1))\<rparr>"
  shows "wait sm s = Done OK s' \<and> kinv_qs s' qs"
proof -
  have ok: "sched_ok {} s qs" "sem_ok s qs" "sleep_ok s qs" using inv by (simp_all add: kinv_qs_def)
  have i: "inarr (semtab s) (uidx sm)" and u: "sstate (at (semtab s) (uidx sm)) = SUSED" using sm(1) by (auto simp: goodsem)
  have "sem_ok s' qs" unfolding s'_def
    by (rule sem_ok_upd [OF ok(1,2) i]) (use sem_count_bound [OF ok(1,2) i] sm(2) u in auto)
  then have "kinv_qs s' qs" using ok i by (simp add: kinv_qs_def s'_def sched_semtab)
  then show ?thesis using wait_pass [OF kinvI [OF inv] sm] unfolding s'_def by simp
qed

lemma wait_block:
  assumes inv: "kinv_qs s qs" "running s" and sm: "\<not> isbadsem s sm" and c: "thrcurrent s \<noteq> NULLTHREAD"
    and le: "count (at (semtab s) (uidx sm)) \<le> 0"
  defines "q \<equiv> squeue (at (semtab s) (uidx sm))"
  shows "\<exists>s2. wait sm s = obind (resched s2) (\<lambda>_ s'. Done OK (restore (irq s) s')) \<and>
      semtab s2 = upd (semtab s) (uidx sm) (count_update (\<lambda>c. c - 1)) \<and>
      kinv_qs s2 (qs(q := qs q @ [thrcurrent s])) \<and> thrcurrent s2 = thrcurrent s \<and>
      state (thr s2 (thrcurrent s)) = THRWAIT \<and> sem (thr s2 (thrcurrent s)) = sm"
proof -
  have ok: "sched_ok {} s qs" "sem_ok s qs" using inv by (simp_all add: kinv_qs_def)
  let ?s = "s\<lparr>irq := False\<rparr>" and ?i = "uidx sm" and ?cur = "thrcurrent s"
  have i: "inarr (semtab s) ?i" using sm by (auto simp: goodsem)
  have cin: "inarr (thrtab s) ?cur" using ok(1) by (rule sched_okD)
  define s1 where "s1 = ?s\<lparr>semtab := upd (semtab s) ?i (count_update (\<lambda>c. c - 1)),
      thrtab := upd (thrtab s) ?cur (\<lambda>e. e\<lparr>state := THRWAIT, sem := sm\<rparr>)\<rparr>"
  obtain qt' where qt': "enqueue ?cur q s1 = Some (?cur, s1\<lparr>quetab := qt'\<rparr>)"
      "kinv_qs (s1\<lparr>quetab := qt'\<rparr>) (qs(q := qs q @ [?cur]))"
    using wait_queue [of ?s qs sm] inv sm le c by (auto simp: s1_def kinv_qs_def q_def)
  have eq: "upd (semtab s) ?i (count_update (\<lambda>_. count (at (semtab s) ?i) - 1)) = upd (semtab s) ?i (count_update (\<lambda>c. c - 1))"
    by (rule upd_count)
  have "wait sm s = obind (resched (s1\<lparr>quetab := qt'\<rparr>)) (\<lambda>_ s'. Done OK (restore (irq s) s'))"
    using sm le i cin qt'(1) sem_count_bound [OF ok i]
    by (simp add: wait_def disable_def c_consts eq s1_def q_def)
  with qt'(2) cin show ?thesis
    by (intro exI [of _ "s1\<lparr>quetab := qt'\<rparr>"]) (simp add: s1_def)
qed

lemma wait_good:
  assumes inv: "kinv s" and c: "thrcurrent s \<noteq> NULLTHREAD"
  shows "good kinv (thrcurrent s) (\<lambda>v s'. irq s' = irq s \<and> v = (if isbadsem s sm then SYSERR else OK)) (wait sm s)"
proof -
  obtain qs where qs: "kinv_qs s qs" "running s" using inv by (elim kinvE)
  consider (bad) "isbadsem s sm" | (pass) "\<not> isbadsem s sm" "0 < count (at (semtab s) (uidx sm))"
    | (block) "\<not> isbadsem s sm" "count (at (semtab s) (uidx sm)) \<le> 0" by linarith
  then show ?thesis
  proof cases
    case bad
    then show ?thesis using inv by (simp add: wait_def disable_def restore_def)
  next
    case pass
    then show ?thesis using wait_pass [OF inv pass] by simp
  next
    case block
    obtain s2 where s2: "wait sm s = obind (resched s2) (\<lambda>_ s'. Done OK (restore (irq s) s'))"
        "kinv_qs s2 (qs(squeue (at (semtab s) (uidx sm)) := qs (squeue (at (semtab s) (uidx sm))) @ [thrcurrent s]))"
        "thrcurrent s2 = thrcurrent s"
      using wait_block [OF qs block(1) c block(2)] by blast
    have "good kinv (thrcurrent s) (\<lambda>v s'. irq s' = irq s \<and> v = OK)
        (obind (resched s2) (\<lambda>_ s'. Done OK (restore (irq s) s')))"
      by (rule kinv.good_restore [OF resched_good [OF s2(2), unfolded s2(3)]]) (simp add: restore_def)
    then show ?thesis using s2(1) block(1) by simp
  qed
qed

text \<open>\<open>signal\<close>: the count goes up, and the longest-waiting thread leaves the queue.\<close>

definition sem_inc :: "u32 \<Rightarrow> kstate \<Rightarrow> kstate" where
  "sem_inc sm s = s\<lparr>semtab := upd (semtab s) (uidx sm) (count_update (\<lambda>c. c + 1))\<rparr>"

lemma signal_dequeue:
  assumes inv: "kinv_qs s qs" and sm: "\<not> isbadsem s sm" "count (at (semtab s) (uidx sm)) < 0"
  defines "q \<equiv> squeue (at (semtab s) (uidx sm))" and "s0 \<equiv> sem_inc sm s"
  shows "\<exists>t xs qt'. qs q = t # xs \<and> dequeue q s0 = Some (t, s0\<lparr>quetab := qt'\<rparr>) \<and>
     sched_ok {t} (s0\<lparr>quetab := qt'\<rparr>) (qs(q := xs)) \<and> qat (s0\<lparr>quetab := qt'\<rparr>) (qs(q := xs)) t None \<and>
     sem_ok (s0\<lparr>quetab := qt'\<rparr>) (qs(q := xs)) \<and> sleep_ok (s0\<lparr>quetab := qt'\<rparr>) (qs(q := xs)) \<and>
     same_keys (quetab s) qt' {} \<and> (running s \<longrightarrow> t \<noteq> thrcurrent s)"
proof -
  have ok: "sched_ok {} s qs" "sem_ok s qs" "sleep_ok s qs" using inv by (simp_all add: kinv_qs_def)
  note D = sched_okD [OF ok(1)]
  let ?i = "uidx sm" and ?f = "count_update (\<lambda>c. c + 1)"
  have i: "inarr (semtab s) ?i" and u: "sstate (at (semtab s) ?i) = SUSED" using sm(1) by (auto simp: goodsem)
  note b = sem_count_bound [OF ok(1,2) i, folded q_def]
  obtain t xs where xs: "qs q = t # xs" using b(3) sm(2) by (cases "qs q") auto
  have ok0: "sched_ok {} s0 qs" unfolding s0_def sem_inc_def using ok(1) i by (simp add: sched_semtab)
  have q: "q \<in> kqueues s" "q \<in> kqueues s0" "q \<noteq> sleepq s"
    using D(6,14) at_in_set [OF i] i by (auto simp: q_def s0_def sem_inc_def kqueues_def image_iff)
  obtain qt' where qt': "dequeue q s0 = Some (t, s0\<lparr>quetab := qt'\<rparr>)"
      "sched_ok {t} (s0\<lparr>quetab := qt'\<rparr>) (qs(q := xs))" "qat s0 (qs(q := xs)) t None" "same_keys (quetab s0) qt' {}"
      "loc s0 t = Some q"
    using sched_dequeue [OF ok0 q(2) xs] by blast
  have e: "quetab s0 = quetab s" "thrtab s0 = thrtab s" "sleepq s0 = sleepq s" by (simp_all add: s0_def sem_inc_def)
  have "sem_ok s0 (qs(q := xs))" unfolding s0_def sem_inc_def
    by (rule sem_ok_upd [OF ok(1,2) i]) (use b sm u xs in \<open>auto simp: q_def\<close>)
  moreover have "sleep_ok (s0\<lparr>quetab := qt'\<rparr>) (qs(q := xs))"
  proof -
    have "qkey (at qt' x) = key s x" if "x \<in> set (qs (sleepq s))" for x
      using key_in(1) [OF ok(1) D(3) that] qt'(4) e(1) by (simp add: same_keys_def)
    then have "delays (s0\<lparr>quetab := qt'\<rparr>) (qs(q := xs)) = delays s qs"
      using q(3) e by (auto simp: delays_def)
    with ok(3) show ?thesis by (simp add: sleep_ok_def)
  qed
  moreover have "t \<noteq> thrcurrent s" if "running s"
    using that qt'(5) e(2) by (auto simp: running_def loc_def)
  ultimately show ?thesis using xs qt' e(1) by auto
qed

lemma signal_plain:
  assumes inv: "kinv_qs s qs" and sm: "\<not> isbadsem s sm" "0 \<le> count (at (semtab s) (uidx sm))"
    and lt: "count (at (semtab s) (uidx sm)) < INT_MAX"
  shows "kinv_qs (sem_inc sm s) qs"
proof -
  have ok: "sched_ok {} s qs" "sem_ok s qs" "sleep_ok s qs" using inv by (simp_all add: kinv_qs_def)
  have i: "inarr (semtab s) (uidx sm)" and u: "sstate (at (semtab s) (uidx sm)) = SUSED" using sm(1) by (auto simp: goodsem)
  have "sem_ok (sem_inc sm s) qs" unfolding sem_inc_def
    by (rule sem_ok_upd [OF ok(1,2) i]) (use sem_count_bound [OF ok(1,2) i] sm u lt in auto)
  then show ?thesis using ok i by (simp add: kinv_qs_def sem_inc_def sched_semtab)
qed

lemma signal1_eq:
  assumes inv: "kinv_qs s qs" and sm: "\<not> isbadsem s sm" "count (at (semtab s) (uidx sm)) < INT_MAX"
  shows "signal1 sm resch s = (if count (at (semtab s) (uidx sm)) < 0
     then oget (dequeue (squeue (at (semtab s) (uidx sm))) (sem_inc sm s)) (\<lambda>(t, s). ready t resch s)
     else Done OK (sem_inc sm s))"
proof -
  have ok: "sched_ok {} s qs" "sem_ok s qs" using inv by (simp_all add: kinv_qs_def)
  have i: "inarr (semtab s) (uidx sm)" using sm(1) by (auto simp: goodsem)
  have eq: "upd (semtab s) (uidx sm) (count_update (\<lambda>_. count (at (semtab s) (uidx sm)) + 1))
      = upd (semtab s) (uidx sm) (count_update (\<lambda>c. c + 1))" by (rule upd_count)
  have bd: "INT_MIN \<le> count (at (semtab s) (uidx sm)) + 1" "count (at (semtab s) (uidx sm)) + 1 \<le> INT_MAX"
    using sem_count_bound(1) [OF ok i] sm(2) by (auto simp: c_consts)
  show ?thesis using i bd
    by (auto simp: signal1_def sem_inc_def eq oget_def bind_Some_iff split: option.splits prod.splits)
qed

lemma signal_free:
  assumes inv: "kinv_qs s qs" and sm: "\<not> isbadsem s sm" "count (at (semtab s) (uidx sm)) < INT_MAX"
    and ge: "0 \<le> count (at (semtab s) (uidx sm))"
  shows "qs (squeue (at (semtab s) (uidx sm))) = [] \<and> signal sm s = Done OK (sem_inc sm s) \<and> kinv_qs (sem_inc sm s) qs"
proof -
  have i: "inarr (semtab s) (uidx sm)" using sm(1) by (auto simp: goodsem)
  have "qs (squeue (at (semtab s) (uidx sm))) = []"
    using sem_count_bound(3) [of "{}" s qs "uidx sm"] inv i ge by (simp add: kinv_qs_def)
  moreover have "signal1 sm RESCHED_YES (s\<lparr>irq := False\<rparr>) = Done OK (sem_inc sm (s\<lparr>irq := False\<rparr>))"
    using signal1_eq [of "s\<lparr>irq := False\<rparr>" qs sm RESCHED_YES] inv sm ge by (simp add: kinv_qs_def)
  ultimately show ?thesis using signal_plain [OF inv sm(1) ge sm(2)] sm(1)
    by (simp add: signal_def disable_def restore_def sem_inc_def)
qed

lemma signal_wakes:
  assumes inv: "kinv_qs s qs" "running s" and sm: "\<not> isbadsem s sm" "count (at (semtab s) (uidx sm)) < INT_MAX"
    and neg: "count (at (semtab s) (uidx sm)) < 0"
  defines "q \<equiv> squeue (at (semtab s) (uidx sm))"
  shows "\<exists>t xs s2 qs2. qs q = t # xs \<and>
      signal sm s = obind (resched s2) (\<lambda>_ s'. Done OK (restore (irq s) s')) \<and>
      semtab s2 = upd (semtab s) (uidx sm) (count_update (\<lambda>c. c + 1)) \<and>
      kinv_qs s2 qs2 \<and> qs2 q = xs \<and> (\<forall>q'. q' \<noteq> q \<and> q' \<noteq> readylist s \<longrightarrow> qs2 q' = qs q') \<and>
      thrcurrent s2 = thrcurrent s \<and> state (thr s2 t) = THRREADY \<and> t \<in> set (qs2 (readylist s))"
proof -
  let ?s = "s\<lparr>irq := False\<rparr>"
  have inv': "kinv_qs ?s qs" using inv by (simp add: kinv_qs_def)
  obtain t xs qt' where d: "qs q = t # xs" "dequeue q (sem_inc sm ?s) = Some (t, (sem_inc sm ?s)\<lparr>quetab := qt'\<rparr>)"
      "sched_ok {t} ((sem_inc sm ?s)\<lparr>quetab := qt'\<rparr>) (qs(q := xs))" "qat ((sem_inc sm ?s)\<lparr>quetab := qt'\<rparr>) (qs(q := xs)) t None"
      "sem_ok ((sem_inc sm ?s)\<lparr>quetab := qt'\<rparr>) (qs(q := xs))" "sleep_ok ((sem_inc sm ?s)\<lparr>quetab := qt'\<rparr>) (qs(q := xs))"
    using signal_dequeue [OF inv', of sm] sm(1) neg by (auto simp: q_def)
  let ?s1 = "(sem_inc sm ?s)\<lparr>quetab := qt'\<rparr>"
  have e1: "readylist ?s1 = readylist s" "thrcurrent ?s1 = thrcurrent s"
      "semtab ?s1 = upd (semtab s) (uidx sm) (count_update (\<lambda>c. c + 1))"
    by (simp_all add: sem_inc_def)
  obtain s2 qs2 where b: "ready t RESCHED_YES ?s1 = obind (resched s2) (\<lambda>_ s. Done OK s)" "kinv_qs s2 qs2"
      "only_ready ?s1 (qs(q := xs)) s2 qs2" "thrcurrent s2 = thrcurrent s" "state (thr s2 t) = THRREADY"
      "t \<in> set (qs2 (readylist s))"
    using ready_waking [OF d(3-6)] unfolding e1 by blast
  have "signal sm s = obind (resched s2) (\<lambda>_ s'. Done OK (restore (irq s) s'))"
    using b(1) signal1_eq [OF inv', of sm RESCHED_YES] sm neg d(2)
    by (simp add: signal_def disable_def q_def obind_assoc)
  moreover have "q \<noteq> readylist s"
    using sched_okD(5) [of "{}" s qs] inv(1) sm(1) at_in_set [of "semtab s" "uidx sm"]
    by (force simp: q_def kinv_qs_def goodsem)
  ultimately show ?thesis using d(1) b(2-6) e1 unfolding only_ready_def by (intro exI conjI) auto
qed

lemma signal_good:
  assumes inv: "kinv s" and lt: "\<not> isbadsem s sm \<Longrightarrow> count (at (semtab s) (uidx sm)) < INT_MAX"
  shows "good kinv (thrcurrent s) (\<lambda>v s'. irq s' = irq s \<and> v = (if isbadsem s sm then SYSERR else OK)) (signal sm s)"
proof -
  obtain qs where qs: "kinv_qs s qs" "running s" using inv by (elim kinvE)
  consider (bad) "isbadsem s sm" | (free) "\<not> isbadsem s sm" "0 \<le> count (at (semtab s) (uidx sm))"
    | (wakes) "\<not> isbadsem s sm" "count (at (semtab s) (uidx sm)) < 0" by linarith
  then show ?thesis
  proof cases
    case bad
    then show ?thesis using inv by (simp add: signal_def disable_def restore_def)
  next
    case free
    have "kinv (sem_inc sm s)"
      by (rule kinvI [of _ qs]) (use signal_free [OF qs(1) free(1) lt] free qs(2) in \<open>simp_all add: running_def sem_inc_def\<close>)
    then show ?thesis using signal_free [OF qs(1) free(1) lt] free by (simp add: sem_inc_def)
  next
    case wakes
    obtain s2 qs2 where s2: "signal sm s = obind (resched s2) (\<lambda>_ s'. Done OK (restore (irq s) s'))"
        "kinv_qs s2 qs2" "thrcurrent s2 = thrcurrent s"
      using signal_wakes [OF qs wakes(1) lt [OF wakes(1)] wakes(2)] by blast
    have "good kinv (thrcurrent s) (\<lambda>v s'. irq s' = irq s \<and> v = OK)
        (obind (resched s2) (\<lambda>_ s'. Done OK (restore (irq s) s')))"
      by (rule kinv.good_restore [OF resched_good [OF s2(2), unfolded s2(3)]]) (simp add: restore_def)
    then show ?thesis using s2(1) wakes(1) by simp
  qed
qed

lemma signal1_no:
  assumes inv: "kinv_qs s qs" "running s" and sm: "\<not> isbadsem s sm" "count (at (semtab s) (uidx sm)) < INT_MAX"
  shows "\<exists>s' qs'. signal1 sm RESCHED_NO s = Done OK s' \<and> kinv_qs s' qs' \<and> running s' \<and>
    sched_frame (sem_inc sm s) s' \<and> thrcurrent s' = thrcurrent s \<and> irq s' = irq s"
proof (cases "count (at (semtab s) (uidx sm)) < 0")
  case False
  then show ?thesis using signal1_eq [OF inv(1) sm, of RESCHED_NO] signal_plain [OF inv(1) sm(1)] sm(2) inv(2)
    by (auto simp: sem_inc_def running_def sched_frame_refl)
next
  case True
  let ?q = "squeue (at (semtab s) (uidx sm))"
  obtain t xs qt' where d: "dequeue ?q (sem_inc sm s) = Some (t, (sem_inc sm s)\<lparr>quetab := qt'\<rparr>)"
      "sched_ok {t} ((sem_inc sm s)\<lparr>quetab := qt'\<rparr>) (qs(?q := xs))" "qat ((sem_inc sm s)\<lparr>quetab := qt'\<rparr>) (qs(?q := xs)) t None"
      "sem_ok ((sem_inc sm s)\<lparr>quetab := qt'\<rparr>) (qs(?q := xs))" "sleep_ok ((sem_inc sm s)\<lparr>quetab := qt'\<rparr>) (qs(?q := xs))"
      "same_keys (quetab s) qt' {}" "t \<noteq> thrcurrent s"
    using signal_dequeue [OF inv(1) sm(1) True] inv(2) by blast
  define s1 where "s1 = (sem_inc sm s)\<lparr>quetab := qt'\<rparr>"
  obtain s' qs' where r: "ready t RESCHED_NO s1 = Done OK s'" "sched_ok {} s' qs'" "only_ready s1 (qs(?q := xs)) s' qs'"
      "sched_frame s1 s'" "thrcurrent s' = thrcurrent s1" "irq s' = irq s1"
      "\<forall>u. inarr (thrtab s1) u \<and> u \<noteq> t \<longrightarrow> thr s' u = thr s1 u"
    using ready_no [OF d(2,3)] unfolding s1_def by blast
  have "kinv_qs s' qs'"
    using r(2) only_ready_sem_ok [OF r(3)] only_ready_sleep_ok [OF r(3)] d(2,4,5)
    unfolding kinv_qs_def s1_def by blast
  moreover have "running s'" using r(5,7) d(7) inv(2) sched_okD(7) [OF d(2)]
    by (simp add: running_def s1_def sem_inc_def)
  moreover have "sched_frame (sem_inc sm s) s1" unfolding s1_def
    by (rule sched_frame_steps(3)) (use d(6) in \<open>simp add: same_keys_def sem_inc_def\<close>)
  then have "sched_frame (sem_inc sm s) s'" using r(4) by (rule sched_frame_trans)
  moreover have "signal1 sm RESCHED_NO s = Done OK s'"
    using signal1_eq [OF inv(1) sm, of RESCHED_NO] True d(1) r(1) by (simp add: s1_def)
  ultimately show ?thesis using r(5,6) by (auto simp: s1_def sem_inc_def)
qed

lemma signaln_loop_ok:
  assumes "kinv_qs s qs" "running s" "\<not> isbadsem s sm" "count (at (semtab s) (uidx sm)) + int n \<le> INT_MAX"
  shows "\<exists>s' qs'. signaln_loop n sm s = Done OK s' \<and> kinv_qs s' qs' \<and> running s' \<and>
    thrcurrent s' = thrcurrent s \<and> irq s' = irq s \<and>
    semtab s' = upd (semtab s) (uidx sm) (count_update (\<lambda>c. c + int n))"
  using assms
proof (induction n arbitrary: s qs)
  case 0
  then show ?case by (auto simp: goodsem intro!: upd_id [symmetric])
next
  case (Suc n)
  from signal1_no [OF Suc.prems(1-3)] Suc.prems(4)
  obtain s1 qs1 where s1: "signal1 sm RESCHED_NO s = Done OK s1" "kinv_qs s1 qs1" "running s1"
      "sched_frame (sem_inc sm s) s1" "thrcurrent s1 = thrcurrent s" "irq s1 = irq s" by auto
  have i: "inarr (semtab s) (uidx sm)" using Suc.prems(3) by (simp add: goodsem)
  have st: "semtab s1 = upd (semtab s) (uidx sm) (count_update (\<lambda>c. c + 1))"
    using sched_frameD(4) [OF s1(4)] by (simp add: sem_inc_def)
  have "\<not> isbadsem s1 sm" using Suc.prems(3) st i by (simp add: goodsem)
  from Suc.IH [OF s1(2,3) this] st i Suc.prems(4)
  obtain s' qs' where "signaln_loop n sm s1 = Done OK s'" "kinv_qs s' qs'" "running s'"
      "thrcurrent s' = thrcurrent s1" "irq s' = irq s1"
      "semtab s' = upd (semtab s1) (uidx sm) (count_update (\<lambda>c. c + int n))" by auto
  with s1 st i show ?case by (auto simp: algebra_simps comp_def)
qed

lemma signaln_good:
  assumes inv: "kinv s" and n: "\<not> isbadsem s sm \<Longrightarrow> count (at (semtab s) (uidx sm)) + n \<le> INT_MAX"
  shows "good kinv (thrcurrent s) (\<lambda>v s'. irq s' = irq s \<and> v = (if isbadsem s sm \<or> n \<le> 0 then SYSERR else OK)) (signaln sm n s)"
proof (cases "isbadsem s sm \<or> n \<le> 0")
  case True
  then show ?thesis using inv by (auto simp: signaln_def disable_def restore_def)
next
  case False
  obtain qs where qs: "kinv_qs s qs" "running s" using inv by (elim kinvE)
  then have "kinv_qs (s\<lparr>irq := False\<rparr>) qs" "running (s\<lparr>irq := False\<rparr>)" by (simp_all add: kinv_qs_def)
  from signaln_loop_ok [OF this, of sm "nat n"] False n
  obtain s' qs' where l: "signaln_loop (nat n) sm (s\<lparr>irq := False\<rparr>) = Done OK s'" "kinv_qs s' qs'" "thrcurrent s' = thrcurrent s"
    by auto
  have "good kinv (thrcurrent s) (\<lambda>v s'. irq s' = irq s \<and> v = OK) (obind (resched s') (\<lambda>_ s'. Done OK (restore (irq s) s')))"
    using resched_good [OF l(2), unfolded l(3)] by (rule kinv.good_restore) (simp add: restore_def)
  with l(1) False show ?thesis by (simp add: signaln_def disable_def)
qed

text \<open>Creation takes a free slot when there is one; otherwise nothing but \<open>nextsem\<close> changes.\<close>

lemma uidx_of_int: "0 \<le> i \<Longrightarrow> i \<le> INT_MAX \<Longrightarrow> uidx (word_of_int i) = i"
  by (simp add: uidx_def c_consts uint_word_of_int_eq take_bit_int_eq_self)

lemma USYSERR_neq: "0 \<le> i \<Longrightarrow> i \<le> INT_MAX \<Longrightarrow> USYSERR \<noteq> word_of_int i"
proof
  assume i: "0 \<le> i" "i \<le> INT_MAX" and "USYSERR = word_of_int i"
  then have "uidx USYSERR = i" by (metis uidx_of_int)
  moreover have "uidx USYSERR = 4294967295" by (simp add: uidx_def USYSERR_def unsigned_minus_1_eq_mask mask_eq_exp_minus_1)
  ultimately show False using i by (simp add: c_consts)
qed

lemma semcreate_ok:
  assumes inv: "kinv s" and cnt: "0 \<le> cnt" "cnt \<le> INT_MAX"
    and j: "inarr (semtab s) j" "sstate (at (semtab s) j) = SFREE"
  shows "\<exists>i. inarr (semtab s) i \<and> sstate (at (semtab s) i) = SFREE \<and>
    semcreate cnt s = Some (word_of_int i, s\<lparr>nextsem := i,
      semtab := upd (semtab s) i (\<lambda>e. e\<lparr>sstate := SUSED, count := cnt\<rparr>)\<rparr>) \<and>
    kinv (s\<lparr>nextsem := i, semtab := upd (semtab s) i (\<lambda>e. e\<lparr>sstate := SUSED, count := cnt\<rparr>)\<rparr>)"
proof -
  obtain qs where qs: "sched_ok {} s qs" "sem_ok s qs" "sleep_ok s qs" "running s" using inv by (elim kinvE)
  let ?f = "\<lambda>e. e\<lparr>sstate := SUSED, count := cnt\<rparr>"
  obtain i where i: "0 \<le> i" "i < NSEM s" "sstate (at (semtab s) i) = SFREE"
      "semalloc_loop (length (semtab s)) (s\<lparr>irq := False\<rparr>) = Some (i, s\<lparr>irq := False, nextsem := i,
        semtab := upd (semtab s) i (sstate_update (\<lambda>_. SUSED))\<rparr>)"
    using sem_scan.scan_free [of j "s\<lparr>irq := False\<rparr>"] j by (auto simp: inarr_def)
  have b: "i \<le> INT_MAX" using i(2) sched_okD(16) [OF qs(1)] by linarith
  have iin: "inarr (semtab s) i" using i by (simp add: inarr_def)
  have "semcreate cnt s = Some (word_of_int i, s\<lparr>nextsem := i, semtab := upd (semtab s) i ?f\<rparr>)"
    using cnt i(4) iin uidx_of_int [OF i(1) b] USYSERR_neq [OF i(1) b]
    by (simp add: semcreate_def semalloc_def disable_def restore_def)
  moreover have "sem_ok (s\<lparr>semtab := upd (semtab s) i ?f\<rparr>) qs"
    by (rule sem_ok_upd [OF qs(1,2) iin]) (use qs(2) cnt iin i(3) in \<open>auto simp: sem_ok_at\<close>)
  then have "kinv (s\<lparr>semtab := upd (semtab s) i ?f\<rparr>)"
    using qs iin by (intro kinvI [of _ qs]) (simp_all add: kinv_qs_def sched_semtab running_def)
  then have "kinv (s\<lparr>nextsem := i, semtab := upd (semtab s) i ?f\<rparr>)"
    using same_core_inv(6) [of "s\<lparr>semtab := upd (semtab s) i ?f\<rparr>" "s\<lparr>nextsem := i, semtab := upd (semtab s) i ?f\<rparr>"]
    by (simp add: same_core_def)
  ultimately show ?thesis using iin i(3) by blast
qed

lemma semcreate_full:
  assumes inv: "kinv s" and "0 \<le> cnt" "0 < NSEM s" "\<forall>i. inarr (semtab s) i \<longrightarrow> sstate (at (semtab s) i) = SUSED"
  shows "\<exists>i. semcreate cnt s = Some (USYSERR, s\<lparr>nextsem := i\<rparr>) \<and> kinv (s\<lparr>nextsem := i\<rparr>)"
proof -
  obtain i where "semalloc_loop (length (semtab s)) (s\<lparr>irq := False\<rparr>) = Some (SYSERR, s\<lparr>irq := False, nextsem := i\<rparr>)"
  proof -
    have "semalloc_loop (length (semtab s)) (s\<lparr>irq := False\<rparr>) = Some (SYSERR, s\<lparr>irq := False, nextsem := nextsem s\<rparr>) \<or>
        (\<exists>i. semalloc_loop (length (semtab s)) (s\<lparr>irq := False\<rparr>) = Some (SYSERR, s\<lparr>irq := False, nextsem := i\<rparr>))"
      using sem_scan.scan_full [of "s\<lparr>irq := False\<rparr>" "length (semtab s)"] assms(3,4) by (simp add: inarr_def) blast
    then show ?thesis using that by blast
  qed
  moreover have "word_of_int SYSERR = USYSERR" by (simp add: SYSERR_def USYSERR_def)
  ultimately have "semcreate cnt s = Some (USYSERR, s\<lparr>nextsem := i\<rparr>)"
    using assms(2) by (simp add: semcreate_def semalloc_def disable_def restore_def)
  moreover have "kinv (s\<lparr>nextsem := i\<rparr>)"
    using same_core_inv(6) [of s "s\<lparr>nextsem := i\<rparr>"] inv by (simp add: same_core_def)
  ultimately show ?thesis by blast
qed

text \<open>\<open>semfree\<close> readies every waiting thread.\<close>

lemma semfree_loop_ok:
  assumes "sched_ok {} s qs" "q \<in> kqueues s" "q \<noteq> readylist s" "q \<noteq> sleepq s" "running s"
  shows "\<exists>s' qs'. semfree_loop q s = Some s' \<and> sched_ok {} s' qs' \<and> qs' q = [] \<and> running s' \<and>
    sched_frame s s' \<and> irq s' = irq s \<and> thrcurrent s' = thrcurrent s \<and>
    (\<forall>r. r \<noteq> q \<and> r \<noteq> readylist s \<longrightarrow> qs' r = qs r) \<and> delays s' qs' = delays s qs \<and>
    (\<forall>t \<in> set (qs q). state (thr s' t) = THRREADY) \<and>
    (\<forall>t. inarr (thrtab s) t \<and> t \<notin> set (qs q) \<longrightarrow> thr s' t = thr s t)"
  using assms
proof (induction "qs q" arbitrary: s qs)
  case Nil
  then have "nonempty s q = Some False" using qsys_isempty(2) [OF sched_okD(1) [OF Nil.prems(1)] Nil.prems(2)] by simp
  with Nil show ?case by (subst semfree_loop.simps) (auto simp: sched_frame_refl)
next
  case (Cons t xs)
  note D = sched_okD [OF Cons.prems(1)] and xs = Cons.hyps(2) [symmetric]
  have ne: "nonempty s q = Some True" using qsys_isempty(2) [OF D(1) Cons.prems(2)] xs by simp
  have dist: "t \<notin> set xs" using qsysD [OF D(1) Cons.prems(2)] xs by (simp add: qrep_def)
  obtain qt' where qt': "dequeue q s = Some (t, s\<lparr>quetab := qt'\<rparr>)"
      "sched_ok {t} (s\<lparr>quetab := qt'\<rparr>) (qs(q := xs))" "qat s (qs(q := xs)) t None" "same_keys (quetab s) qt' {}" "loc s t = Some q"
    using sched_dequeue [OF Cons.prems(1,2) xs] by auto
  define s1 where "s1 = s\<lparr>quetab := qt'\<rparr>"
  obtain s2 qs2 where s2: "ready t RESCHED_NO s1 = Done OK s2" "sched_ok {} s2 qs2" "only_ready s1 (qs(q := xs)) s2 qs2"
      "sched_frame s1 s2" "thrcurrent s2 = thrcurrent s1" "state (thr s2 t) = THRREADY" "irq s2 = irq s1"
      "\<forall>u. inarr (thrtab s1) u \<and> u \<noteq> t \<longrightarrow> thr s2 u = thr s1 u"
    using ready_no [of t "{}" s1 "qs(q := xs)"] qt'(2,3) unfolding s1_def by (simp only: qat_frame) blast
  have e: "readylist s2 = readylist s" "sleepq s2 = sleepq s" "kqueues s2 = kqueues s"
    using s2(3) by (simp_all add: only_ready_def s1_def kqueues_def)
  have q2: "qs2 q = xs" "\<And>r. r \<noteq> q \<Longrightarrow> r \<noteq> readylist s \<Longrightarrow> qs2 r = qs r"
    using s2(3) Cons.prems(3) by (auto simp: only_ready_def s1_def)
  have tc: "t \<noteq> thrcurrent s" using qt'(5) Cons.prems(5) by (auto simp: running_def loc_def)
  have run2: "running s2" using s2(5,8) tc Cons.prems(5) D(7) by (simp add: running_def s1_def)
  have "delays s2 qs2 = delays s1 (qs(q := xs))" using only_ready_delays [OF s2(3)] qt'(2) s1_def by blast
  also have "\<dots> = delays s qs"
    using qt'(4) key_in(1) [OF Cons.prems(1) D(3)] Cons.prems(4) by (auto simp: delays_def s1_def same_keys_def)
  finally have del: "delays s2 qs2 = delays s qs" .
  have "sched_frame s s1" unfolding s1_def by (rule sched_frame_steps(3)) (use qt'(4) in \<open>simp add: same_keys_def\<close>)
  then have fr: "sched_frame s s2" using s2(4) by (rule sched_frame_trans)
  have tin: "inarr (thrtab s) t" using key_in(2) [OF Cons.prems(1,2), of t] xs by simp
  from Cons.hyps(1) [of qs2 s2] q2(1) s2(2) e Cons.prems(2-4) run2
  obtain s' qs' where s': "semfree_loop q s2 = Some s'" "sched_ok {} s' qs'" "qs' q = []" "running s'"
      "sched_frame s2 s'" "irq s' = irq s2" "thrcurrent s' = thrcurrent s2"
      "\<forall>r. r \<noteq> q \<and> r \<noteq> readylist s \<longrightarrow> qs' r = qs2 r" "delays s' qs' = delays s2 qs2"
      "\<forall>t \<in> set xs. state (thr s' t) = THRREADY"
      "\<forall>t. inarr (thrtab s2) t \<and> t \<notin> set xs \<longrightarrow> thr s' t = thr s2 t"
    by auto
  have "semfree_loop q s = Some s'"
    using ne qt'(1) s2(1) s'(1) by (subst semfree_loop.simps) (simp add: s1_def)
  moreover have "inarr (thrtab s2) u = inarr (thrtab s) u" for u
    using sched_frameD(2) [OF fr] by (simp add: inarr_def)
  then have "state (thr s' t) = THRREADY" "\<forall>u. inarr (thrtab s) u \<and> u \<notin> set (t # xs) \<longrightarrow> thr s' u = thr s u"
    using s'(11) dist s2(6,8) tin by (auto simp: s1_def)
  ultimately show ?case
    using s' q2 del s2(5,7) sched_frame_trans [OF fr s'(5)] xs
    by (intro exI [of _ s'] exI [of _ qs']) (auto simp: s1_def)
qed

lemma semfree_ok:
  assumes inv: "kinv_qs s qs" "running s" and sm: "\<not> isbadsem s sm"
  defines "q \<equiv> squeue (at (semtab s) (uidx sm))"
  shows "\<exists>s' qs'. semfree sm s = Some (OK, s') \<and> kinv_qs s' qs' \<and> running s' \<and> thrcurrent s' = thrcurrent s \<and>
    irq s' = irq s \<and> semtab s' = upd (semtab s) (uidx sm) (\<lambda>e. e\<lparr>count := 0, sstate := SFREE\<rparr>) \<and> qs' q = [] \<and>
    (\<exists>qt tt st. s' = s\<lparr>quetab := qt, thrtab := tt, semtab := st\<rparr>) \<and>
    (\<forall>t \<in> set (qs q). state (thr s' t) = THRREADY) \<and>
    (\<forall>t. inarr (thrtab s) t \<and> t \<notin> set (qs q) \<longrightarrow> thr s' t = thr s t)"
proof -
  let ?s = "s\<lparr>irq := False\<rparr>" and ?i = "uidx sm"
  have ok: "sched_ok {} s qs" "sem_ok s qs" "sleep_ok s qs" using inv(1) by (simp_all add: kinv_qs_def)
  note D = sched_okD [OF ok(1)]
  have i: "inarr (semtab s) ?i" using sm by (simp add: goodsem)
  have q: "q \<in> kqueues s" "q \<noteq> readylist s" "q \<noteq> sleepq s"
    using D(5,6,14) at_in_set [OF i] by (auto simp: q_def image_iff)
  obtain s1 qs1 where s1: "semfree_loop q ?s = Some s1" "sched_ok {} s1 qs1" "qs1 q = []" "running s1"
      "sched_frame ?s s1" "thrcurrent s1 = thrcurrent s"
      "\<forall>r. r \<noteq> q \<and> r \<noteq> readylist s \<longrightarrow> qs1 r = qs r" "delays s1 qs1 = delays ?s qs"
      "\<forall>t \<in> set (qs q). state (thr s1 t) = THRREADY"
      "\<forall>t. inarr (thrtab s) t \<and> t \<notin> set (qs q) \<longrightarrow> thr s1 t = thr s t"
    using semfree_loop_ok [of ?s qs q] ok(1) q inv(2) by auto
  have st: "semtab s1 = semtab s" using sched_frameD(4) [OF s1(5)] by simp
  let ?f = "\<lambda>e. e\<lparr>count := 0, sstate := SFREE\<rparr>"
  define s' where "s' = s1\<lparr>semtab := upd (semtab s) ?i ?f, irq := irq s\<rparr>"
  have "semfree sm s = Some (OK, s')"
    using sm i s1(1) st by (simp add: semfree_def disable_def restore_def s'_def q_def)
  moreover have "sem_ok (s\<lparr>semtab := upd (semtab s) ?i ?f\<rparr>) qs1"
    by (rule sem_ok_upd [OF ok(1,2) i]) (use s1(3,7) D(5) in \<open>auto simp: q_def c_consts image_iff\<close>)
  then have "kinv_qs s' qs1"
    using s1(2,8) ok(3) i st
    by (auto simp: kinv_qs_def s'_def sched_semtab sem_ok_def sleep_ok_def delays_def)
  moreover have "running s'" using s1(4) by (simp add: s'_def running_def)
  moreover have "semtab s' = upd (semtab s) ?i (\<lambda>e. e\<lparr>count := 0, sstate := SFREE\<rparr>)"
    by (simp add: s'_def)
  moreover have "\<exists>qt tt st. s' = s\<lparr>quetab := qt, thrtab := tt, semtab := st\<rparr>"
  proof -
    obtain qt tt b where "s1 = s\<lparr>quetab := qt, thrtab := tt, irq := b\<rparr>"
      using s1(5,6) by (auto simp: sched_frame_def)
    then have "s' = s\<lparr>quetab := qt, thrtab := tt, semtab := upd (semtab s) ?i ?f\<rparr>" by (simp add: s'_def)
    then show ?thesis by blast
  qed
  ultimately show ?thesis using s1(3,6,9,10)
    by (intro exI [of _ s'] exI [of _ qs1]) (simp add: s'_def)
qed

lemma semfree_good:
  assumes inv: "kinv s"
  shows "\<exists>v s'. semfree sm s = Some (v, s') \<and> kinv s' \<and> thrcurrent s' = thrcurrent s \<and> irq s' = irq s \<and>
    v = (if isbadsem s sm then SYSERR else OK) \<and> (\<exists>qt tt st. s' = s\<lparr>quetab := qt, thrtab := tt, semtab := st\<rparr>)"
proof (cases "isbadsem s sm")
  case True
  have "s = s\<lparr>quetab := quetab s, thrtab := thrtab s, semtab := semtab s\<rparr>" by simp
  moreover have "semfree sm s = Some (SYSERR, s)" using True by (simp add: semfree_def disable_def restore_def)
  ultimately show ?thesis using inv True by metis
next
  case False
  obtain qs where qs: "kinv_qs s qs" "running s" using inv by (elim kinvE)
  obtain s' qs' where "semfree sm s = Some (OK, s')" "kinv_qs s' qs'" "running s'" "thrcurrent s' = thrcurrent s"
      "irq s' = irq s" "\<exists>qt tt st. s' = s\<lparr>quetab := qt, thrtab := tt, semtab := st\<rparr>"
    using semfree_ok [OF qs False] by (elim exE conjE) (rule that; blast)
  then show ?thesis using False kinvI by (intro exI [of _ OK] exI [of _ s'] conjI) simp_all
qed

end
