(* ===== verification/Demo_State.thy ===== *)
theory Demo_State
  imports Semaphore_Calls
begin

text \<open>
  A small concrete configuration: four threads, two semaphores, one monitor, one mailbox and
  one buffer pool. The null thread is ready, thread 1 runs, thread 2 waits on semaphore 0 and
  thread 3 sleeps for five ticks. Witnesses are evaluated on it and on states derived from it.
\<close>

definition demo_thr :: "thrstate \<Rightarrow> int \<Rightarrow> thrent" where
  "demo_thr st p = \<lparr>state = st, prio = p, stkptr = 0, stkbase = 0, stklen = 128, name = ''demo'', intmask = True,
     sem = 0, parent = 0, msg = 0, hasmsg = False, tmem_next = 0, tmem_length = 0, fdesc = [0, 0, 0, 0, 0]\<rparr>"

definition qe :: "int \<Rightarrow> int \<Rightarrow> int \<Rightarrow> queent" where
  "qe k n p = \<lparr>qkey = k, qnext = n, qprev = p\<rparr>"

text \<open>Queues: 4 is the ready list, 6 the sleep queue, 8 and 10 belong to the semaphores.\<close>

definition demo_quetab :: "queent list" where
  "demo_quetab = [
     qe 0 5 4, qe 20 EMPTY EMPTY, qe 0 9 8, qe 5 7 6,
     qe MAXKEY 0 EMPTY, qe MINKEY EMPTY 0,
     qe MAXKEY 3 EMPTY, qe MINKEY EMPTY 3,
     qe MAXKEY 2 EMPTY, qe MINKEY EMPTY 2,
     qe MAXKEY 11 EMPTY, qe MINKEY EMPTY 10]"

definition demo :: kstate where
  "demo = \<lparr>quetab = demo_quetab, nextqid = 12, readylist = 4, sleepq = 6,
     thrtab = [demo_thr THRREADY 0, demo_thr THRCURR 20, demo_thr THRWAIT 20, demo_thr THRSLEEP 20],
     thrcount = 4, thrcurrent = 1, nexttid = 3, resdefer = 0,
     semtab = [\<lparr>sstate = SUSED, count = - 1, squeue = 8\<rparr>, \<lparr>sstate = SUSED, count = 1, squeue = 10\<rparr>],
     nextsem = 1, montab = [\<lparr>mstate = MUSED, owner = NOOWNER, mcount = 0, msem = 1\<rparr>], nextmon = 0,
     mboxtab = [\<lparr>sender = 0, receiver = 0, mbmax = 0, mbcount = 0, mbstart = 0, mbstate = MAILBOX_FREE, msgs = 0\<rparr>],
     mboxtabsem = 1, nextmbx = 0,
     bfptab = [\<lparr>bfpstate = BFPFREE, bufsize = 0, nbuf = 0, bfphead = 0, bfpnext = 0, freebuf = 0\<rparr>],
     clkticks = 0, clktime = 0, irq = True,
     mem = (\<lambda>_. 0)(8196 := 8192), memlist_next = 8192, memlist_length = 8192,
     memheap = 8192, maxaddr = 16384\<rparr>"

definition demo_qs :: "int \<Rightarrow> int list" where
  "demo_qs = (\<lambda>_. [])(4 := [0], 6 := [3], 8 := [2])"

lemmas demo_defs = demo_def demo_thr_def demo_quetab_def qe_def demo_qs_def

lemma at_num [simp]: "at xs 0 = xs ! 0" "at xs 1 = xs ! 1" "at xs (numeral k) = xs ! numeral k"
  by (simp_all add: at_def)

lemma inarr_Cons: "inarr (x # xs) i \<longleftrightarrow> i = 0 \<or> inarr xs (i - 1)"
  by (auto simp: inarr_def)

lemma inarr_Nil [simp]: "\<not> inarr [] i"
  by (simp add: inarr_def)

lemma demo_threads: "inarr (thrtab demo) t \<longleftrightarrow> t \<in> {0, 1, 2, 3}"
  by (auto simp: demo_defs inarr_def)

lemma demo_qsys: "qsys (quetab demo) (NTHREAD demo) (kqueues demo) demo_qs"
  by (auto simp: demo_defs qsys_def qrep_def kqueues_def)

lemma demo_kinv_qs: "kinv_qs demo demo_qs"
proof -
  have "thr_ok {} demo demo_qs t" if "t \<in> {0, 1, 2, 3}" for t
    using that by (auto simp: demo_defs thr_ok_def qat_def loc_def kqueues_def c_consts uidx_def inarr_def)
  then have "sched_ok {} demo demo_qs"
    using demo_qsys by (simp add: sched_ok_def demo_threads) (simp add: demo_defs c_consts)
  moreover have "sem_ok demo demo_qs" "sleep_ok demo demo_qs"
    by (simp_all add: sem_ok_def sleep_ok_def delays_def demo_defs c_consts)
  ultimately show ?thesis by (simp add: kinv_qs_def)
qed

lemma demo_kinv: "kinv demo"
  by (rule kinvI [OF demo_kinv_qs]) (simp add: running_def demo_defs)

end
