(* ===== verification/Queue_Properties.thy ===== *)
theory Queue_Properties
  imports Queue_Contract Demo_State
begin

text \<open>The properties of the thread queues, with concrete instances on the example state.\<close>

section \<open>First in, first out\<close>

text \<open>
  C1. Threads that are put into an empty queue one after the other by \<open>enqueue\<close> come out of
  \<open>dequeue\<close> in the same order, whatever other queues share the table.
\<close>

theorem queue_fifo:
  assumes "qsys (quetab s) (NTHREAD s) Q qs" "q \<in> Q" "qs q = []"
    and "\<forall>t \<in> set ts. \<not> isbadtid s t \<and> unqueued Q qs t" "distinct ts"
  shows "\<exists>s' s''. enqueue_all ts q s = Some s' \<and> dequeue_n (length ts) q s' = Some (ts, s'')"
  using tq.fifo_order [OF assms] by (simp add: enqueue_all_eq dequeue_n_eq)

lemma demo_unqueued: "unqueued (kqueues demo) demo_qs 1" "\<not> isbadtid demo 1" "10 \<in> kqueues demo" "demo_qs 10 = []"
  by (simp_all add: unqueued_def kqueues_def demo_defs isbadtid_def)

theorem queue_fifo_witness:
  "\<exists>s' s''. enqueue_all [1] 10 demo = Some s' \<and> dequeue_n 1 10 s' = Some ([1], s'')"
  using queue_fifo [OF demo_qsys demo_unqueued(3,4), of "[1]"] demo_unqueued(1,2) by simp

text \<open>
  C2. \<open>getitem\<close> takes exactly the given thread out of the queue it is in, from any position;
  the order of the other threads, all other queues and all keys stay as they were, and the
  thread's links are reset.
\<close>

theorem getitem_removes:
  assumes "qsys (quetab s) (NTHREAD s) Q qs" "q \<in> Q" "qs q = xs @ t # ys"
  shows "\<exists>qt'. getitem t s = Some (t, s\<lparr>quetab := qt'\<rparr>) \<and> qsys qt' (NTHREAD s) Q (qs(q := xs @ ys)) \<and>
    same_keys (quetab s) qt' {} \<and> qnext (at qt' t) = EMPTY \<and> qprev (at qt' t) = EMPTY"
  by (rule getitem_refines [OF assms])

theorem getitem_removes_witness:
  "\<exists>qt'. getitem 2 demo = Some (2, demo\<lparr>quetab := qt'\<rparr>) \<and>
    qsys qt' (NTHREAD demo) (kqueues demo) (demo_qs(8 := [] @ [])) \<and>
    same_keys (quetab demo) qt' {} \<and> qnext (at qt' 2) = EMPTY \<and> qprev (at qt' 2) = EMPTY"
  by (rule getitem_removes [OF demo_qsys]) (simp_all add: demo_defs kqueues_def)

section \<open>Insertion by key\<close>

lemma dropWhile_desc:
  "sorted_wrt (\<lambda>x y. h y \<le> h x) xs \<Longrightarrow> y \<in> set (dropWhile (\<lambda>x. h x \<ge> (k :: int)) xs) \<Longrightarrow> h y < k"
  by (induction xs) (auto split: if_splits)

text \<open>
  C3. \<open>insert\<close> keeps a queue in descending key order and is stable: the new thread comes
  behind every thread with a key at least as large and before every thread with a smaller one.
\<close>

theorem insert_sorted:
  assumes "qsys (quetab s) (NTHREAD s) Q qs" "q \<in> Q" "\<not> isbadtid s t" "unqueued Q qs t" "MINKEY < k"
    and "sorted_wrt (\<lambda>x y. qkey (at (quetab s) y) \<le> qkey (at (quetab s) x)) (qs q)"
  shows "\<exists>qt' xs ys. insertq t q k s = Some (OK, s\<lparr>quetab := qt'\<rparr>) \<and> qs q = xs @ ys \<and>
    qsys qt' (NTHREAD s) Q (qs(q := xs @ t # ys)) \<and>
    sorted_wrt (\<lambda>x y. qkey (at qt' y) \<le> qkey (at qt' x)) (xs @ t # ys) \<and>
    (\<forall>x \<in> set xs. k \<le> qkey (at (quetab s) x)) \<and> (\<forall>y \<in> set ys. qkey (at (quetab s) y) < k)"
proof -
  let ?key = "\<lambda>x. qkey (at (quetab s) x)"
  let ?xs = "takeWhile (\<lambda>x. ?key x \<ge> k) (qs q)" and ?ys = "dropWhile (\<lambda>x. ?key x \<ge> k) (qs q)"
  obtain qt' where qt': "insertq t q k s = Some (OK, s\<lparr>quetab := qt'\<rparr>)"
      "qsys qt' (NTHREAD s) Q (qs(q := insert_desc ?key t k (qs q)))" "same_keys (quetab s) qt' {t}" "qkey (at qt' t) = k"
    using insertq_refines [OF assms(1-5)] by blast
  have nt: "t \<notin> set (qs q)" using assms(2,4) by (auto simp: unqueued_def)
  have "qkey (at qt' x) = (?key(t := k)) x" if "x \<in> set (insert_desc ?key t k (qs q))" for x
    using that qt'(3,4) qsys_thread(3) [OF assms(1,2)] by (auto simp: same_keys_def)
  then have "sorted_wrt (\<lambda>x y. qkey (at qt' y) \<le> qkey (at qt' x)) (insert_desc ?key t k (qs q))"
    using insert_desc_sorted [OF assms(6) nt, of k] by (auto intro: sorted_wrt_mono_rel [rotated])
  moreover have "\<forall>y \<in> set ?ys. ?key y < k"
    using dropWhile_desc [OF assms(6)] by blast
  ultimately show ?thesis using qt'(1,2)
    by (intro exI [of _ qt'] exI [of _ ?xs] exI [of _ ?ys]) (auto simp: insert_desc_def dest: set_takeWhileD)
qed

theorem insert_sorted_witness:
  "\<exists>qt' xs ys. insertq 1 4 20 demo = Some (OK, demo\<lparr>quetab := qt'\<rparr>) \<and> demo_qs 4 = xs @ ys \<and>
    qsys qt' (NTHREAD demo) (kqueues demo) (demo_qs(4 := xs @ 1 # ys)) \<and>
    sorted_wrt (\<lambda>x y. qkey (at qt' y) \<le> qkey (at qt' x)) (xs @ 1 # ys) \<and>
    (\<forall>x \<in> set xs. 20 \<le> qkey (at (quetab demo) x)) \<and> (\<forall>y \<in> set ys. qkey (at (quetab demo) y) < 20)"
  by (rule insert_sorted [OF demo_qsys _ demo_unqueued(2,1)])
    (simp_all add: kqueues_def demo_defs c_consts)

text \<open>
  C4. \<open>insertd\<close> on a delta queue inserts the thread by its absolute delay and leaves the
  absolute delay of every other thread unchanged, although it rewrites a stored key.
\<close>

theorem insertd_delays:
  assumes "qsys (quetab s) (NTHREAD s) Q qs" "q \<in> Q" "\<not> isbadtid s t" "unqueued Q qs t"
    and "0 \<le> k" "k \<le> INT_MAX"
    and "\<forall>x \<in> set (qs q). 0 \<le> qkey (at (quetab s) x) \<and> qkey (at (quetab s) x) \<le> INT_MAX"
  defines "before \<equiv> wake 0 (keyed (quetab s) (qs q))"
  shows "\<exists>qt' xs'. insertd t q k s = Some (OK, s\<lparr>quetab := qt'\<rparr>) \<and> qsys qt' (NTHREAD s) Q (qs(q := xs')) \<and>
    wake 0 (keyed qt' xs') = takeWhile (\<lambda>p. snd p \<le> k) before @ (t, k) # dropWhile (\<lambda>p. snd p \<le> k) before"
  using insertd_refines [OF assms(1-7)] wake_dins [of 0 t k] unfolding before_def by fastforce

theorem insertd_delays_witness:
  "\<exists>qt' xs'. insertd 1 6 3 demo = Some (OK, demo\<lparr>quetab := qt'\<rparr>) \<and>
    qsys qt' (NTHREAD demo) (kqueues demo) (demo_qs(6 := xs')) \<and> wake 0 (keyed qt' xs') = [(1, 3), (3, 5)]"
proof -
  have "6 \<in> kqueues demo" "wake 0 (keyed (quetab demo) (demo_qs 6)) = [(3, 5)]"
    "\<forall>x \<in> set (demo_qs 6). 0 \<le> qkey (at (quetab demo) x) \<and> qkey (at (quetab demo) x) \<le> INT_MAX"
    by (simp_all add: kqueues_def demo_defs c_consts)
  with insertd_delays [OF demo_qsys _ demo_unqueued(2,1), of 6 3] show ?thesis by (simp add: c_consts)
qed

section \<open>Limits\<close>

text \<open>
  \<open>queinit\<close> called once more than the table has room for does not report the error its
  comment promises: the test \<open>nextqid > NQENT\<close> admits the index one past the end, and the
  queue head is written outside the array.
\<close>

theorem queinit_overrun: "nextqid s = NQENT s \<Longrightarrow> queinit s = None"
  by (simp add: queinit_def aupd_def quehead_def)

theorem queinit_overrun_witness: "nextqid demo = NQENT demo \<and> queinit demo = None"
  using queinit_overrun [of demo] by (simp add: demo_defs)

text \<open>
  A thread cannot be inserted with the key \<open>MINKEY\<close>, although \<open>queue.h\<close> calls it the
  smallest key that can be saved in a queue: the search of \<open>insert\<close> does not stop at the tail,
  whose key it is not below, and follows the tail's \<open>EMPTY\<close> link out of the table.
\<close>

theorem insert_minkey_faults:
  assumes "qsys (quetab s) (NTHREAD s) Q qs" "q \<in> Q" "\<not> isbadtid s t"
    and "\<forall>x \<in> set (qs q). MINKEY \<le> qkey (at (quetab s) x)" "qnext (at (quetab s) (q + 1)) = EMPTY"
  shows "insertq t q MINKEY s = None"
proof -
  note rep = qsysD [OF assms(1,2)] and ends = qsys_ends [OF assms(1,2)]
  have "insert_loop (quetab s) MINKEY (hd (qs q @ [q + 1])) = None"
    by (rule insert_loop_minkey [where a = q]) (use rep assms(4,5) ends qrep_nodes [OF rep] in \<open>auto simp: qrep_def\<close>)
  then show ?thesis
    using qsys_goodqid [OF assms(1,2)] assms(3) ends by (simp add: insertq_def quehead_def)
qed

theorem insert_minkey_faults_witness: "insertq 1 4 MINKEY demo = None"
  by (rule insert_minkey_faults [OF demo_qsys _ demo_unqueued(2)])
    (simp_all add: kqueues_def demo_defs c_consts)

end
