(* ===== verification/Memory.thy ===== *)
theory Memory
  imports Kernel_State
begin

unbundle bit_operations_syntax

text \<open>
  The kernel heap of \<open>memory.h\<close>, \<open>memget.c\<close>, \<open>memfree.c\<close> and \<open>stkget.c\<close>.
  Free blocks are linked through the heap itself: a \<open>struct memblock\<close> at address \<open>a\<close>
  has its \<open>next\<close> pointer at \<open>a\<close> and its \<open>length\<close> at \<open>a + 4\<close>. The list head
  \<open>memlist\<close> is a global outside the heap, so a pointer to a block is either
  \<open>MEMLIST\<close> or a heap address.
\<close>

section \<open>Heap accesses\<close>

definition heap_word :: "kstate \<Rightarrow> u32 \<Rightarrow> bool" where
  "heap_word s a \<longleftrightarrow> memheap s \<le> a \<and> a < maxaddr s \<and> a AND 3 = 0"

definition ld :: "kstate \<Rightarrow> u32 \<Rightarrow> u32 option" where
  "ld s a = (if heap_word s a then Some (mem s a) else None)"

definition st :: "u32 \<Rightarrow> u32 \<Rightarrow> kstate \<Rightarrow> kstate option" where
  "st a v s = (if heap_word s a then Some (s\<lparr>mem := (mem s)(a := v)\<rparr>) else None)"

datatype mbptr = MEMLIST | BLK u32

definition mb_next :: "kstate \<Rightarrow> mbptr \<Rightarrow> u32 option" where
  "mb_next s p = (case p of MEMLIST \<Rightarrow> Some (memlist_next s) | BLK a \<Rightarrow> ld s a)"

definition mb_length :: "kstate \<Rightarrow> mbptr \<Rightarrow> u32 option" where
  "mb_length s p = (case p of MEMLIST \<Rightarrow> Some (memlist_length s) | BLK a \<Rightarrow> ld s (a + 4))"

definition set_mb_next :: "mbptr \<Rightarrow> u32 \<Rightarrow> kstate \<Rightarrow> kstate option" where
  "set_mb_next p v s = (case p of MEMLIST \<Rightarrow> Some (s\<lparr>memlist_next := v\<rparr>) | BLK a \<Rightarrow> st a v s)"

definition set_mb_length :: "mbptr \<Rightarrow> u32 \<Rightarrow> kstate \<Rightarrow> kstate option" where
  "set_mb_length p v s = (case p of MEMLIST \<Rightarrow> Some (s\<lparr>memlist_length := v\<rparr>) | BLK a \<Rightarrow> st (a + 4) v s)"

section \<open>The operations\<close>

definition roundmb :: "u32 \<Rightarrow> u32" where "roundmb x = (7 + x) AND NOT 7"
definition truncmb :: "u32 \<Rightarrow> u32" where "truncmb x = x AND NOT 7"

text \<open>\<open>memget.c\<close>: the first block that is large enough, split if it is larger.\<close>

partial_function (option) memget_loop ::
  "u32 \<Rightarrow> mbptr \<Rightarrow> u32 \<Rightarrow> kstate \<Rightarrow> (u32 \<times> kstate) option" where
  "memget_loop nbytes prev cur s =
     (if cur = 0 then Some (USYSERR, s)
      else do {
        len \<leftarrow> ld s (cur + 4);
        if len = nbytes
        then do {
          nx \<leftarrow> ld s cur;
          s \<leftarrow> set_mb_next prev nx s;
          Some (cur, s\<lparr>memlist_length := memlist_length s - nbytes\<rparr>) }
        else if len > nbytes
        then do {
          let leftover = cur + nbytes;
          s \<leftarrow> set_mb_next prev leftover s;
          nx \<leftarrow> ld s cur;
          s \<leftarrow> st leftover nx s;
          len \<leftarrow> ld s (cur + 4);
          s \<leftarrow> st (leftover + 4) (len - nbytes) s;
          Some (cur, s\<lparr>memlist_length := memlist_length s - nbytes\<rparr>) }
        else do {
          nx \<leftarrow> ld s cur;
          memget_loop nbytes (BLK cur) nx s } })"

declare memget_loop.simps [code]

definition memget :: "u32 \<Rightarrow> kstate \<Rightarrow> (u32 \<times> kstate) option" where
  "memget nbytes s =
     (if nbytes = 0 then Some (USYSERR, s)
      else do {
        let nbytes = roundmb nbytes;
        let (im, s) = disable s;
        (p, s) \<leftarrow> memget_loop nbytes MEMLIST (memlist_next s) s;
        Some (p, restore im s) })"

text \<open>\<open>memfree.c\<close>: find the neighbours, check for overlap, link in and coalesce.\<close>

partial_function (option) memfree_loop ::
  "u32 \<Rightarrow> mbptr \<Rightarrow> u32 \<Rightarrow> kstate \<Rightarrow> (mbptr \<times> u32) option" where
  "memfree_loop block prev next s =
     (if next \<noteq> 0 \<and> next < block
      then do { nx \<leftarrow> ld s next; memfree_loop block (BLK next) nx s }
      else Some (prev, next))"

text \<open>The part of \<open>memfree\<close> that links the block in, or extends the block below it.\<close>

declare memfree_loop.simps [code]

definition memfree_link :: "mbptr \<Rightarrow> u32 \<Rightarrow> u32 \<Rightarrow> u32 \<Rightarrow> u32 \<Rightarrow> kstate \<Rightarrow> (mbptr \<times> kstate) option" where
  "memfree_link prev next tp block nbytes s =
     (if tp = block
      then do {
        l \<leftarrow> mb_length s prev;
        s \<leftarrow> set_mb_length prev (l + nbytes) s;
        Some (prev, s) }
      else do {
        s \<leftarrow> st block next s;
        s \<leftarrow> st (block + 4) nbytes s;
        s \<leftarrow> set_mb_next prev block s;
        Some (BLK block, s) })"

text \<open>The part that joins the block with the one above it.\<close>

definition memfree_coalesce :: "mbptr \<Rightarrow> u32 \<Rightarrow> kstate \<Rightarrow> kstate option" where
  "memfree_coalesce blk next s = do {
     l \<leftarrow> mb_length s blk;
     if (case blk of MEMLIST \<Rightarrow> 0 | BLK b \<Rightarrow> b) + l = next
     then do {
       ln \<leftarrow> ld s (next + 4);
       s \<leftarrow> set_mb_length blk (l + ln) s;
       nn \<leftarrow> ld s next;
       set_mb_next blk nn s }
     else Some s }"

definition memfree :: "u32 \<Rightarrow> u32 \<Rightarrow> kstate \<Rightarrow> (int \<times> kstate) option" where
  "memfree memptr nbytes s =
     (if nbytes = 0 \<or> memptr < memheap s \<or> memptr > maxaddr s then Some (SYSERR, s)
      else do {
        let block = memptr;
        let nbytes = roundmb nbytes;
        let (im, s) = disable s;
        (prev, next) \<leftarrow> memfree_loop block MEMLIST (memlist_next s) s;
        tp \<leftarrow> (case prev of MEMLIST \<Rightarrow> Some 0
                | BLK p \<Rightarrow> do { l \<leftarrow> mb_length s prev; Some (p + l) });
        if tp > block \<or> (next \<noteq> 0 \<and> block + nbytes > next)
        then Some (SYSERR, restore im s)
        else do {
          s \<leftarrow> Some (s\<lparr>memlist_length := memlist_length s + nbytes\<rparr>);
          (blk, s) \<leftarrow> memfree_link prev next tp block nbytes s;
          s \<leftarrow> memfree_coalesce blk next s;
          Some (OK, restore im s) } })"

text \<open>\<open>stkget.c\<close>: the highest block that fits, of which the top part is taken.\<close>

partial_function (option) stkget_loop ::
  "u32 \<Rightarrow> mbptr \<Rightarrow> u32 \<Rightarrow> (mbptr \<times> u32) \<Rightarrow> kstate \<Rightarrow> (mbptr \<times> u32) option" where
  "stkget_loop nbytes prev next fit s =
     (if next = 0 then Some fit
      else do {
        len \<leftarrow> ld s (next + 4);
        nx \<leftarrow> ld s next;
        stkget_loop nbytes (BLK next) nx (if len \<ge> nbytes then (prev, next) else fit) s })"

declare stkget_loop.simps [code]

definition stkget :: "u32 \<Rightarrow> kstate \<Rightarrow> (u32 \<times> kstate) option" where
  "stkget nbytes s =
     (if nbytes = 0 then Some (USYSERR, s)
      else do {
        let nbytes = roundmb nbytes;
        let (im, s) = disable s;
        (fitsprev, fits) \<leftarrow> stkget_loop nbytes MEMLIST (memlist_next s) (MEMLIST, 0) s;
        if fits = 0 then Some (USYSERR, restore im s)
        else do {
          len \<leftarrow> ld s (fits + 4);
          (fits, s) \<leftarrow>
            (if nbytes = len
             then do { nx \<leftarrow> ld s fits; s \<leftarrow> set_mb_next fitsprev nx s; Some (fits, s) }
             else do { s \<leftarrow> st (fits + 4) (len - nbytes) s; Some (fits + (len - nbytes), s) });
          s \<leftarrow> Some (s\<lparr>memlist_length := memlist_length s - nbytes\<rparr>);
          Some (fits + nbytes - 4, restore im s) } })"

text \<open>The macro \<open>stkfree\<close> of \<open>memory.h\<close>.\<close>

definition stkfree :: "u32 \<Rightarrow> u32 \<Rightarrow> kstate \<Rightarrow> (int \<times> kstate) option" where
  "stkfree p len s = memfree (p - roundmb len + 4) (roundmb len) s"

section \<open>Free lists\<close>

text \<open>
  \<open>mpath m a bs e\<close>: starting with pointer \<open>a\<close>, the blocks \<open>bs\<close> (address and length)
  are linked in this order and the last one points to \<open>e\<close>.
\<close>

fun mpath :: "(u32 \<Rightarrow> u32) \<Rightarrow> u32 \<Rightarrow> (u32 \<times> u32) list \<Rightarrow> u32 \<Rightarrow> bool" where
  "mpath m a [] e \<longleftrightarrow> a = e"
| "mpath m a ((b, n) # bs) e \<longleftrightarrow> a = b \<and> m (b + 4) = n \<and> mpath m (m b) bs e"

text \<open>
  \<open>mok lo hi bs\<close>: the blocks lie between \<open>lo\<close> and \<open>hi\<close> in ascending order, are
  aligned and not empty, and no two of them touch.
\<close>

fun mok :: "nat \<Rightarrow> nat \<Rightarrow> (u32 \<times> u32) list \<Rightarrow> bool" where
  "mok lo hi [] \<longleftrightarrow> True"
| "mok lo hi ((b, n) # bs) \<longleftrightarrow> lo \<le> unat b \<and> 8 dvd unat b \<and> 8 dvd unat n \<and> 0 < unat n
     \<and> unat b + unat n \<le> hi \<and> mok (unat b + unat n + 1) hi bs"

definition mtotal :: "(u32 \<times> u32) list \<Rightarrow> nat" where
  "mtotal bs = (\<Sum>(b, n) \<leftarrow> bs. unat n)"

definition minv :: "kstate \<Rightarrow> (u32 \<times> u32) list \<Rightarrow> bool" where
  "minv s bs \<longleftrightarrow> mpath (mem s) (memlist_next s) bs 0 \<and> mok (unat (memheap s)) (unat (maxaddr s)) bs
     \<and> 0 < unat (memheap s) \<and> 8 dvd unat (memheap s) \<and> 8 dvd unat (maxaddr s)
     \<and> unat (memlist_length s) = mtotal bs"

text \<open>The byte addresses that are free.\<close>

definition blk_bytes :: "u32 \<Rightarrow> u32 \<Rightarrow> nat set" where
  "blk_bytes b n = {unat b ..< unat b + unat n}"

definition free_bytes :: "(u32 \<times> u32) list \<Rightarrow> nat set" where
  "free_bytes bs = (\<Union>(b, n) \<in> set bs. blk_bytes b n)"

end
