(* ===== verification/Memory_Refinement.thy ===== *)
theory Memory_Refinement
  imports Memory
begin

unbundle bit_operations_syntax

text \<open>
  The heap operations as operations on the list of free blocks, and on the set of free bytes:
  \<open>memget\<close> is first fit from below, \<open>stkget\<close> takes from the top of the highest block
  that fits, and \<open>memfree\<close> gives back exactly the bytes of the block and coalesces.
\<close>

section \<open>Alignment\<close>

lemma and_not_7: "w AND NOT (7 :: u32) = push_bit 3 (drop_bit 3 w)"
proof -
  have "(7 :: u32) = mask 3" by (simp add: mask_eq_exp_minus_1)
  then show ?thesis by (simp add: bit_eq_iff) (auto simp: bit_simps)
qed

lemma unat_and_not_7: "unat (w AND - 8 :: u32) = unat w div 8 * 8"
proof -
  have "unat w div 8 * 8 < 4294967296" using unat_lt32 [of w] by linarith
  moreover have "w AND - 8 = push_bit 3 (drop_bit 3 w)" using and_not_7 [of w] by simp
  ultimately show ?thesis
    by (simp add: push_bit_eq_mult drop_bit_eq_div unat_word_ariths unat_div_distrib)
qed

lemma and_3_eq_0: "(w :: u32) AND 3 = 0 \<longleftrightarrow> 4 dvd unat w"
proof -
  have "w AND 3 = w AND mask 2" by (simp add: mask_eq_exp_minus_1)
  also have "\<dots> = w mod 4" by (simp add: take_bit_eq_mod flip: take_bit_eq_mask)
  finally have "w AND 3 = w mod 4" .
  moreover have "unat (w mod 4) = unat w mod 4" by (simp add: unat_mod_distrib)
  ultimately show ?thesis by (metis dvd_eq_mod_eq_0 unat_eq_zero)
qed

lemma roundmb_aligned: "8 dvd unat (roundmb x)"
  by (simp add: roundmb_def unat_and_not_7)

lemma unat_roundmb:
  assumes "unat x \<le> 4294967288"
  shows "unat (roundmb x) = (unat x + 7) div 8 * 8"
proof -
  have "unat (7 + x) = 7 + unat x" using assms by (subst unat_add32) auto
  then show ?thesis by (simp add: roundmb_def unat_and_not_7 add.commute)
qed

lemma roundmb_pos: "x \<noteq> 0 \<Longrightarrow> unat x \<le> 4294967288 \<Longrightarrow> 0 < unat (roundmb x)"
  using unat_eq_zero [of x] by (simp add: unat_roundmb)

lemma roundmb_idem [simp]: "8 dvd unat x \<Longrightarrow> roundmb x = x"
proof (rule word_unat_eq_iff [THEN iffD2])
  assume a: "8 dvd unat x"
  then have "unat x \<le> 4294967288" using unat_lt32 [of x] by presburger
  with a show "unat (roundmb x) = unat x" by (simp add: unat_roundmb) presburger
qed

lemma heap_word_iff:
  "heap_word s a \<longleftrightarrow> unat (memheap s) \<le> unat a \<and> unat a < unat (maxaddr s) \<and> 4 dvd unat a"
  by (simp add: heap_word_def and_3_eq_0 word_le_nat_alt word_less_nat_alt)

section \<open>Ordered block lists\<close>

fun mend :: "nat \<Rightarrow> (u32 \<times> u32) list \<Rightarrow> nat" where
  "mend lo [] = lo"
| "mend lo ((b, n) # bs) = mend (unat b + unat n + 1) bs"

lemma mok_append: "mok lo hi (us @ vs) \<longleftrightarrow> mok lo hi us \<and> mok (mend lo us) hi vs"
  by (induction us arbitrary: lo) auto

lemma mok_mono: "mok lo hi bs \<Longrightarrow> lo' \<le> lo \<Longrightarrow> mok lo' hi bs"
  by (cases bs) auto

lemma mok_block:
  assumes "mok lo hi bs" "(b, n) \<in> set bs"
  shows "lo \<le> unat b" "8 dvd unat b" "8 dvd unat n" "8 \<le> unat n" "unat b + unat n \<le> hi"
  using assms by (induction lo hi bs rule: mok.induct) (auto dest: dvd_imp_le)

lemma mend_ge: "mok lo hi bs \<Longrightarrow> lo \<le> mend lo bs"
  by (induction lo hi bs rule: mok.induct) auto

lemma mend_block: "mok lo hi bs \<Longrightarrow> (b, n) \<in> set bs \<Longrightarrow> unat b + unat n < mend lo bs"
  by (induction lo hi bs rule: mok.induct) (auto dest: mend_ge)

lemma mend_last: "bs \<noteq> [] \<Longrightarrow> mend lo bs = unat (fst (last bs)) + unat (snd (last bs)) + 1"
  by (induction lo bs rule: mend.induct) auto

lemma mtotal_simps [simp]:
  "mtotal [] = 0" "mtotal ((b, n) # bs) = unat n + mtotal bs" "mtotal (us @ vs) = mtotal us + mtotal vs"
  by (simp_all add: mtotal_def)

lemma mok_total: "mok lo hi bs \<Longrightarrow> lo \<le> hi \<Longrightarrow> lo + mtotal bs \<le> hi"
proof (induction lo hi bs rule: mok.induct)
  case (2 lo hi b n bs)
  then show ?case by (cases bs) auto
qed simp

lemma free_bytes_simps [simp]:
  "free_bytes [] = {}" "free_bytes ((b, n) # bs) = blk_bytes b n \<union> free_bytes bs"
  "free_bytes (us @ vs) = free_bytes us \<union> free_bytes vs"
  by (auto simp: free_bytes_def)

lemma free_bytes_bounds: "mok lo hi bs \<Longrightarrow> x \<in> free_bytes bs \<Longrightarrow> lo \<le> x \<and> x < hi \<and> x + 1 < mend lo bs"
  by (fastforce simp: free_bytes_def blk_bytes_def dest: mok_block mend_block)

text \<open>The two words of each block's header.\<close>

definition hdr_words :: "(u32 \<times> u32) list \<Rightarrow> u32 set" where
  "hdr_words bs = (\<Union>(b, n) \<in> set bs. {b, b + 4})"

lemma hdr_words_simps [simp]:
  "hdr_words [] = {}" "hdr_words ((b, n) # bs) = {b, b + 4} \<union> hdr_words bs"
  "hdr_words (us @ vs) = hdr_words us \<union> hdr_words vs"
  by (auto simp: hdr_words_def)

lemma last_hdr: "bs \<noteq> [] \<Longrightarrow> fst (last bs) \<in> hdr_words bs"
proof (cases bs rule: rev_cases)
  case (snoc ys y)
  then show ?thesis by (cases y) simp
qed simp

lemma mok_hdr:
  assumes "mok lo hi bs" "(b, n) \<in> set bs" "hi < 4294967296"
  shows "unat (b + 4) = unat b + 4"
  using mok_block [OF assms(1,2)] assms(3) by (subst unat_add32) auto

lemma hdr_words_bounds:
  assumes "mok lo hi bs" "hi < 4294967296" "x \<in> hdr_words bs"
  shows "lo \<le> unat x" "unat x < hi" "4 dvd unat x" "unat x < mend lo bs" "unat x \<in> free_bytes bs"
proof -
  from assms(3) obtain b n where b: "(b, n) \<in> set bs" "x = b \<or> x = b + 4"
    by (auto simp: hdr_words_def)
  note m = mok_block [OF assms(1) b(1)] and h = mok_hdr [OF assms(1) b(1) assms(2)]
  have "4 dvd unat b" using m(2) by presburger
  with b(2) m h mend_block [OF assms(1) b(1)]
  show "lo \<le> unat x" "unat x < hi" "4 dvd unat x" "unat x < mend lo bs" by auto
  show "unat x \<in> free_bytes bs"
    using b m h by (force simp: free_bytes_def blk_bytes_def)
qed

section \<open>Linked block lists\<close>

lemma mpath_append: "mpath m a (us @ vs) e \<longleftrightarrow> (\<exists>v. mpath m a us v \<and> mpath m v vs e)"
  by (induction us arbitrary: a) auto

lemma mpath_cong: "(\<And>x. x \<in> hdr_words bs \<Longrightarrow> m' x = m x) \<Longrightarrow> mpath m' a bs e = mpath m a bs e"
  by (induction m a bs e rule: mpath.induct) auto

lemma mpath_upd [simp]: "x \<notin> hdr_words bs \<Longrightarrow> mpath (m(x := v)) a bs e = mpath m a bs e"
  by (rule mpath_cong) auto

definition haddr :: "(u32 \<times> u32) list \<Rightarrow> u32" where
  "haddr bs = (case bs of [] \<Rightarrow> 0 | (b, n) # _ \<Rightarrow> b)"

lemma haddr_simps [simp]: "haddr [] = 0" "haddr ((b, n) # bs) = b"
  by (simp_all add: haddr_def)

lemma mpath_head: "mpath m a bs 0 \<Longrightarrow> a = haddr bs"
  by (cases bs) auto

definition bptr :: "(u32 \<times> u32) list \<Rightarrow> mbptr" where
  "bptr us = (if us = [] then MEMLIST else BLK (fst (last us)))"

lemma bptr_simps [simp]: "bptr [] = MEMLIST" "bptr (us @ [(b, n)]) = BLK b"
  by (simp_all add: bptr_def)

text \<open>Redirecting the last pointer of the blocks \<open>us\<close>.\<close>

definition relink :: "(u32 \<times> u32) list \<Rightarrow> u32 \<Rightarrow> kstate \<Rightarrow> kstate" where
  "relink us v s = (if us = [] then s\<lparr>memlist_next := v\<rparr> else s\<lparr>mem := (mem s)(fst (last us) := v)\<rparr>)"

lemma mpath_relink:
  assumes "mpath m a us e" "mok lo hi us" "hi < 4294967296" "us \<noteq> []"
  shows "mpath (m(fst (last us) := v)) a us v"
  using assms
proof (induction m a us e arbitrary: lo rule: mpath.induct)
  case (1 m a e)
  then show ?case by simp
next
  case (2 m a b n bs e)
  have h: "unat (b + 4) = unat b + 4" by (rule mok_hdr [OF "2.prems"(2) _ "2.prems"(3), of b n]) simp
  show ?case
  proof (cases "bs = []")
    case True
    have "b + 4 \<noteq> b" using h by auto
    with True "2.prems" show ?thesis by simp
  next
    case False
    have l: "fst (last bs) \<in> hdr_words bs" using False by (rule last_hdr)
    have "mok (unat b + unat n + 1) hi bs" "8 \<le> unat n"
      using "2.prems" mok_block(4) [OF "2.prems"(2), of b n] by auto
    with hdr_words_bounds(1) [OF _ "2.prems"(3) l] h have "fst (last bs) \<noteq> b" "fst (last bs) \<noteq> b + 4"
      by fastforce+
    with False "2.prems" "2.IH" [of "unat b + unat n + 1"] show ?thesis by auto
  qed
qed

lemma relink_simps [simp]:
  "memheap (relink us v s) = memheap s" "maxaddr (relink us v s) = maxaddr s"
  "memlist_length (relink us v s) = memlist_length s"
  "heap_word (relink us v s) a = heap_word s a"
  by (simp_all add: relink_def heap_word_def)

lemma heap_word_upd [simp]:
  "heap_word (s\<lparr>mem := m\<rparr>) a = heap_word s a" "heap_word (s\<lparr>memlist_next := v\<rparr>) a = heap_word s a"
  "heap_word (s\<lparr>memlist_length := n\<rparr>) a = heap_word s a" "heap_word (s\<lparr>irq := i\<rparr>) a = heap_word s a"
  by (simp_all add: heap_word_def)

lemma mem_relink: "x \<notin> hdr_words us \<Longrightarrow> mem (relink us v s) x = mem s x"
  using last_hdr [of us] by (auto simp: relink_def)

lemma mpath_relinked:
  assumes "mpath (mem s) (memlist_next s) us e" "mok lo hi us" "hi < 4294967296"
  shows "mpath (mem (relink us v s)) (memlist_next (relink us v s)) us v"
  using assms mpath_relink [OF assms(1-3), of v] by (cases "us = []") (auto simp: relink_def)

text \<open>What an operation may change: the heap's contents, the list head and the total.\<close>

definition only_heap :: "kstate \<Rightarrow> kstate \<Rightarrow> bool" where
  "only_heap s s' \<longleftrightarrow> (\<exists>m v n. s' = s\<lparr>mem := m, memlist_next := v, memlist_length := n\<rparr>)"

lemma only_heapI [simp]: "only_heap s (s\<lparr>mem := m, memlist_next := v, memlist_length := n\<rparr>)"
  by (auto simp: only_heap_def)

lemma only_heapI1:
  "only_heap s (s\<lparr>mem := m\<rparr>)" "only_heap s (s\<lparr>memlist_next := v\<rparr>)"
  "only_heap s (s\<lparr>memlist_length := n\<rparr>)" "only_heap s s"
  using only_heapI [where s = s and m = m and v = "memlist_next s" and n = "memlist_length s"]
    only_heapI [where s = s and m = "mem s" and v = v and n = "memlist_length s"]
    only_heapI [where s = s and m = "mem s" and v = "memlist_next s" and n = n]
    only_heapI [where s = s and m = "mem s" and v = "memlist_next s" and n = "memlist_length s"]
  by simp_all

lemma only_heap_relink: "only_heap s (relink us v s)"
  by (simp add: relink_def only_heapI1)

lemma only_heap_trans: "only_heap s t \<Longrightarrow> only_heap t u \<Longrightarrow> only_heap s u"
  unfolding only_heap_def by (elim exE) (intro exI, simp)

lemma only_heap_bounds: "only_heap s s' \<Longrightarrow> memheap s' = memheap s \<and> maxaddr s' = maxaddr s"
  by (auto simp: only_heap_def)

text \<open>Header words of the free list are inside the heap.\<close>

lemma minvD:
  assumes "minv s bs"
  shows "mok (unat (memheap s)) (unat (maxaddr s)) bs" "mpath (mem s) (memlist_next s) bs 0"
    "0 < unat (memheap s)" "unat (memlist_length s) = mtotal bs"
  using assms by (auto simp: minv_def)

lemma minv_hdr: "minv s bs \<Longrightarrow> x \<in> hdr_words bs \<Longrightarrow> heap_word s x"
  using hdr_words_bounds [OF minvD(1), of s bs x] by (auto simp: heap_word_iff)

lemma minv_bptr:
  assumes "minv s (us @ vs)"
  shows "set_mb_next (bptr us) v s = Some (relink us v s)"
proof (cases "us = []")
  case False
  then have "heap_word s (fst (last us))"
    using minv_hdr [OF assms] last_hdr by simp
  with False show ?thesis by (simp add: bptr_def set_mb_next_def relink_def st_def)
qed (simp add: set_mb_next_def relink_def)

text \<open>Header words in front of, inside and behind a free block are different.\<close>

lemma minv_sep:
  assumes "minv s (us @ (b, l) # vs)"
  shows "x \<in> hdr_words us \<Longrightarrow> unat x < unat b" "y \<in> hdr_words vs \<Longrightarrow> unat b + unat l < unat y"
    "8 \<le> unat l" "8 dvd unat l" "8 dvd unat b" "unat b + unat l \<le> unat (maxaddr s)"
    "unat (b + 4) = unat b + 4" "0 < unat b" "unat (memheap s) \<le> unat b"
proof -
  note ok = minvD(1) [OF assms] minvD(3) [OF assms]
  have ok': "mok (unat (memheap s)) (unat (maxaddr s)) us"
    "mok (mend (unat (memheap s)) us) (unat (maxaddr s)) ((b, l) # vs)"
    "mok (unat b + unat l + 1) (unat (maxaddr s)) vs"
    using ok by (auto simp: mok_append)
  note blk = mok_block [OF ok(1), of b l] mok_hdr [OF ok(1), of b l]
  show "x \<in> hdr_words us \<Longrightarrow> unat x < unat b"
    using hdr_words_bounds(4) [OF ok'(1) unat_lt32] ok'(2) by fastforce
  show "y \<in> hdr_words vs \<Longrightarrow> unat b + unat l < unat y"
    using hdr_words_bounds(1) [OF ok'(3) unat_lt32] by fastforce
  show "8 \<le> unat l" "8 dvd unat l" "8 dvd unat b" "unat b + unat l \<le> unat (maxaddr s)"
    "unat (b + 4) = unat b + 4" "0 < unat b" "unat (memheap s) \<le> unat b"
    using blk ok by auto
qed

section \<open>Allocation\<close>

lemma mok_drop: "mok lo hi (us @ (b, l) # vs) \<Longrightarrow> mok lo hi (us @ vs)"
  by (auto simp: mok_append elim: mok_mono)

lemma mok_shrink:
  assumes "mok lo hi (us @ (b, l) # vs)" "unat b \<le> unat b'" "8 dvd unat b'" "8 dvd unat l'"
    "0 < unat l'" "unat b' + unat l' \<le> unat b + unat l"
  shows "mok lo hi (us @ (b', l') # vs)"
  using assms by (auto simp: mok_append elim: mok_mono)

text \<open>
  \<open>mem_step s s' bs bs'\<close>: the step changes only the heap, the free list becomes \<open>bs'\<close>,
  and no byte outside the free blocks is written.
\<close>

definition mem_step :: "kstate \<Rightarrow> kstate \<Rightarrow> (u32 \<times> u32) list \<Rightarrow> (u32 \<times> u32) list \<Rightarrow> bool" where
  "mem_step s s' bs bs' \<longleftrightarrow> only_heap s s' \<and> minv s' bs' \<and>
     (\<forall>x. unat x \<notin> free_bytes bs \<longrightarrow> mem s' x = mem s x)"

lemma hdr_in_free: "minv s bs \<Longrightarrow> x \<in> hdr_words bs \<Longrightarrow> unat x \<in> free_bytes bs"
  using hdr_words_bounds(5) [OF minvD(1)] by simp

lemma take_block:
  assumes inv: "minv s (us @ (b, l) # vs)"
  defines "s' \<equiv> (relink us (mem s b) s)\<lparr>memlist_length := memlist_length s - l\<rparr>"
  shows "mem_step s s' (us @ (b, l) # vs) (us @ vs)"
proof -
  note sep = minv_sep [OF inv] and D = minvD [OF inv]
  have "only_heap s s'" unfolding s'_def
    by (rule only_heap_trans [OF only_heap_relink only_heapI1(3)])
  moreover have "minv s' (us @ vs)"
  proof -
    have p: "mpath (mem s) (memlist_next s) us b" "mpath (mem s) (mem s b) vs 0"
      using D(2) by (auto simp: mpath_append)
    have "mpath (mem s') (memlist_next s') us (mem s b)"
      using mpath_relinked [OF p(1), of "unat (memheap s)" "unat (maxaddr s)"] D(1)
      by (simp add: s'_def mok_append)
    moreover have "mpath (mem s') (mem s b) vs 0"
    proof (subst mpath_cong [of vs _ "mem s"])
      show "mem s' x = mem s x" if "x \<in> hdr_words vs" for x
        using sep(1) [of x] sep(2) [OF that] by (auto simp: s'_def intro!: mem_relink)
    qed (rule p(2))
    moreover have "unat (memlist_length s') = mtotal (us @ vs)"
      using D(4) by (simp add: s'_def unat_sub32)
    ultimately show ?thesis
      using inv mok_drop [OF D(1)] by (auto simp: minv_def mpath_append s'_def)
  qed
  moreover have "mem s' x = mem s x" if "unat x \<notin> free_bytes (us @ (b, l) # vs)" for x
    using hdr_in_free [OF inv, of x] that by (auto simp: s'_def intro!: mem_relink)
  ultimately show ?thesis by (simp add: mem_step_def)
qed

lemma split_block:
  assumes inv: "minv s (us @ (b, l) # vs)" and n: "8 dvd unat n" "0 < unat n" "unat n < unat l"
  defines "s' \<equiv> (relink us (b + n) s)\<lparr>mem := (mem (relink us (b + n) s))
    (b + n := mem s b, b + n + 4 := l - n), memlist_length := memlist_length s - n\<rparr>"
  shows "mem_step s s' (us @ (b, l) # vs) (us @ (b + n, l - n) # vs)"
proof -
  note sep = minv_sep [OF inv] and D = minvD [OF inv]
  have gap: "8 \<le> unat n" "8 \<le> unat l - unat n" "8 dvd unat l - unat n"
    using n sep(4) by (auto intro!: dvd_imp_le dvd_diff_nat)
  have bn: "unat (b + n) = unat b + unat n"
    using n sep(6) unat_lt32 [of "maxaddr s"] by (intro unat_add32) linarith
  have "unat b + unat n + 4 < 4294967296"
    using gap sep(6) unat_lt32 [of "maxaddr s"] by linarith
  then have bn4: "unat (b + n + 4) = unat b + unat n + 4" using bn by (subst unat_add32) auto
  have ln: "unat (l - n) = unat l - unat n" using n by (intro unat_sub32) simp
  have "only_heap s s'" unfolding s'_def
    by (rule only_heap_trans [OF only_heap_relink only_heap_trans [OF only_heapI1(1) only_heapI1(3)]])
  moreover have "minv s' (us @ (b + n, l - n) # vs)"
  proof -
    have p: "mpath (mem s) (memlist_next s) us b" "mpath (mem s) (mem s b) vs 0"
      using D(2) by (auto simp: mpath_append)
    have new: "b + n \<notin> hdr_words us" "b + n + 4 \<notin> hdr_words us" "b + n \<notin> hdr_words vs"
      "b + n + 4 \<notin> hdr_words vs" "b + n \<noteq> b + n + 4"
      using sep(1) sep(2) bn bn4 gap by fastforce+
    have "mpath (mem (relink us (b + n) s)) (memlist_next (relink us (b + n) s)) us (b + n)"
      using mpath_relinked [OF p(1), of "unat (memheap s)" "unat (maxaddr s)"] D(1)
      by (simp add: mok_append)
    then have "mpath (mem s') (memlist_next s') us (b + n)"
      using new by (simp add: s'_def)
    moreover have "mpath (mem s') (mem s b) vs 0"
    proof (subst mpath_cong [of vs _ "mem s"])
      show "mem s' x = mem s x" if "x \<in> hdr_words vs" for x
        using sep(1) [of x] sep(2) [OF that] new that by (auto simp: s'_def intro!: mem_relink)
    qed (rule p(2))
    moreover have "unat (memlist_length s') = mtotal (us @ (b + n, l - n) # vs)"
      using D(4) n ln by (simp add: s'_def unat_sub32)
    moreover have "mok (unat (memheap s)) (unat (maxaddr s)) (us @ (b + n, l - n) # vs)"
      by (rule mok_shrink [OF D(1)]) (use bn ln gap n sep in auto)
    ultimately show ?thesis
      using inv new by (auto simp: minv_def mpath_append s'_def)
  qed
  moreover have "mem s' x = mem s x" if x: "unat x \<notin> free_bytes (us @ (b, l) # vs)" for x
  proof -
    have "x \<noteq> b + n" "x \<noteq> b + n + 4" using x bn bn4 gap n by (auto simp: blk_bytes_def)
    with hdr_in_free [OF inv, of x] x show ?thesis by (auto simp: s'_def intro!: mem_relink)
  qed
  ultimately show ?thesis by (simp add: mem_step_def)
qed

lemma shrink_block:
  assumes inv: "minv s (us @ (b, l) # vs)" and n: "8 dvd unat n" "0 < unat n" "unat n < unat l"
  defines "s' \<equiv> s\<lparr>mem := (mem s)(b + 4 := l - n), memlist_length := memlist_length s - n\<rparr>"
  shows "mem_step s s' (us @ (b, l) # vs) (us @ (b, l - n) # vs)"
proof -
  note sep = minv_sep [OF inv] and D = minvD [OF inv]
  have ln: "unat (l - n) = unat l - unat n" using n by (intro unat_sub32) simp
  have new: "b + 4 \<notin> hdr_words us" "b + 4 \<notin> hdr_words vs" "b + 4 \<noteq> b"
    using sep(1) sep(2) sep(3) sep(7) by fastforce+
  have "only_heap s s'" unfolding s'_def
    by (rule only_heap_trans [OF only_heapI1(1) only_heapI1(3)])
  moreover have "minv s' (us @ (b, l - n) # vs)"
  proof -
    have "mpath (mem s') (memlist_next s) us b" "mpath (mem s') (mem s b) vs 0"
      using D(2) new by (auto simp: mpath_append s'_def)
    moreover have "unat (memlist_length s') = mtotal (us @ (b, l - n) # vs)"
      using D(4) n ln by (simp add: s'_def unat_sub32)
    moreover have "mok (unat (memheap s)) (unat (maxaddr s)) (us @ (b, l - n) # vs)"
      by (rule mok_shrink [OF D(1)]) (use ln n sep in auto)
    ultimately show ?thesis
      using inv new by (auto simp: minv_def mpath_append s'_def)
  qed
  moreover have "mem s' x = mem s x" if x: "unat x \<notin> free_bytes (us @ (b, l) # vs)" for x
    using x sep(3,7) by (auto simp: s'_def blk_bytes_def)
  ultimately show ?thesis by (simp add: mem_step_def)
qed

text \<open>The abstract allocator: first fit from the lowest address.\<close>

fun first_fit :: "u32 \<Rightarrow> (u32 \<times> u32) list \<Rightarrow> (u32 \<times> (u32 \<times> u32) list) option" where
  "first_fit n [] = None"
| "first_fit n ((b, l) # bs) =
     (if l = n then Some (b, bs)
      else if l > n then Some (b, (b + n, l - n) # bs)
      else map_option (\<lambda>(a, bs'). (a, (b, l) # bs')) (first_fit n bs))"

lemma memget_loop_refines:
  assumes "minv s (us @ vs)" "8 dvd unat n" "0 < unat n"
  shows "case first_fit n vs of None \<Rightarrow> memget_loop n (bptr us) (haddr vs) s = Some (USYSERR, s)
    | Some (a, vs') \<Rightarrow> \<exists>s'. memget_loop n (bptr us) (haddr vs) s = Some (a, s')
        \<and> mem_step s s' (us @ vs) (us @ vs')"
  using assms
proof (induction vs arbitrary: us)
  case Nil
  then show ?case by (simp add: memget_loop.simps)
next
  case (Cons bl vs)
  obtain b l where bl: "bl = (b, l)" by (cases bl)
  note inv = Cons.prems(1) [unfolded bl] and n = Cons.prems(2,3)
  note sep = minv_sep [OF inv] and D = minvD [OF inv]
  have b: "b \<noteq> 0" "heap_word s b" "heap_word s (b + 4)" "mem s (b + 4) = l"
    using sep(8) minv_hdr [OF inv] D(2) by (auto simp: mpath_append)
  have nx: "mem s b = haddr vs" using D(2) by (auto simp: mpath_append dest: mpath_head)
  consider "l = n" | "n < l" | "l < n" by (metis linorder_neqE)
  then show ?case
  proof cases
    case 1
    with b bl minv_bptr [OF inv] take_block [OF inv] show ?thesis
      by (subst memget_loop.simps) (simp add: ld_def)
  next
    case 2
    then have lt: "unat n < unat l" by (simp add: word_less_nat_alt)
    let ?r = "relink us (b + n) s"
    have "8 dvd unat l - unat n" using sep(4) n by (simp add: dvd_diff_nat)
    with lt have g: "8 \<le> unat l - unat n" by (auto intro!: dvd_imp_le)
    have bn: "unat (b + n) = unat b + unat n"
      using lt sep(6) unat_lt32 [of "maxaddr s"] by (intro unat_add32) linarith
    have "unat b + unat n + 4 < 4294967296"
      using g sep(6) unat_lt32 [of "maxaddr s"] by linarith
    then have bn4: "unat (b + n + 4) = unat b + unat n + 4" using bn by (subst unat_add32) auto
    have "4 dvd unat b" "4 dvd unat n" using sep(5) n by presburger+
    with bn bn4 g sep(6,9) have hw: "heap_word s (b + n)" "heap_word s (b + n + 4)"
      by (auto simp: heap_word_iff)
    have "b \<notin> hdr_words us" "b + 4 \<notin> hdr_words us" using sep(1) sep(7) by fastforce+
    then have r: "mem ?r b = mem s b" "mem ?r (b + 4) = l" using b(4) by (simp_all add: mem_relink)
    have "8 \<le> unat n" using n by (auto intro!: dvd_imp_le)
    then have ne: "b + 4 \<noteq> b + n" using sep(7) bn by auto
    have "memget_loop n (bptr us) b s = Some (b, ?r\<lparr>mem := (mem ?r)(b + n := mem s b, b + n + 4 := l - n),
        memlist_length := memlist_length s - n\<rparr>)"
      using 2 b minv_bptr [OF inv] hw r ne
      by (subst memget_loop.simps) (simp add: ld_def st_def Let_def)
    with 2 bl split_block [OF inv n lt] show ?thesis by auto
  next
    case 3
    have "memget_loop n (bptr us) b s = memget_loop n (BLK b) (haddr vs) s"
      using 3 b nx by (subst memget_loop.simps) (auto simp: ld_def)
    with 3 bl Cons.IH [of "us @ [(b, l)]"] inv n show ?thesis
      by (auto split: option.splits)
  qed
qed

lemma minv_irq [simp]: "minv (s\<lparr>irq := i\<rparr>) bs = minv s bs"
  by (simp add: minv_def)

lemma only_heap_irq: "only_heap (s\<lparr>irq := i\<rparr>) s' \<Longrightarrow> only_heap s (s'\<lparr>irq := irq s\<rparr>)"
  unfolding only_heap_def by (elim exE) (intro exI, simp)

lemma mem_step_irq: "mem_step (s\<lparr>irq := i\<rparr>) s' bs bs' \<Longrightarrow> mem_step s (s'\<lparr>irq := irq s\<rparr>) bs bs'"
  by (auto simp: mem_step_def intro: only_heap_irq)

lemma memget_refines:
  assumes inv: "minv s bs" and n: "nbytes \<noteq> 0" "unat nbytes \<le> 4294967288"
  shows "case first_fit (roundmb nbytes) bs of None \<Rightarrow> memget nbytes s = Some (USYSERR, s)
    | Some (a, bs') \<Rightarrow> \<exists>s'. memget nbytes s = Some (a, s') \<and> mem_step s s' bs bs'"
proof -
  have "minv (s\<lparr>irq := False\<rparr>) ([] @ bs)" using inv by simp
  note loop = memget_loop_refines [OF this roundmb_aligned roundmb_pos [OF n]]
  have "memlist_next s = haddr bs" using minvD(2) [OF inv] by (rule mpath_head)
  with loop n show ?thesis
    by (auto simp: memget_def disable_def restore_def Let_def split: option.splits
        intro!: exI mem_step_irq)
qed

lemma first_fit_sound:
  assumes "mok lo hi bs" "hi < 4294967296" "first_fit n bs = Some (a, bs')" "0 < unat n"
  shows "blk_bytes a n \<subseteq> free_bytes bs \<and> free_bytes bs' = free_bytes bs - blk_bytes a n
    \<and> mtotal bs' + unat n = mtotal bs \<and> 8 dvd unat a \<and> lo \<le> unat a \<and> unat a + unat n \<le> hi"
  using assms
proof (induction n bs arbitrary: lo bs' rule: first_fit.induct)
  case (1 n)
  then show ?case by simp
next
  case (2 n b l bs)
  have rest: "mok (unat b + unat l + 1) hi bs" "unat b + unat l \<le> hi" using "2.prems"(1) by auto
  then have out: "unat b + unat l < x" if "x \<in> free_bytes bs" for x
    using free_bytes_bounds [OF rest(1) that] by simp
  consider "l = n" | "n < l" | "l < n" by (metis linorder_neqE)
  then show ?case
  proof cases
    case 1
    with "2.prems" out show ?thesis by (fastforce simp: blk_bytes_def)
  next
    case 2
    then have lt: "unat n < unat l" by (simp add: word_less_nat_alt)
    have "unat (b + n) = unat b + unat n" using lt rest(2) "2.prems"(2) by (intro unat_add32) linarith
    moreover have "unat (l - n) = unat l - unat n" using lt by (intro unat_sub32) simp
    moreover have "a = b" "bs' = (b + n, l - n) # bs" using 2 "2.prems"(3) by (auto split: if_splits)
    ultimately show ?thesis using "2.prems"(1,4) out lt by (auto simp: blk_bytes_def dest: out)
  next
    case 3
    with "2.prems" obtain bs'' where bs'': "first_fit n bs = Some (a, bs'')" "bs' = (b, l) # bs''"
      by (auto split: if_splits)
    from "2.IH" [OF _ _ rest(1) "2.prems"(2) bs''(1) "2.prems"(4)] 3
    have IH: "blk_bytes a n \<subseteq> free_bytes bs" "free_bytes bs'' = free_bytes bs - blk_bytes a n"
      "mtotal bs'' + unat n = mtotal bs" "8 dvd unat a" "unat b + unat l + 1 \<le> unat a"
      "unat a + unat n \<le> hi"
      by auto
    with bs''(2) "2.prems"(1) show ?thesis by (auto simp: blk_bytes_def)
  qed
qed

text \<open>\<open>stkget\<close>: the last block of the list that is large enough.\<close>

lemma stkget_loop_refines:
  assumes "minv s (us @ vs)"
  shows "(\<forall>(b, l) \<in> set vs. l < n) \<and> stkget_loop n (bptr us) (haddr vs) fit s = Some fit \<or>
    (\<exists>ws b l zs. vs = ws @ (b, l) # zs \<and> n \<le> l \<and> (\<forall>(b', l') \<in> set zs. l' < n) \<and>
       stkget_loop n (bptr us) (haddr vs) fit s = Some (bptr (us @ ws), b))"
  using assms
proof (induction vs arbitrary: us fit)
  case Nil
  then show ?case by (simp add: stkget_loop.simps)
next
  case (Cons bl vs)
  obtain b l where bl: "bl = (b, l)" by (cases bl)
  note inv = Cons.prems(1) [unfolded bl]
  note sep = minv_sep [OF inv] and D = minvD [OF inv]
  have b: "b \<noteq> 0" "heap_word s b" "heap_word s (b + 4)" "mem s (b + 4) = l" "mem s b = haddr vs"
    using sep(8) minv_hdr [OF inv] D(2) by (auto simp: mpath_append dest: mpath_head)
  let ?fit = "if l \<ge> n then (bptr us, b) else fit"
  have step: "stkget_loop n (bptr us) (haddr (bl # vs)) fit s
      = stkget_loop n (bptr (us @ [bl])) (haddr vs) ?fit s"
    using b bl by (subst stkget_loop.simps) (simp add: ld_def)
  have "minv s ((us @ [bl]) @ vs)" using Cons.prems by simp
  from Cons.IH [OF this, of ?fit] show ?case
  proof (elim disjE exE conjE)
    assume "\<forall>(b, l) \<in> set vs. l < n" "stkget_loop n (bptr (us @ [bl])) (haddr vs) ?fit s = Some ?fit"
    note * = this
    show ?thesis
    proof (cases "l \<ge> n")
      case True
      with * step bl show ?thesis
        by (intro disjI2 exI [of _ "[]"] exI [of _ b] exI [of _ l] exI [of _ vs]) simp
    next
      case False
      with * step bl show ?thesis by (intro disjI1) auto
    qed
  next
    fix ws b' l' zs
    assume "vs = ws @ (b', l') # zs" "n \<le> l'" "\<forall>(b', l') \<in> set zs. l' < n"
      "stkget_loop n (bptr (us @ [bl])) (haddr vs) ?fit s = Some (bptr ((us @ [bl]) @ ws), b')"
    then show ?thesis using step
      by (intro disjI2 exI [of _ "bl # ws"] exI [of _ b'] exI [of _ l'] exI [of _ zs]) simp
  qed
qed

lemma stkget_refines:
  assumes inv: "minv s bs" and n: "nbytes \<noteq> 0" "unat nbytes \<le> 4294967288"
  defines "m \<equiv> roundmb nbytes"
  shows "(\<forall>(b, l) \<in> set bs. l < m) \<and> stkget nbytes s = Some (USYSERR, s) \<or>
    (\<exists>us b l vs s'. bs = us @ (b, l) # vs \<and> m \<le> l \<and> (\<forall>(b', l') \<in> set vs. l' < m) \<and>
       stkget nbytes s = Some (b + l - 4, s') \<and>
       mem_step s s' bs (if l = m then us @ vs else us @ (b, l - m) # vs))"
proof -
  let ?s = "s\<lparr>irq := False\<rparr>"
  have inv': "minv ?s ([] @ bs)" using inv by simp
  have m: "8 dvd unat m" "0 < unat m"
    unfolding m_def by (rule roundmb_aligned, rule roundmb_pos [OF n])
  have hd: "memlist_next s = haddr bs" using minvD(2) [OF inv] by (rule mpath_head)
  from stkget_loop_refines [OF inv', of m "(MEMLIST, 0)"] show ?thesis
  proof (elim disjE exE conjE)
    assume *: "\<forall>(b, l) \<in> set bs. l < m" "stkget_loop m (bptr []) (haddr bs) (MEMLIST, 0) ?s = Some (MEMLIST, 0)"
    then have "stkget nbytes s = Some (USYSERR, s)"
      using hd n by (simp add: stkget_def disable_def restore_def m_def Let_def)
    with * show ?thesis by blast
  next
    fix us b l vs
    assume split: "bs = us @ (b, l) # vs" and fit: "m \<le> l" "\<forall>(b', l') \<in> set vs. l' < m"
      and loop: "stkget_loop m (bptr []) (haddr bs) (MEMLIST, 0) ?s = Some (bptr ([] @ us), b)"
    note inv2 = inv' [unfolded split append_Nil]
    note sep = minv_sep [OF inv2] and D = minvD [OF inv2]
    have b: "b \<noteq> 0" "heap_word s b" "heap_word s (b + 4)" "mem s (b + 4) = l"
      using sep(8) minv_hdr [OF inv2] D(2) by (auto simp: mpath_append)
    have "\<exists>s'. stkget nbytes s = Some (b + l - 4, s') \<and>
       mem_step s s' bs (if l = m then us @ vs else us @ (b, l - m) # vs)"
    proof (cases "l = m")
      case True
      then have "stkget nbytes s = Some (b + l - 4, ((relink us (mem s b) ?s)
          \<lparr>memlist_length := memlist_length s - l\<rparr>)\<lparr>irq := irq s\<rparr>)"
        using loop hd n b minv_bptr [OF inv2]
        by (simp add: stkget_def disable_def restore_def m_def Let_def ld_def)
      with True mem_step_irq [OF take_block [OF inv2, simplified]] split show ?thesis by auto
    next
      case False
      with fit have lt: "unat m < unat l" by (simp add: word_less_nat_alt word_le_nat_alt word_unat_eq_iff)
      from False have "stkget nbytes s = Some (b + l - 4, (?s\<lparr>mem := (mem s)(b + 4 := l - m),
          memlist_length := memlist_length s - m\<rparr>)\<lparr>irq := irq s\<rparr>)"
        using loop hd n b
        by (simp add: stkget_def disable_def restore_def m_def Let_def ld_def st_def)
      with False mem_step_irq [OF shrink_block [OF inv2 m lt, simplified]] split show ?thesis by auto
    qed
    with split fit show ?thesis by blast
  qed
qed

section \<open>Release\<close>

lemma mok_raise: "mok lo hi vs \<Longrightarrow> (vs \<noteq> [] \<Longrightarrow> lo' \<le> unat (haddr vs)) \<Longrightarrow> mok lo' hi vs"
  by (cases vs) auto

lemma relink_id: "mpath (mem s) (memlist_next s) us b \<Longrightarrow> relink us b s = s"
proof (cases us rule: rev_cases)
  case (snoc ys y)
  assume "mpath (mem s) (memlist_next s) us b"
  with snoc show ?thesis by (cases y) (auto simp: relink_def mpath_append)
qed (simp add: relink_def)

text \<open>
  Writing the header of a block between \<open>us\<close> and \<open>vs\<close> and pointing \<open>us\<close> at it:
  the memory that both a new and an extended block leave behind.
\<close>

definition put_block :: "(u32 \<times> u32) list \<Rightarrow> u32 \<Rightarrow> u32 \<Rightarrow> u32 \<Rightarrow> kstate \<Rightarrow> kstate" where
  "put_block us b m next s = relink us b (s\<lparr>mem := (mem s)(b := next, b + 4 := m)\<rparr>)"

lemma mok_sep:
  assumes "mok lo hi (us @ (b, m) # vs)" "hi < 4294967296"
  shows "b \<notin> hdr_words us" "b + 4 \<notin> hdr_words us" "b \<notin> hdr_words vs" "b + 4 \<notin> hdr_words vs"
    "b \<noteq> b + 4" "x \<in> hdr_words us \<Longrightarrow> x \<notin> hdr_words vs" "unat (b + 4) = unat b + 4"
proof -
  have ok: "mok lo hi us" "mend lo us \<le> unat b" "mok (unat b + unat m + 1) hi vs"
    using assms by (auto simp: mok_append)
  have h: "unat (b + 4) = unat b + 4" and m: "8 \<le> unat m"
    using mok_hdr [OF assms(1) _ assms(2), of b m] mok_block [OF assms(1), of b m] by auto
  note us = hdr_words_bounds(4) [OF ok(1) assms(2)] and vs = hdr_words_bounds(1) [OF ok(3) assms(2)]
  show "b \<notin> hdr_words us" "b + 4 \<notin> hdr_words us" using us ok(2) h by fastforce+
  show "b \<notin> hdr_words vs" "b + 4 \<notin> hdr_words vs" using vs h m by fastforce+
  show "b \<noteq> b + 4" "unat (b + 4) = unat b + 4" using h by auto
  show "x \<in> hdr_words us \<Longrightarrow> x \<notin> hdr_words vs" using us vs ok(2) by fastforce
qed

lemma mpath_put_block:
  assumes "mpath (mem s) (memlist_next s) us e" "mpath (mem s) (haddr vs) vs 0"
    "mok lo hi (us @ (b, m) # vs)" "hi < 4294967296"
  defines "s' \<equiv> put_block us b m (haddr vs) s"
  shows "mpath (mem s') (memlist_next s') (us @ (b, m) # vs) 0"
proof -
  let ?t = "s\<lparr>mem := (mem s)(b := haddr vs, b + 4 := m)\<rparr>"
  note sep = mok_sep [OF assms(3,4)]
  have "mpath (mem ?t) (memlist_next ?t) us e" using assms(1) sep by simp
  then have us: "mpath (mem s') (memlist_next s') us b"
    unfolding s'_def put_block_def using assms(3,4)
    by (intro mpath_relinked [of _ _ _ lo hi]) (auto simp: mok_append)
  have "mem s' b = haddr vs" "mem s' (b + 4) = m"
    unfolding s'_def put_block_def using sep by (simp_all add: mem_relink)
  moreover have "mpath (mem s') (haddr vs) vs 0"
  proof (subst mpath_cong [of vs _ "mem s"])
    show "mem s' x = mem s x" if "x \<in> hdr_words vs" for x
      using sep that unfolding s'_def put_block_def by (subst mem_relink) auto
  qed (rule assms(2))
  ultimately show ?thesis using us by (auto simp: mpath_append)
qed

lemma memfree_loop_refines:
  assumes "minv s (us @ vs)"
  shows "memfree_loop block (bptr us) (haddr vs) s =
    Some (bptr (us @ takeWhile (\<lambda>p. fst p < block) vs), haddr (dropWhile (\<lambda>p. fst p < block) vs))"
  using assms
proof (induction vs arbitrary: us)
  case Nil
  then show ?case by (simp add: memfree_loop.simps)
next
  case (Cons bl vs)
  obtain b l where bl: "bl = (b, l)" by (cases bl)
  note inv = Cons.prems(1) [unfolded bl]
  have b: "b \<noteq> 0" "heap_word s b" "mem s b = haddr vs"
    using minv_sep(8) [OF inv] minv_hdr [OF inv] minvD(2) [OF inv]
    by (auto simp: mpath_append dest: mpath_head)
  show ?case
  proof (cases "b < block")
    case True
    with b bl have "memfree_loop block (bptr us) (haddr (bl # vs)) s
        = memfree_loop block (bptr (us @ [bl])) (haddr vs) s"
      by (subst memfree_loop.simps) (simp add: ld_def)
    with True bl Cons.IH [of "us @ [bl]"] Cons.prems show ?thesis by simp
  next
    case False
    with b bl show ?thesis by (subst memfree_loop.simps) simp
  qed
qed

lemma put_block_simps [simp]:
  "heap_word (put_block us b m v s) a = heap_word s a"
  "memheap (put_block us b m v s) = memheap s" "maxaddr (put_block us b m v s) = maxaddr s"
  "memlist_length (put_block us b m v s) = memlist_length s"
  by (simp_all add: put_block_def)

lemma put_block_over:
  assumes "b \<notin> hdr_words us" "b + 4 \<notin> hdr_words us" "b \<noteq> b + 4"
  shows "(put_block us b m v t)\<lparr>mem := (mem (put_block us b m v t))(b + 4 := m', b := v')\<rparr>
    = put_block us b m' v' t"
proof -
  have *: "(mem (put_block us b m v t))(b + 4 := m', b := v') = mem (put_block us b m' v' t)"
    using assms last_hdr [of us] by (cases "us = []") (auto simp: put_block_def relink_def fun_eq_iff)
  show ?thesis unfolding * by (simp add: put_block_def relink_def)
qed

lemma mem_put_block:
  assumes "mok lo hi us" "mend lo us \<le> unat b" "hi < 4294967296" "unat (b + 4) = unat b + 4"
  shows "mem (put_block us b m v t) b = v" "mem (put_block us b m v t) (b + 4) = m"
    "\<And>x. x \<notin> hdr_words us \<Longrightarrow> x \<noteq> b \<Longrightarrow> x \<noteq> b + 4 \<Longrightarrow> mem (put_block us b m v t) x = mem t x"
    "b \<notin> hdr_words us" "b + 4 \<notin> hdr_words us" "b \<noteq> b + 4"
proof -
  note us = hdr_words_bounds(4) [OF assms(1,3)]
  show *: "b \<notin> hdr_words us" "b + 4 \<notin> hdr_words us" using us assms(2,4) by fastforce+
  show b4: "b \<noteq> b + 4" using assms(4) by auto
  show "mem (put_block us b m v t) b = v" "mem (put_block us b m v t) (b + 4) = m"
    using * b4 by (simp_all add: put_block_def mem_relink)
  show "\<And>x. x \<notin> hdr_words us \<Longrightarrow> x \<noteq> b \<Longrightarrow> x \<noteq> b + 4 \<Longrightarrow> mem (put_block us b m v t) x = mem t x"
    by (simp add: put_block_def mem_relink)
qed

text \<open>The second half of \<open>memfree\<close>: join with the block above, if they touch.\<close>

lemma coalesce_refines:
  assumes lo: "lo = unat (memheap t)" and hi: "hi = unat (maxaddr t)"
    and us: "mok lo hi us" "mend lo us \<le> unat b"
    and b: "8 dvd unat b" "8 dvd unat m" "0 < unat m" "unat b + unat m \<le> hi" "0 < unat b"
    and vs: "mok (unat b + unat m) hi vs" "mpath (mem t) (haddr vs) vs 0"
  shows "\<exists>m' vs'. memfree_coalesce (BLK b) (haddr vs) (put_block us b m (haddr vs) t)
      = Some (put_block us b m' (haddr vs') t) \<and> mok lo hi (us @ (b, m') # vs') \<and>
    mpath (mem t) (haddr vs') vs' 0 \<and> free_bytes ((b, m') # vs') = blk_bytes b m \<union> free_bytes vs \<and>
    mtotal ((b, m') # vs') = unat m + mtotal vs"
proof -
  have hi32: "hi < 4294967296" by (simp add: hi)
  have m8: "8 \<le> unat m" using b by (auto intro!: dvd_imp_le)
  have b4: "unat (b + 4) = unat b + 4"
    using b(4) m8 hi32 by (subst unat_add32) auto
  have bm: "unat (b + m) = unat b + unat m" using b(4) hi32 by (intro unat_add32) linarith
  note put = mem_put_block [OF us hi32 b4]
  have lob: "lo \<le> unat b" using mend_ge [OF us(1)] us(2) by simp
  have "4 dvd unat b" using b(1) by presburger
  then have hw: "heap_word t b" "heap_word t (b + 4)"
    using lob b(4) m8 b4 by (auto simp: heap_word_iff lo hi)
  show ?thesis
  proof (cases "vs \<noteq> [] \<and> unat b + unat m = unat (haddr vs)")
    case False
    have "b + m \<noteq> haddr vs" using False bm b(5) by (cases vs) auto
    then have "memfree_coalesce (BLK b) (haddr vs) (put_block us b m (haddr vs) t)
        = Some (put_block us b m (haddr vs) t)"
      using hw put by (simp add: memfree_coalesce_def mb_length_def ld_def)
    moreover have "mok (unat b + unat m + 1) hi vs"
      using vs(1) False by (cases vs) auto
    ultimately show ?thesis using us b vs(2)
      by (intro exI [of _ m] exI [of _ vs]) (auto simp: mok_append)
  next
    case True
    then obtain c k vs' where vs': "vs = (c, k) # vs'" and c: "unat c = unat b + unat m"
      by (cases vs) auto
    have k: "8 dvd unat k" "8 \<le> unat k" "unat c + unat k \<le> hi" and ok: "mok (unat c + unat k + 1) hi vs'"
      using vs(1) vs' by (auto intro: dvd_imp_le)
    have c4: "unat (c + 4) = unat c + 4" using k hi32 by (subst unat_add32) auto
    have mk: "unat (m + k) = unat m + unat k" using k c hi32 by (intro unat_add32) linarith
    have cne: "c \<noteq> b" "c \<noteq> b + 4" "c + 4 \<noteq> b" "c + 4 \<noteq> b + 4"
      using c c4 b4 m8 by (auto simp: word_unat_eq_iff)
    have cus: "c \<notin> hdr_words us" "c + 4 \<notin> hdr_words us"
      using hdr_words_bounds(4) [OF us(1) hi32] us(2) c c4 by fastforce+
    have "4 dvd unat c" using vs(1) vs' by auto
    then have hwc: "heap_word t c" "heap_word t (c + 4)"
      using lob c k c4 by (auto simp: heap_word_iff lo hi)
    have mc: "mem t (c + 4) = k" "mem t c = haddr vs'" "mpath (mem t) (haddr vs') vs' 0"
      using vs(2) vs' mpath_head [of "mem t" "mem t c" vs'] by auto
    have "b + m = c" using bm c by (simp add: word_unat_eq_iff)
    then have "memfree_coalesce (BLK b) (haddr vs) (put_block us b m (haddr vs) t)
        = Some (put_block us b (m + k) (haddr vs') t)"
      using hw hwc put cne cus mc vs'
      by (simp add: memfree_coalesce_def mb_length_def set_mb_length_def set_mb_next_def ld_def st_def
          flip: put_block_over [OF put(4,5,6), of m c t "m + k" "haddr vs'"])
    moreover have "mok lo hi (us @ (b, m + k) # vs')"
      using us b k mk c ok by (auto simp: mok_append add.assoc)
    moreover have "free_bytes ((b, m + k) # vs') = blk_bytes b m \<union> free_bytes vs"
      using mk c vs' by (auto simp: blk_bytes_def)
    ultimately show ?thesis using mc(3) mk vs'
      by (intro exI [of _ "m + k"] exI [of _ vs']) auto
  qed
qed

text \<open>The first half of \<open>memfree\<close>: extend the block below, or link a new one in.\<close>

lemma link_refines:
  assumes lo: "lo = unat (memheap t)" and hi: "hi = unat (maxaddr t)" "0 < lo"
    and us: "mok lo hi us" "mpath (mem t) (memlist_next t) us (haddr vs)"
    and fit: "us \<noteq> [] \<Longrightarrow> unat (fst (last us)) + unat (snd (last us)) \<le> unat block"
    and blk: "lo \<le> unat block" "8 dvd unat block" "8 dvd unat n" "0 < unat n" "unat block + unat n \<le> hi"
  defines "tp \<equiv> (if us = [] then 0 else fst (last us) + snd (last us))"
  shows "\<exists>us' b m. memfree_link (bptr us) (haddr vs) tp block n t
      = Some (BLK b, put_block us' b m (haddr vs) t) \<and>
    mok lo hi us' \<and> mend lo us' \<le> unat b \<and> 8 dvd unat b \<and> 8 dvd unat m \<and> 0 < unat m \<and> 0 < unat b \<and>
    unat b + unat m = unat block + unat n \<and> (\<exists>e. mpath (mem t) (memlist_next t) us' e) \<and>
    free_bytes us' \<union> blk_bytes b m = free_bytes us \<union> blk_bytes block n \<and>
    mtotal us' + unat m = mtotal us + unat n"
proof (cases "us \<noteq> [] \<and> tp = block")
  case True
  then obtain us' p l where us': "us = us' @ [(p, l)]" by (metis prod.collapse rev_exhaust)
  have ok: "mok lo hi us'" "mend lo us' \<le> unat p" "8 dvd unat p" "8 dvd unat l" "0 < unat l" "unat p + unat l \<le> hi"
    using us(1) us' by (auto simp: mok_append)
  have hi32: "hi < 4294967296" by (simp add: hi)
  have pl: "unat block = unat p + unat l"
    using True us' ok(6) hi32 unfolding tp_def by (auto intro!: unat_add32)
  have ln: "unat (l + n) = unat l + unat n" using pl blk(5) hi32 by (intro unat_add32) linarith
  have "8 \<le> unat l" using ok by (auto intro!: dvd_imp_le)
  then have p4: "unat (p + 4) = unat p + 4" using ok(6) hi32 by (subst unat_add32) auto
  have lop: "lo \<le> unat p" using mend_ge [OF ok(1)] ok(2) by simp
  have "4 dvd unat p" using ok(3) by presburger
  then have hw: "heap_word t (p + 4)"
    using lop ok \<open>8 \<le> unat l\<close> p4 by (auto simp: heap_word_iff lo hi)
  have path: "mpath (mem t) (memlist_next t) us' p" "mem t p = haddr vs" "mem t (p + 4) = l"
    using us(2) us' by (auto simp: mpath_append)
  have sep: "p + 4 \<notin> hdr_words us'"
    using hdr_words_bounds(4) [OF ok(1) hi32] ok(2) p4 by fastforce
  have "put_block us' p (l + n) (haddr vs) t = t\<lparr>mem := (mem t)(p + 4 := l + n)\<rparr>"
    using relink_id [of "t\<lparr>mem := (mem t)(p + 4 := l + n)\<rparr>" us' p] path sep
    by (simp add: put_block_def fun_upd_idem)
  then have "memfree_link (bptr us) (haddr vs) tp block n t
      = Some (BLK p, put_block us' p (l + n) (haddr vs) t)"
    using True us' hw path
    by (simp add: memfree_link_def mb_length_def set_mb_length_def ld_def st_def)
  then show ?thesis using ok path ln pl us' blk lop hi(2)
    by (intro exI [of _ us'] exI [of _ p] exI [of _ "l + n"]) (auto simp: blk_bytes_def)
next
  case False
  have hi32: "hi < 4294967296" by (simp add: hi)
  have "8 \<le> unat n" using blk by (auto intro!: dvd_imp_le)
  then have b4: "unat (block + 4) = unat block + 4" using blk(5) hi32 by (subst unat_add32) auto
  have "4 dvd unat block" using blk(2) by presburger
  then have hw: "heap_word t block" "heap_word t (block + 4)"
    using blk \<open>8 \<le> unat n\<close> b4 by (auto simp: heap_word_iff lo hi)
  have tb: "tp \<noteq> block" using False blk hi(2) by (auto simp: tp_def)
  have mend: "mend lo us \<le> unat block"
  proof (cases "us = []")
    case False
    have "unat (fst (last us)) + unat (snd (last us)) < 4294967296"
      using fit [OF False] unat_lt32 [of block] by linarith
    then have "unat tp = unat (fst (last us)) + unat (snd (last us))"
      using False unfolding tp_def by (simp add: unat_add32)
    with False fit tb show ?thesis by (fastforce simp: mend_last word_unat_eq_iff)
  qed (use blk in simp)
  have hwl: "heap_word t (fst (last us))" if "us \<noteq> []"
    using hdr_words_bounds [OF us(1) hi32 last_hdr [OF that]] by (simp add: heap_word_iff lo hi)
  have "memfree_link (bptr us) (haddr vs) tp block n t
      = Some (BLK block, put_block us block n (haddr vs) t)"
    using tb hw hwl
    by (simp add: memfree_link_def st_def set_mb_next_def put_block_def relink_def bptr_def)
  then show ?thesis using us mend blk hi(2)
    by (intro exI [of _ us] exI [of _ block] exI [of _ n]) auto
qed

text \<open>The overlap test of \<open>memfree\<close> against the two neighbours is exact.\<close>

definition fits_between :: "(u32 \<times> u32) list \<Rightarrow> (u32 \<times> u32) list \<Rightarrow> u32 \<Rightarrow> u32 \<Rightarrow> bool" where
  "fits_between us vs block n \<longleftrightarrow>
     (us \<noteq> [] \<longrightarrow> unat (fst (last us)) + unat (snd (last us)) \<le> unat block) \<and>
     (vs \<noteq> [] \<longrightarrow> unat block + unat n \<le> unat (haddr vs))"

lemma fits_between_iff:
  assumes ok: "mok lo hi (us @ vs)" and us: "\<forall>p \<in> set us. fst p < block"
    and vs: "vs \<noteq> [] \<Longrightarrow> block \<le> haddr vs" and n: "0 < unat n"
  shows "fits_between us vs block n \<longleftrightarrow> blk_bytes block n \<inter> free_bytes (us @ vs) = {}"
proof
  assume fit: "fits_between us vs block n"
  have "x < unat block" if x: "x \<in> free_bytes us" for x
  proof -
    have "us \<noteq> []" using x by auto
    moreover have "mok lo hi us" using ok by (simp add: mok_append)
    ultimately show ?thesis
      using free_bytes_bounds [OF _ x, of lo hi] fit
      by (auto simp: fits_between_def mend_last)
  qed
  moreover have "unat block + unat n \<le> x" if x: "x \<in> free_bytes vs" for x
  proof -
    obtain c k vs' where "vs = (c, k) # vs'" using x by (cases vs) auto
    moreover have "mok (unat c) hi vs" using ok calculation by (auto simp: mok_append)
    ultimately show ?thesis using free_bytes_bounds [OF _ x, of "unat c" hi] fit
      by (auto simp: fits_between_def)
  qed
  ultimately show "blk_bytes block n \<inter> free_bytes (us @ vs) = {}"
    by (fastforce simp: blk_bytes_def)
next
  assume dis: "blk_bytes block n \<inter> free_bytes (us @ vs) = {}"
  have "unat (fst (last us)) + unat (snd (last us)) \<le> unat block" if ne: "us \<noteq> []"
  proof (rule ccontr)
    assume "\<not> ?thesis"
    moreover obtain p l where pl: "last us = (p, l)" by (cases "last us")
    moreover have "(p, l) \<in> set us" using pl last_in_set [OF ne] by simp
    moreover have "p < block" using us calculation by force
    ultimately have "unat block \<in> blk_bytes p l" "(p, l) \<in> set us"
      by (auto simp: blk_bytes_def word_less_nat_alt)
    then have "unat block \<in> free_bytes (us @ vs)" by (force simp: free_bytes_def)
    moreover have "unat block \<in> blk_bytes block n" using n by (simp add: blk_bytes_def)
    ultimately show False using dis by blast
  qed
  moreover have "unat block + unat n \<le> unat (haddr vs)" if ne: "vs \<noteq> []"
  proof (rule ccontr)
    assume a: "\<not> ?thesis"
    obtain c k vs' where c: "vs = (c, k) # vs'" using ne by (cases vs) auto
    have "0 < unat k" using ok c by (auto simp: mok_append)
    with a c vs [OF ne] have "unat c \<in> blk_bytes c k" "unat c \<in> blk_bytes block n"
      by (auto simp: blk_bytes_def word_le_nat_alt)
    with dis c show False by auto
  qed
  ultimately show "fits_between us vs block n" by (simp add: fits_between_def)
qed

text \<open>Both halves together, from a state whose total has already been raised.\<close>

lemma release_refines:
  assumes inv: "minv s (us @ vs)" and fit: "fits_between us vs block m"
    and blk: "unat (memheap s) \<le> unat block" "8 dvd unat block" "8 dvd unat m" "0 < unat m"
      "unat block + unat m \<le> unat (maxaddr s)"
  defines "t \<equiv> s\<lparr>memlist_length := memlist_length s + m\<rparr>"
    and "tp \<equiv> (if us = [] then 0 else fst (last us) + snd (last us))"
  shows "\<exists>b t' s' bs'. memfree_link (bptr us) (haddr vs) tp block m t = Some (b, t') \<and>
    memfree_coalesce b (haddr vs) t' = Some s' \<and> only_heap s s' \<and> minv s' bs' \<and>
    free_bytes bs' = free_bytes (us @ vs) \<union> blk_bytes block m \<and>
    (\<forall>x. unat x \<notin> free_bytes (us @ vs) \<union> blk_bytes block m \<longrightarrow> mem s' x = mem s x)"
proof -
  let ?lo = "unat (memheap t)" and ?hi = "unat (maxaddr t)"
  note D = minvD [OF inv]
  have ok: "mok ?lo ?hi us" "mok (mend ?lo us) ?hi vs" and lo: "0 < ?lo"
    using D(1,3) by (auto simp: t_def mok_append)
  have path: "mpath (mem t) (memlist_next t) us (haddr vs)" "mpath (mem t) (haddr vs) vs 0"
    using D(2) mpath_head by (fastforce simp: t_def mpath_append)+
  obtain us' b m1 where l: "memfree_link (bptr us) (haddr vs) tp block m t
      = Some (BLK b, put_block us' b m1 (haddr vs) t)"
      "mok ?lo ?hi us'" "mend ?lo us' \<le> unat b" "8 dvd unat b" "8 dvd unat m1" "0 < unat m1" "0 < unat b"
      "unat b + unat m1 = unat block + unat m" "\<exists>e. mpath (mem t) (memlist_next t) us' e"
      "free_bytes us' \<union> blk_bytes b m1 = free_bytes us \<union> blk_bytes block m"
      "mtotal us' + unat m1 = mtotal us + unat m"
    using link_refines [OF refl refl lo ok(1) path(1), of block m] fit blk
    unfolding tp_def t_def fits_between_def by auto
  have "unat b + unat m1 \<le> ?hi" using l(8) blk(5) by (simp add: t_def)
  moreover have "mok (unat b + unat m1) ?hi vs"
    using fit l(8) by (intro mok_raise [OF ok(2)]) (simp add: fits_between_def)
  ultimately obtain m2 vs' where c: "memfree_coalesce (BLK b) (haddr vs) (put_block us' b m1 (haddr vs) t)
      = Some (put_block us' b m2 (haddr vs') t)" "mok ?lo ?hi (us' @ (b, m2) # vs')"
      "mpath (mem t) (haddr vs') vs' 0" "free_bytes ((b, m2) # vs') = blk_bytes b m1 \<union> free_bytes vs"
      "mtotal ((b, m2) # vs') = unat m1 + mtotal vs"
    using coalesce_refines [OF refl refl l(2-6) _ l(7) _ path(2)] by auto
  let ?s' = "put_block us' b m2 (haddr vs') t" and ?bs' = "us' @ (b, m2) # vs'"
  have free: "free_bytes ?bs' = free_bytes (us @ vs) \<union> blk_bytes block m"
    using c(4) l(10) by auto
  have tot: "mtotal ?bs' = mtotal (us @ vs) + unat m" using c(5) l(11) by simp
  have "?lo \<le> ?hi" using blk(1,5) by (simp add: t_def)
  from mok_total [OF c(2) this] have "mtotal ?bs' < 4294967296"
    using unat_lt32 [of "maxaddr t"] by linarith
  then have "unat (memlist_length t) = mtotal ?bs'"
    using D(4) tot by (simp add: t_def unat_add32)
  with c(2,3) l(9) inv have minv: "minv ?s' ?bs'"
    using mpath_put_block [of t us' _ vs' ?lo ?hi b m2] by (auto simp: minv_def t_def)
  have frame: "mem ?s' x = mem s x" if "unat x \<notin> free_bytes (us @ vs) \<union> blk_bytes block m" for x
  proof -
    have "x \<notin> hdr_words ?bs'" using hdr_in_free [OF minv, of x] that free by auto
    then show ?thesis by (simp add: put_block_def mem_relink t_def)
  qed
  have "only_heap s t" unfolding t_def by (rule only_heapI1)
  moreover have "only_heap t ?s'" unfolding put_block_def
    by (rule only_heap_trans [OF only_heapI1(1) only_heap_relink])
  ultimately have "only_heap s ?s'" by (rule only_heap_trans)
  with l(1) c(1) minv free frame show ?thesis by blast
qed

lemma top_refines:
  assumes inv: "minv s (us @ vs)"
  defines "tp \<equiv> (if us = [] then 0 else fst (last us) + snd (last us))"
  shows "(case bptr us of MEMLIST \<Rightarrow> Some 0 | BLK p \<Rightarrow> do { l \<leftarrow> mb_length s (bptr us); Some (p + l) }) = Some tp"
    and "us \<noteq> [] \<Longrightarrow> unat tp = unat (fst (last us)) + unat (snd (last us))"
proof -
  have "mb_length s (bptr us) = Some (snd (last us)) \<and>
      unat (fst (last us) + snd (last us)) = unat (fst (last us)) + unat (snd (last us))"
    if ne: "us \<noteq> []"
  proof -
    obtain us0 p l where us0: "us = us0 @ [(p, l)]" by (metis ne prod.collapse rev_exhaust)
    have i: "minv s (us0 @ (p, l) # vs)" using inv us0 by simp
    have "mem s (p + 4) = l" "heap_word s (p + 4)"
      using minvD(2) [OF i] minv_hdr [OF i, of "p + 4"] by (auto simp: mpath_append)
    moreover have "unat p + unat l \<le> unat (maxaddr s)" using minv_sep(6) [OF i] by simp
    then have "unat (p + l) = unat p + unat l"
      using unat_lt32 [of "maxaddr s"] by (intro unat_add32) linarith
    ultimately show ?thesis using us0 by (simp add: mb_length_def ld_def bptr_def)
  qed
  then show "(case bptr us of MEMLIST \<Rightarrow> Some 0 | BLK p \<Rightarrow> do { l \<leftarrow> mb_length s (bptr us); Some (p + l) }) = Some tp"
    "us \<noteq> [] \<Longrightarrow> unat tp = unat (fst (last us)) + unat (snd (last us))"
    by (auto simp: tp_def bptr_def)
qed

lemma memfree_refines:
  assumes inv: "minv s bs" and n: "nbytes \<noteq> 0" "unat nbytes \<le> 4294967288"
    and blk: "unat (memheap s) \<le> unat block" "8 dvd unat block"
      "unat block + unat (roundmb nbytes) \<le> unat (maxaddr s)"
  defines "m \<equiv> roundmb nbytes"
  shows "if blk_bytes block m \<inter> free_bytes bs = {}
    then \<exists>s' bs'. memfree block nbytes s = Some (OK, s') \<and> only_heap s s' \<and> minv s' bs' \<and>
      free_bytes bs' = free_bytes bs \<union> blk_bytes block m \<and>
      (\<forall>x. unat x \<notin> free_bytes bs \<union> blk_bytes block m \<longrightarrow> mem s' x = mem s x)
    else memfree block nbytes s = Some (SYSERR, s)"
proof -
  define us where "us = takeWhile (\<lambda>p. fst p < block) bs"
  define vs where "vs = dropWhile (\<lambda>p. fst p < block) bs"
  define tp where "tp = (if us = [] then 0 else fst (last us) + snd (last us))"
  let ?s = "s\<lparr>irq := False\<rparr>"
  have split: "bs = us @ vs" by (simp add: us_def vs_def)
  have inv': "minv ?s (us @ vs)" using inv split by simp
  note D = minvD [OF inv']
  have m: "8 dvd unat m" "0 < unat m"
    unfolding m_def by (rule roundmb_aligned, rule roundmb_pos [OF n])
  have usb: "\<forall>p \<in> set us. fst p < block" by (auto simp: us_def dest: set_takeWhileD)
  have vsb: "block \<le> haddr vs" if "vs \<noteq> []"
    using hd_dropWhile [of "\<lambda>p. fst p < block" bs] that
    by (cases vs) (auto simp: vs_def not_less)
  have loop: "memfree_loop block MEMLIST (memlist_next s) ?s = Some (bptr us, haddr vs)"
    using memfree_loop_refines [of ?s "[]" bs block] inv mpath_head [OF minvD(2) [OF inv]]
    by (simp add: us_def vs_def)
  note tpu = top_refines [OF inv', folded tp_def]
  have bm: "unat (block + m) = unat block + unat m"
    using blk(3) unat_lt32 [of "maxaddr s"] unfolding m_def by (intro unat_add32) linarith
  have hz: "haddr vs \<noteq> 0 \<longleftrightarrow> vs \<noteq> []" using vsb blk(1) D(3) by (cases vs) (auto simp: word_le_nat_alt)
  have cond: "(tp > block \<or> haddr vs \<noteq> 0 \<and> block + m > haddr vs) \<longleftrightarrow> \<not> fits_between us vs block m"
    unfolding fits_between_def hz using tpu(2) bm
    by (auto simp: word_less_nat_alt tp_def not_le not_less)
  have dis: "fits_between us vs block m \<longleftrightarrow> blk_bytes block m \<inter> free_bytes bs = {}"
    using fits_between_iff [OF D(1) usb vsb m(2)] split by simp
  have guard: "\<not> (nbytes = 0 \<or> block < memheap s \<or> block > maxaddr s)"
    using n blk by (auto simp: word_less_nat_alt)
  show ?thesis
  proof (cases "fits_between us vs block m")
    case False
    then have "memfree block nbytes s = Some (SYSERR, s)"
      using guard loop tpu(1) cond
      by (simp add: memfree_def disable_def restore_def Let_def m_def)
    with False dis show ?thesis by simp
  next
    case True
    have b': "unat (memheap ?s) \<le> unat block" "unat block + unat m \<le> unat (maxaddr ?s)"
      using blk by (simp_all add: m_def)
    from release_refines [OF inv' True b'(1) blk(2) m b'(2), folded tp_def]
    obtain b t' s' bs' where r: "memfree_link (bptr us) (haddr vs) tp block m
        (?s\<lparr>memlist_length := memlist_length ?s + m\<rparr>) = Some (b, t')"
      "memfree_coalesce b (haddr vs) t' = Some s'" "only_heap ?s s'" "minv s' bs'"
      "free_bytes bs' = free_bytes (us @ vs) \<union> blk_bytes block m"
      "\<forall>x. unat x \<notin> free_bytes (us @ vs) \<union> blk_bytes block m \<longrightarrow> mem s' x = mem ?s x"
      by blast
    have "memfree block nbytes s = Some (OK, s'\<lparr>irq := irq s\<rparr>)"
      using guard loop tpu(1) cond True r(1,2)
      by (auto simp: memfree_def disable_def restore_def Let_def m_def)
    moreover have "only_heap s (s'\<lparr>irq := irq s\<rparr>)" using r(3) by (rule only_heap_irq)
    ultimately show ?thesis using True dis r(4-6) split
      by (auto intro!: exI [of _ "s'\<lparr>irq := irq s\<rparr>"] exI [of _ bs'])
  qed
qed

end
