(* ===== verification/Memory_Contract.thy ===== *)
theory Memory_Contract
  imports Memory_Refinement
begin

text \<open>
  What the rest of the kernel relies on: \<open>memget\<close> and \<open>stkget\<close> hand out memory that was
  free and is no longer free, \<open>memfree\<close> and \<open>stkfree\<close> give it back, and nobody else's
  memory is written. The contract is a locale over the set of free bytes; both pairs of
  operations are interpretations of it, and the laws clients use are proved once.
\<close>

section \<open>The contract\<close>

text \<open>A well-formed heap whose free bytes are \<open>F\<close>.\<close>

definition heap_free :: "kstate \<Rightarrow> nat set \<Rightarrow> bool" where
  "heap_free s F \<longleftrightarrow> (\<exists>bs. minv s bs \<and> free_bytes bs = F)"

text \<open>A region that lies in the heap and is aligned.\<close>

definition in_heap :: "kstate \<Rightarrow> u32 \<Rightarrow> u32 \<Rightarrow> bool" where
  "in_heap s a n \<longleftrightarrow> unat (memheap s) \<le> unat a \<and> 8 dvd unat a \<and> unat a + unat n \<le> unat (maxaddr s)"

text \<open>A request that does not wrap around when it is rounded.\<close>

definition fair :: "u32 \<Rightarrow> bool" where
  "fair n \<longleftrightarrow> n \<noteq> 0 \<and> unat n \<le> 4294967288"

locale allocator =
  fixes alloc :: "u32 \<Rightarrow> kstate \<Rightarrow> (u32 \<times> kstate) option"
    and release :: "u32 \<Rightarrow> u32 \<Rightarrow> kstate \<Rightarrow> (int \<times> kstate) option"
    and base :: "u32 \<Rightarrow> u32 \<Rightarrow> u32"
  assumes alloc_law: "heap_free s F \<Longrightarrow> fair n \<Longrightarrow>
      alloc n s = Some (USYSERR, s) \<or>
      (\<exists>p s'. alloc n s = Some (p, s') \<and> p \<noteq> USYSERR \<and> in_heap s (base p n) (roundmb n) \<and>
        blk_bytes (base p n) (roundmb n) \<subseteq> F \<and> heap_free s' (F - blk_bytes (base p n) (roundmb n)) \<and>
        only_heap s s' \<and> (\<forall>x. unat x \<notin> F \<longrightarrow> mem s' x = mem s x))"
    and release_law: "heap_free s F \<Longrightarrow> fair n \<Longrightarrow> in_heap s (base p n) (roundmb n) \<Longrightarrow>
      blk_bytes (base p n) (roundmb n) \<inter> F = {} \<Longrightarrow>
      \<exists>s'. release p n s = Some (OK, s') \<and> heap_free s' (F \<union> blk_bytes (base p n) (roundmb n)) \<and>
        only_heap s s' \<and> (\<forall>x. unat x \<notin> F \<union> blk_bytes (base p n) (roundmb n) \<longrightarrow> mem s' x = mem s x)"
    and release_twice: "heap_free s F \<Longrightarrow> fair n \<Longrightarrow> in_heap s (base p n) (roundmb n) \<Longrightarrow>
      blk_bytes (base p n) (roundmb n) \<inter> F \<noteq> {} \<Longrightarrow> release p n s = Some (SYSERR, s)"
begin

text \<open>Allocation followed by release gives the same free bytes and changes no used byte.\<close>

lemma alloc_release:
  assumes "heap_free s F" "fair n" "alloc n s = Some (p, s')" "p \<noteq> USYSERR"
  shows "\<exists>s''. release p n s' = Some (OK, s'') \<and> heap_free s'' F \<and> only_heap s s'' \<and>
    (\<forall>x. unat x \<notin> F \<longrightarrow> mem s'' x = mem s x)"
proof -
  let ?B = "blk_bytes (base p n) (roundmb n)"
  have a: "in_heap s (base p n) (roundmb n)" "?B \<subseteq> F" "heap_free s' (F - ?B)" "only_heap s s'"
      "\<forall>x. unat x \<notin> F \<longrightarrow> mem s' x = mem s x"
    using alloc_law [OF assms(1,2)] assms(3,4) by auto
  have "in_heap s' (base p n) (roundmb n)" using a(1) only_heap_bounds [OF a(4)] by (simp add: in_heap_def)
  from release_law [OF a(3) assms(2) this]
  obtain s'' where s'': "release p n s' = Some (OK, s'')" "heap_free s'' (F - ?B \<union> ?B)" "only_heap s' s''"
      "\<forall>x. unat x \<notin> F - ?B \<union> ?B \<longrightarrow> mem s'' x = mem s' x"
    by blast
  moreover have "F - ?B \<union> ?B = F" using a(2) by blast
  ultimately show ?thesis using a(4,5) only_heap_trans by auto
qed

text \<open>Two regions handed out one after the other do not overlap.\<close>

lemma alloc_disjoint:
  assumes "heap_free s F" "fair n" "fair m" "alloc n s = Some (p, s')" "p \<noteq> USYSERR"
    "alloc m s' = Some (q, s'')" "q \<noteq> USYSERR"
  shows "blk_bytes (base p n) (roundmb n) \<inter> blk_bytes (base q m) (roundmb m) = {}"
proof -
  have a: "heap_free s' (F - blk_bytes (base p n) (roundmb n))"
    using alloc_law [OF assms(1,2)] assms(4,5) by auto
  have "blk_bytes (base q m) (roundmb m) \<subseteq> F - blk_bytes (base p n) (roundmb n)"
    using alloc_law [OF a assms(3)] assms(6,7) by auto
  then show ?thesis by blast
qed

end

section \<open>The heap operations fulfil it\<close>

lemma free_in_heap:
  assumes "minv s bs" "x \<in> free_bytes bs"
  shows "unat (memheap s) \<le> x" "x < unat (maxaddr s)"
  using free_bytes_bounds [OF minvD(1) [OF assms(1)] assms(2)] by simp_all

lemma len32_pow: "2 ^ LENGTH(32) = (4294967296 :: nat)"
  by simp

lemma aligned_not_USYSERR:
  assumes "8 dvd unat (p - m + (c :: u32))" "8 dvd unat m" "4 dvd unat c"
  shows "p \<noteq> USYSERR"
proof
  assume "p = USYSERR"
  then have "c - 1 = (p - m + c) + m" by (simp add: USYSERR_def)
  then have "unat (c - 1) = (unat (p - m + c) + unat m) mod 4294967296"
    using unat_word_ariths(1) [of "p - m + c" m] by (simp only: len32_pow)
  moreover have "4 dvd unat (p - m + c)" "4 dvd unat m" using assms(1,2) by (auto elim!: dvdE)
  ultimately have "4 dvd unat (c - 1)" by (simp add: dvd_mod)
  moreover have "unat c = (unat (c - 1) + 1) mod 4294967296"
    using unat_word_ariths(1) [of "c - 1" 1] by simp
  then have "4 dvd unat (c - 1) + 1" using assms(3) by (simp add: dvd_mod_iff)
  ultimately show False by presburger
qed

lemma memget_alloc:
  assumes "heap_free s F" "fair n"
  shows "memget n s = Some (USYSERR, s) \<or>
      (\<exists>p s'. memget n s = Some (p, s') \<and> p \<noteq> USYSERR \<and> in_heap s p (roundmb n) \<and>
        blk_bytes p (roundmb n) \<subseteq> F \<and> heap_free s' (F - blk_bytes p (roundmb n)) \<and>
        only_heap s s' \<and> (\<forall>x. unat x \<notin> F \<longrightarrow> mem s' x = mem s x))"
proof -
  obtain bs where bs: "minv s bs" "free_bytes bs = F" using assms(1) by (auto simp: heap_free_def)
  have n: "n \<noteq> 0" "unat n \<le> 4294967288" using assms(2) by (auto simp: fair_def)
  note r = memget_refines [OF bs(1) n]
  show ?thesis
  proof (cases "first_fit (roundmb n) bs")
    case None
    then show ?thesis using r by simp
  next
    case (Some r')
    then obtain a bs' where ff: "first_fit (roundmb n) bs = Some (a, bs')" by (cases r') auto
    with r obtain s' where s': "memget n s = Some (a, s')" "mem_step s s' bs bs'" by auto
    have "blk_bytes a (roundmb n) \<subseteq> free_bytes bs" "free_bytes bs' = free_bytes bs - blk_bytes a (roundmb n)"
        "8 dvd unat a" "unat (memheap s) \<le> unat a" "unat a + unat (roundmb n) \<le> unat (maxaddr s)"
      using first_fit_sound [OF minvD(1) [OF bs(1)] unat_lt32 ff roundmb_pos [OF n]] by auto
    moreover have "a \<noteq> USYSERR" using aligned_not_USYSERR [of a 0 0] calculation(3) by simp
    ultimately show ?thesis using s' bs by (auto simp: mem_step_def heap_free_def in_heap_def)
  qed
qed

lemma minv_free_split:
  assumes "minv s (us @ (b, l) # vs)"
  shows "free_bytes us \<inter> blk_bytes b l = {}" "free_bytes vs \<inter> blk_bytes b l = {}"
proof -
  have ok: "mok (unat (memheap s)) (unat (maxaddr s)) us" "mend (unat (memheap s)) us \<le> unat b"
      "mok (unat b + unat l + 1) (unat (maxaddr s)) vs"
    using minvD(1) [OF assms] by (auto simp: mok_append)
  show "free_bytes us \<inter> blk_bytes b l = {}"
    using free_bytes_bounds [OF ok(1)] ok(2) by (fastforce simp: blk_bytes_def)
  show "free_bytes vs \<inter> blk_bytes b l = {}"
    using free_bytes_bounds [OF ok(3)] by (fastforce simp: blk_bytes_def)
qed

lemma stkget_alloc:
  assumes "heap_free s F" "fair n"
  shows "stkget n s = Some (USYSERR, s) \<or>
      (\<exists>p s'. stkget n s = Some (p, s') \<and> p \<noteq> USYSERR \<and> in_heap s (p - roundmb n + 4) (roundmb n) \<and>
        blk_bytes (p - roundmb n + 4) (roundmb n) \<subseteq> F \<and> heap_free s' (F - blk_bytes (p - roundmb n + 4) (roundmb n)) \<and>
        only_heap s s' \<and> (\<forall>x. unat x \<notin> F \<longrightarrow> mem s' x = mem s x))"
proof -
  obtain bs where bs: "minv s bs" "free_bytes bs = F" using assms(1) by (auto simp: heap_free_def)
  have n: "n \<noteq> 0" "unat n \<le> 4294967288" using assms(2) by (auto simp: fair_def)
  define m where "m = roundmb n"
  have m: "8 dvd unat m" "0 < unat m" unfolding m_def by (rule roundmb_aligned, rule roundmb_pos [OF n])
  from stkget_refines [OF bs(1) n, folded m_def] show ?thesis
  proof (elim disjE exE conjE)
    fix us b l vs s'
    assume split: "bs = us @ (b, l) # vs" and le: "m \<le> l"
      and s': "stkget n s = Some (b + l - 4, s')" "mem_step s s' bs (if l = m then us @ vs else us @ (b, l - m) # vs)"
    have mok: "mok (unat (memheap s)) (unat (maxaddr s)) (us @ (b, l) # vs)" using minvD(1) [OF bs(1)] split by simp
    have blk: "unat (memheap s) \<le> unat b" "8 dvd unat b" "8 dvd unat l" "unat b + unat l \<le> unat (maxaddr s)"
      using mok_block [OF mok, of b l] by auto
    have ul: "unat m \<le> unat l" using le by (simp add: word_le_nat_alt)
    have top: "b + l - 4 - m + 4 = b + (l - m)" by simp
    have ua: "unat (b + (l - m)) = unat b + (unat l - unat m)"
    proof -
      have "unat b + (unat l - unat m) < 4294967296"
        using blk(4) ul unat_lt32 [of "maxaddr s"] by linarith
      then show ?thesis using ul by (subst unat_add32) (simp_all add: unat_sub32)
    qed
    have "in_heap s (b + (l - m)) m"
      using blk m ul ua by (auto simp: in_heap_def)
    moreover have sub: "blk_bytes (b + (l - m)) m \<subseteq> blk_bytes b l"
      using ua ul by (auto simp: blk_bytes_def)
    moreover have "free_bytes (if l = m then us @ vs else us @ (b, l - m) # vs) = F - blk_bytes (b + (l - m)) m"
    proof -
      have "blk_bytes b l - blk_bytes (b + (l - m)) m = (if l = m then {} else blk_bytes b (l - m))"
        using ua ul unat_sub32 [OF ul] by (auto simp: blk_bytes_def)
      moreover have "F = free_bytes us \<union> blk_bytes b l \<union> free_bytes vs" using bs(2) split by auto
      ultimately show ?thesis using minv_free_split [OF bs(1) [unfolded split]] sub by (auto split: if_splits)
    qed
    moreover have "b + l - 4 \<noteq> USYSERR"
      using aligned_not_USYSERR [of "b + l - 4" m 4] calculation(1) m(1) unfolding top by (simp add: in_heap_def)
    ultimately show ?thesis
      using s' bs(2) split top unfolding m_def [symmetric] by (auto simp: mem_step_def heap_free_def)
  qed (simp add: m_def)
qed

text \<open>Release, for a region of the heap.\<close>

lemma memfree_law:
  assumes "heap_free s F" "fair n" "in_heap s p (roundmb n)"
  shows "if blk_bytes p (roundmb n) \<inter> F = {}
    then \<exists>s'. memfree p n s = Some (OK, s') \<and> heap_free s' (F \<union> blk_bytes p (roundmb n)) \<and>
        only_heap s s' \<and> (\<forall>x. unat x \<notin> F \<union> blk_bytes p (roundmb n) \<longrightarrow> mem s' x = mem s x)
    else memfree p n s = Some (SYSERR, s)"
proof -
  obtain bs where bs: "minv s bs" "free_bytes bs = F" using assms(1) by (auto simp: heap_free_def)
  from memfree_refines [OF bs(1), of n p] bs(2) assms(2,3) show ?thesis
    by (auto simp: fair_def in_heap_def heap_free_def split: if_splits)
qed

lemma fair_roundmb: "fair n \<Longrightarrow> fair (roundmb n)"
  using roundmb_pos [of n] roundmb_aligned [of n] unat_lt32 [of "roundmb n"]
  by (fastforce simp: fair_def elim!: dvdE)

interpretation heap: allocator memget memfree "\<lambda>p n. p"
proof
  show "heap_free s F \<Longrightarrow> fair n \<Longrightarrow> memget n s = Some (USYSERR, s) \<or>
      (\<exists>p s'. memget n s = Some (p, s') \<and> p \<noteq> USYSERR \<and> in_heap s p (roundmb n) \<and>
        blk_bytes p (roundmb n) \<subseteq> F \<and> heap_free s' (F - blk_bytes p (roundmb n)) \<and>
        only_heap s s' \<and> (\<forall>x. unat x \<notin> F \<longrightarrow> mem s' x = mem s x))" for s F n
    by (rule memget_alloc)
  show "heap_free s F \<Longrightarrow> fair n \<Longrightarrow> in_heap s p (roundmb n) \<Longrightarrow> blk_bytes p (roundmb n) \<inter> F = {} \<Longrightarrow>
      \<exists>s'. memfree p n s = Some (OK, s') \<and> heap_free s' (F \<union> blk_bytes p (roundmb n)) \<and>
        only_heap s s' \<and> (\<forall>x. unat x \<notin> F \<union> blk_bytes p (roundmb n) \<longrightarrow> mem s' x = mem s x)" for s F n p
    using memfree_law [of s F n p] by simp
  show "heap_free s F \<Longrightarrow> fair n \<Longrightarrow> in_heap s p (roundmb n) \<Longrightarrow>
      blk_bytes p (roundmb n) \<inter> F \<noteq> {} \<Longrightarrow> memfree p n s = Some (SYSERR, s)" for s F n p
    using memfree_law [of s F n p] by simp
qed

interpretation stack: allocator stkget stkfree "\<lambda>p n. p - roundmb n + 4"
proof
  have idem: "roundmb (roundmb n) = roundmb n" for n by (simp add: roundmb_aligned)
  show "heap_free s F \<Longrightarrow> fair n \<Longrightarrow> stkget n s = Some (USYSERR, s) \<or>
      (\<exists>p s'. stkget n s = Some (p, s') \<and> p \<noteq> USYSERR \<and> in_heap s (p - roundmb n + 4) (roundmb n) \<and>
        blk_bytes (p - roundmb n + 4) (roundmb n) \<subseteq> F \<and> heap_free s' (F - blk_bytes (p - roundmb n + 4) (roundmb n)) \<and>
        only_heap s s' \<and> (\<forall>x. unat x \<notin> F \<longrightarrow> mem s' x = mem s x))" for s F n
    by (rule stkget_alloc)
  show "heap_free s F \<Longrightarrow> fair n \<Longrightarrow> in_heap s (p - roundmb n + 4) (roundmb n) \<Longrightarrow>
      blk_bytes (p - roundmb n + 4) (roundmb n) \<inter> F = {} \<Longrightarrow>
      \<exists>s'. stkfree p n s = Some (OK, s') \<and> heap_free s' (F \<union> blk_bytes (p - roundmb n + 4) (roundmb n)) \<and>
        only_heap s s' \<and> (\<forall>x. unat x \<notin> F \<union> blk_bytes (p - roundmb n + 4) (roundmb n) \<longrightarrow> mem s' x = mem s x)" for s F n p
    using memfree_law [of s F "roundmb n" "p - roundmb n + 4"] by (simp add: fair_roundmb idem stkfree_def)
  show "heap_free s F \<Longrightarrow> fair n \<Longrightarrow> in_heap s (p - roundmb n + 4) (roundmb n) \<Longrightarrow>
      blk_bytes (p - roundmb n + 4) (roundmb n) \<inter> F \<noteq> {} \<Longrightarrow> stkfree p n s = Some (SYSERR, s)" for s F n p
    using memfree_law [of s F "roundmb n" "p - roundmb n + 4"] by (simp add: fair_roundmb idem stkfree_def)
qed

end
