(* ===== verification/Memory_Properties.thy ===== *)
theory Memory_Properties
  imports Memory_Contract Demo_State
begin

text \<open>The properties of the heap, with concrete instances on the example state.\<close>

lemma first_fit_None: "first_fit n bs = None \<longleftrightarrow> (\<forall>(b, l) \<in> set bs. l < n)"
  by (induction n bs rule: first_fit.induct) (auto simp: not_less)

text \<open>
  C5. \<open>memget\<close> on a well-formed heap terminates without a fault. If some free block is large
  enough it returns an 8-byte aligned region of the rounded size that was free, the free
  bytes are exactly the old ones without it, and no byte that was in use is written;
  otherwise it returns \<open>SYSERR\<close> and changes nothing.
\<close>

theorem memget_correct:
  assumes "minv s bs" "n \<noteq> 0" "unat n \<le> 4294967288"
  shows "if \<forall>(b, l) \<in> set bs. l < roundmb n then memget n s = Some (USYSERR, s)
    else \<exists>a s' bs'. memget n s = Some (a, s') \<and> minv s' bs' \<and> 8 dvd unat a \<and>
      blk_bytes a (roundmb n) \<subseteq> free_bytes bs \<and> free_bytes bs' = free_bytes bs - blk_bytes a (roundmb n) \<and>
      only_heap s s' \<and> (\<forall>x. unat x \<notin> free_bytes bs \<longrightarrow> mem s' x = mem s x)"
proof (cases "first_fit (roundmb n) bs")
  case None
  with memget_refines [OF assms] first_fit_None show ?thesis by auto
next
  case (Some r)
  then obtain a bs' where ff: "first_fit (roundmb n) bs = Some (a, bs')" by (cases r) auto
  moreover have "\<not> (\<forall>(b, l) \<in> set bs. l < roundmb n)" using ff first_fit_None [of "roundmb n" bs] by auto
  moreover obtain s' where "memget n s = Some (a, s')" "mem_step s s' bs bs'"
    using memget_refines [OF assms] ff by auto
  ultimately show ?thesis
    using first_fit_sound [OF minvD(1) [OF assms(1)] unat_lt32 ff roundmb_pos [OF assms(2,3)]]
    by (auto simp: mem_step_def)
qed

lemma demo_minv: "minv demo [(8192, 8192)]"
  by (simp add: minv_def demo_defs mtotal_def)

lemma roundmb_100: "roundmb 100 = 104"
  by (simp add: roundmb_def)

theorem memget_correct_witness:
  "\<exists>a s' bs'. memget 100 demo = Some (a, s') \<and> minv s' bs' \<and> 8 dvd unat a \<and>
      blk_bytes a 104 \<subseteq> free_bytes [(8192, 8192)] \<and> free_bytes bs' = free_bytes [(8192, 8192)] - blk_bytes a 104 \<and>
      only_heap demo s' \<and> (\<forall>x. unat x \<notin> free_bytes [(8192, 8192)] \<longrightarrow> mem s' x = mem demo x)"
  using memget_correct [OF demo_minv, of 100] by (simp add: roundmb_100)

text \<open>
  C6. \<open>memfree\<close> of an aligned region of the heap: if the region is disjoint from the free
  bytes it becomes free (joined with its neighbours, so the list stays well formed) and no
  other byte changes; if it overlaps a free block, as after a double free, the call returns
  \<open>SYSERR\<close> and changes nothing.
\<close>

theorem memfree_correct:
  assumes "minv s bs" "n \<noteq> 0" "unat n \<le> 4294967288" "unat (memheap s) \<le> unat a" "8 dvd unat a"
    "unat a + unat (roundmb n) \<le> unat (maxaddr s)"
  shows "if blk_bytes a (roundmb n) \<inter> free_bytes bs = {}
    then \<exists>s' bs'. memfree a n s = Some (OK, s') \<and> only_heap s s' \<and> minv s' bs' \<and>
      free_bytes bs' = free_bytes bs \<union> blk_bytes a (roundmb n) \<and>
      (\<forall>x. unat x \<notin> free_bytes bs \<union> blk_bytes a (roundmb n) \<longrightarrow> mem s' x = mem s x)
    else memfree a n s = Some (SYSERR, s)"
  by (rule memfree_refines [OF assms])

theorem memfree_correct_witness: "memfree 8200 100 demo = Some (SYSERR, demo)"
proof -
  have "unat (memheap demo) \<le> unat (8200 :: u32)" "unat (8200 :: u32) + unat (roundmb 100) \<le> unat (maxaddr demo)"
    by (simp_all add: demo_defs roundmb_100)
  moreover have "blk_bytes 8200 (roundmb 100) \<inter> free_bytes [(8192, 8192)] \<noteq> {}"
    by (simp add: blk_bytes_def roundmb_100)
  ultimately show ?thesis using memfree_correct [OF demo_minv, of 100 8200] by simp
qed

text \<open>
  C7. Allocating and freeing again restores the set of free bytes and leaves every byte that
  was in use untouched, for the heap calls \<open>memget\<close>/\<open>memfree\<close> and for the stack calls
  \<open>stkget\<close>/\<open>stkfree\<close>.
\<close>

theorem alloc_free_roundtrip:
  assumes "heap_free s F" "fair n" "p \<noteq> USYSERR"
  shows "(memget n s = Some (p, s') \<longrightarrow> (\<exists>s''. memfree p n s' = Some (OK, s'') \<and> heap_free s'' F \<and>
      only_heap s s'' \<and> (\<forall>x. unat x \<notin> F \<longrightarrow> mem s'' x = mem s x))) \<and>
    (stkget n s = Some (p, s') \<longrightarrow> (\<exists>s''. stkfree p n s' = Some (OK, s'') \<and> heap_free s'' F \<and>
      only_heap s s'' \<and> (\<forall>x. unat x \<notin> F \<longrightarrow> mem s'' x = mem s x)))"
  using heap.alloc_release [OF assms(1,2) _ assms(3)] stack.alloc_release [OF assms(1,2) _ assms(3)] by auto

lemma demo_heap: "heap_free demo (free_bytes [(8192, 8192)])"
  using demo_minv by (auto simp: heap_free_def)

theorem alloc_free_roundtrip_witness:
  "\<exists>p s' s''. memget 100 demo = Some (p, s') \<and> memfree p 100 s' = Some (OK, s'') \<and>
     heap_free s'' (free_bytes [(8192, 8192)])"
proof -
  have f: "fair 100" by (simp add: fair_def)
  have "\<not> (\<forall>(b, l) \<in> set [(8192, 8192)]. l < roundmb 100)" by (simp add: roundmb_100)
  then obtain p s' where "memget 100 demo = Some (p, s')" "8 dvd unat p"
    using memget_refines [OF demo_minv, of 100] first_fit_sound [OF minvD(1) [OF demo_minv] unat_lt32, of "roundmb 100"]
    by (auto simp: roundmb_100)
  moreover have "p \<noteq> USYSERR" using aligned_not_USYSERR [of p 0 0] calculation(2) by simp
  ultimately show ?thesis using alloc_free_roundtrip [OF demo_heap f] by blast
qed



lemma roundmb_wraps:
  assumes "4294967288 < unat n"
  shows "roundmb n = 0"
proof -
  have "unat (7 + n) = (7 + unat n) mod 4294967296" using unat_word_ariths(1) [of 7 n] by simp
  moreover have "7 + unat n - 4294967296 < 4294967296" "4294967296 \<le> 7 + unat n"
    using assms unat_lt32 [of n] by linarith+
  then have "(7 + unat n) mod 4294967296 = 7 + unat n - 4294967296"
    by (metis le_mod_geq mod_less)
  ultimately have "unat (7 + n) < 8" using unat_lt32 [of n] by linarith
  then have "unat (roundmb n) = 0" by (simp add: roundmb_def unat_and_not_7)
  then show ?thesis by (simp add: unat_eq_zero)
qed

text \<open>
  A request of more than \<open>0xFFFFFFF8\<close> bytes is rounded to zero. \<open>memget\<close> does not
  reject it: it returns the address of the first free block and leaves the whole block free,
  so the caller and the allocator both own it.
\<close>

theorem memget_wraps:
  assumes "minv s ((b, l) # bs)" "4294967288 < unat n"
  shows "memget n s = Some (b, s) \<and> 0 < unat l"
proof -
  have inv: "minv s ([] @ (b, l) # bs)" using assms(1) by simp
  note sep = minv_sep [OF inv] and D = minvD [OF inv]
  have b: "b \<noteq> 0" "heap_word s b" "heap_word s (b + 4)" "mem s (b + 4) = l" "memlist_next s = b"
    using sep(8) minv_hdr [OF inv] D(2) by auto
  have l: "l \<noteq> 0" "0 < l" using sep(3) by (auto simp: word_less_nat_alt)
  have "memget_loop 0 MEMLIST b (s\<lparr>irq := False\<rparr>) = Some (b, s\<lparr>irq := False\<rparr>)"
    using b l by (subst memget_loop.simps) (simp add: ld_def st_def set_mb_next_def Let_def fun_upd_idem)
  moreover have "n \<noteq> 0" "0 < unat l" using assms(2) sep(3) by auto
  ultimately show ?thesis
    using roundmb_wraps [OF assms(2)] b(5) by (simp add: memget_def disable_def restore_def)
qed

theorem memget_wraps_witness: "memget 4294967295 demo = Some (8192, demo) \<and> 0 < unat (8192 :: u32)"
  using memget_wraps [OF demo_minv, of 4294967295] by simp

end
