(* ===== verification/Clock.thy ===== *)
theory Clock
  imports Threads
begin

text \<open>
  Timed delays: \<open>sleep.c\<close>, \<open>unsleep.c\<close>, \<open>wakeup.c\<close> and the clock interrupt
  \<open>clkhandler.c\<close>, for platforms with \<open>RTCLOCK\<close>. The sleep queue is a delta queue: a
  thread's key is the number of ticks after its predecessor. Programming the next timer
  interrupt (\<open>clkupdate\<close>) touches the timer hardware only.
\<close>

definition CLKTICKS_PER_SEC :: u32 where "CLKTICKS_PER_SEC = 1000"

text \<open>The unsigned product wraps; the quotient then fits a signed \<open>int\<close>.\<close>

definition sleep_ticks :: "u32 \<Rightarrow> int" where
  "sleep_ticks ms = sint ((ms * CLKTICKS_PER_SEC) div 1000)"

definition sleep :: "u32 \<Rightarrow> kstate \<Rightarrow> int outcome" where
  "sleep ms s = (let ticks = sleep_ticks ms; (im, s) = disable s in
     oget (if ticks > 0
           then do {
             (r, s) \<leftarrow> insertd (thrcurrent s) (sleepq s) ticks s;
             if r = SYSERR then Some (False, s)
             else do {
               tt \<leftarrow> aupd (thrtab s) (thrcurrent s) (state_update (\<lambda>_. THRSLEEP));
               Some (True, s\<lparr>thrtab := tt\<rparr>) } }
           else Some (True, s))
       (\<lambda>(ok, s). if \<not> ok then Done SYSERR (restore im s)
         else obind (resched s) (\<lambda>_ s. Done OK (restore im s))))"

definition unsleep :: "int \<Rightarrow> kstate \<Rightarrow> (int \<times> kstate) option" where
  "unsleep tid s = (let (im, s) = disable s in
     if isbadtid s tid then Some (SYSERR, restore im s)
     else do {
       thrptr \<leftarrow> aget (thrtab s) tid;
       if state thrptr \<noteq> THRSLEEP \<and> state thrptr \<noteq> THRTMOUT then Some (SYSERR, restore im s)
       else do {
         e \<leftarrow> aget (quetab s) tid;
         let next = qnext e;
         s \<leftarrow> (if next < NTHREAD s
               then do {
                 n \<leftarrow> aget (quetab s) next;
                 k \<leftarrow> c_int (qkey n + qkey e);
                 qt \<leftarrow> aupd (quetab s) next (qkey_update (\<lambda>_. k));
                 Some (s\<lparr>quetab := qt\<rparr>) }
               else Some s);
         (_, s) \<leftarrow> getitem tid s;
         Some (OK, restore im s) } })"

partial_function (option) wakeup_loop :: "kstate \<Rightarrow> kstate option" where
  "wakeup_loop s = do {
     ne \<leftarrow> nonempty s (sleepq s);
     due \<leftarrow> (if ne then do { k \<leftarrow> firstkey s (sleepq s); Some (k \<le> 0) } else Some False);
     if due
     then do {
       (tid, s) \<leftarrow> dequeue (sleepq s) s;
       case ready tid RESCHED_NO s of Done _ s' \<Rightarrow> wakeup_loop s' | _ \<Rightarrow> None }
     else Some s }"

declare wakeup_loop.simps [code]

definition wakeup :: "kstate \<Rightarrow> int outcome" where
  "wakeup s = oget (wakeup_loop s) resched"

definition clkhandler :: "kstate \<Rightarrow> int outcome" where
  "clkhandler s =
     (let s = s\<lparr>clkticks := clkticks s + 1\<rparr>;
          s = (if CLKTICKS_PER_SEC = clkticks s
               then s\<lparr>clktime := clktime s + 1, clkticks := 0\<rparr> else s)
      in oget (do {
           ne \<leftarrow> nonempty s (sleepq s);
           if ne
           then do {
             h \<leftarrow> aget (quetab s) (quehead (sleepq s));
             f \<leftarrow> aget (quetab s) (qnext h);
             k \<leftarrow> c_int (qkey f - 1);
             qt \<leftarrow> aupd (quetab s) (qnext h) (qkey_update (\<lambda>_. k));
             Some (k \<le> 0, s\<lparr>quetab := qt\<rparr>) }
           else Some (False, s) })
         (\<lambda>(due, s). if due then wakeup s else resched s))"

end
