(* ===== verification/Messages.thy ===== *)
theory Messages
  imports Clock
begin

text \<open>
  Messages between threads: \<open>send.c\<close>, \<open>receive.c\<close>, \<open>recvclr.c\<close> and
  \<open>recvtime.c\<close>. Each thread holds at most one message.
\<close>

definition send :: "int \<Rightarrow> int \<Rightarrow> kstate \<Rightarrow> int outcome" where
  "send tid m s = (let (im, s) = disable s in
     if isbadtid s tid then Done SYSERR (restore im s)
     else oget (aget (thrtab s) tid) (\<lambda>thrptr.
       if state thrptr = THRFREE \<or> hasmsg thrptr then Done SYSERR (restore im s)
       else oget (do {
           tt \<leftarrow> aupd (thrtab s) tid (msg_update (\<lambda>_. m));
           tt \<leftarrow> aupd tt tid (hasmsg_update (\<lambda>_. True));
           Some (s\<lparr>thrtab := tt\<rparr>) })
         (\<lambda>s. obind
           (if state thrptr = THRRECV then ready tid RESCHED_YES s
            else if state thrptr = THRTMOUT
            then obind (olift (unsleep tid s)) (\<lambda>_ s. ready tid RESCHED_YES s)
            else Done OK s)
           (\<lambda>_ s. Done OK (restore im s)))))"

definition receive :: "kstate \<Rightarrow> int outcome" where
  "receive s = (let (im, s) = disable s; cur = thrcurrent s in
     oget (aget (thrtab s) cur) (\<lambda>thrptr.
       obind
         (if \<not> hasmsg thrptr
          then oget (aupd (thrtab s) cur (state_update (\<lambda>_. THRRECV)))
                 (\<lambda>tt. resched (s\<lparr>thrtab := tt\<rparr>))
          else Done OK s)
         (\<lambda>_ s. oget (do {
              thrptr \<leftarrow> aget (thrtab s) cur;
              tt \<leftarrow> aupd (thrtab s) cur (hasmsg_update (\<lambda>_. False));
              Some (msg thrptr, s\<lparr>thrtab := tt\<rparr>) })
            (\<lambda>(m, s). Done m (restore im s)))))"

definition recvclr :: "kstate \<Rightarrow> (int \<times> kstate) option" where
  "recvclr s = (let (im, s) = disable s in do {
     thrptr \<leftarrow> aget (thrtab s) (thrcurrent s);
     let m = (if hasmsg thrptr then msg thrptr else NOMSG);
     tt \<leftarrow> aupd (thrtab s) (thrcurrent s) (hasmsg_update (\<lambda>_. False));
     Some (m, restore im (s\<lparr>thrtab := tt\<rparr>)) })"

text \<open>The end of \<open>recvtime\<close>: the message, or \<open>TIMEOUT\<close>.\<close>

definition recvtime_take :: "int \<Rightarrow> kstate \<Rightarrow> (int \<times> kstate) option" where
  "recvtime_take cur s = do {
     thrptr \<leftarrow> aget (thrtab s) cur;
     if hasmsg thrptr
     then do {
       tt \<leftarrow> aupd (thrtab s) cur (hasmsg_update (\<lambda>_. False));
       Some (msg thrptr, s\<lparr>thrtab := tt\<rparr>) }
     else Some (TIMEOUT, s) }"

definition recvtime :: "int \<Rightarrow> kstate \<Rightarrow> int outcome" where
  "recvtime maxwait s =
     (if maxwait < 0 then Done SYSERR s
      else let (im, s) = disable s; cur = thrcurrent s in
        oget (aget (thrtab s) cur) (\<lambda>thrptr.
          oget (if \<not> hasmsg thrptr
                then do {
                  (r, s) \<leftarrow> insertd (thrcurrent s) (sleepq s) maxwait s;
                  if r = SYSERR then Some (None, s)
                  else do {
                    tt \<leftarrow> aupd (thrtab s) (thrcurrent s) (state_update (\<lambda>_. THRTMOUT));
                    Some (Some True, s\<lparr>thrtab := tt\<rparr>) } }
                else Some (Some False, s))
            (\<lambda>(r, s). case r of None \<Rightarrow> Done SYSERR (restore im s)
              | Some block \<Rightarrow>
                  obind (if block then resched s else Done OK s) (\<lambda>_ s.
                    oget (recvtime_take cur s) (\<lambda>(m, s). Done m (restore im s))))))"

end
