(* ===== verification/Clock_Calls.thy ===== *)
theory Clock_Calls
  imports Clock Call_Safety
begin

text \<open>
  Sleeping, waking and the clock interrupt keep the kernel invariant, and what they do to the
  absolute delays of the sleeping threads.
\<close>

section \<open>Delta lists\<close>

lemma dins_nonneg:
  "0 \<le> k \<Longrightarrow> \<forall>p \<in> set xs. 0 \<le> snd p \<Longrightarrow> \<forall>p \<in> set (dins t k xs). 0 \<le> snd p"
  by (induction t k xs rule: dins.induct) auto

lemma dins_sum:
  "0 \<le> k \<Longrightarrow> \<forall>p \<in> set xs. 0 \<le> snd p \<Longrightarrow>
    sum_list (map snd (dins t k xs)) = max (sum_list (map snd xs)) k"
proof (induction t k xs rule: dins.induct)
  case (2 t k x d xs)
  moreover have "0 \<le> sum_list (map snd xs)" using "2.prems" by (intro sum_list_nonneg) auto
  ultimately show ?case by (auto simp: max_def split: if_splits)
qed simp

lemma delays_keyed: "delays s qs = map snd (keyed (quetab s) (qs (sleepq s)))"
  by (simp add: delays_def keyed_def)

lemma sum_member: "\<forall>d \<in> set ds. 0 \<le> d \<Longrightarrow> d \<in> set ds \<Longrightarrow> (d :: int) \<le> sum_list ds"
  by (rule member_le_sum_list) auto

lemma sleep_keys:
  assumes "sleep_ok s qs" "x \<in> set (qs (sleepq s))"
  shows "0 \<le> key s x" "key s x \<le> INT_MAX"
proof -
  have m: "key s x \<in> set (delays s qs)" using assms(2) by (simp add: delays_def)
  then show "0 \<le> key s x" using assms(1) by (simp add: sleep_ok_def)
  show "key s x \<le> INT_MAX" using sum_member [OF _ m] assms(1) by (fastforce simp: sleep_ok_def)
qed

section \<open>Going to sleep\<close>

lemma sched_insertd:
  assumes ok: "sched_ok X s qs" and t: "t \<in> X" "qat s qs t None" and k: "0 \<le> k" "k \<le> INT_MAX"
    and sl: "sleep_ok s qs"
  shows "\<exists>qt' xs'. insertd t (sleepq s) k s = Some (OK, s\<lparr>quetab := qt'\<rparr>) \<and>
    sched_ok X (s\<lparr>quetab := qt'\<rparr>) (qs(sleepq s := xs')) \<and> qat s (qs(sleepq s := xs')) t (Some (sleepq s)) \<and>
    sleep_ok (s\<lparr>quetab := qt'\<rparr>) (qs(sleepq s := xs')) \<and>
    keyed qt' xs' = dins t k (keyed (quetab s) (qs (sleepq s)))"
proof -
  note D = sched_okD [OF ok]
  let ?q = "sleepq s"
  have pos: "\<forall>x \<in> set (qs ?q). 0 \<le> key s x \<and> key s x \<le> INT_MAX" using sleep_keys [OF sl] by blast
  obtain qt' xs' where qt': "insertd t ?q k s = Some (OK, s\<lparr>quetab := qt'\<rparr>)"
      "qsys qt' (NTHREAD s) (kqueues s) (qs(?q := xs'))" "keyed qt' xs' = dins t k (keyed (quetab s) (qs ?q))"
      "set xs' = insert t (set (qs ?q))" "same_keys (quetab s) qt' (insert t (set (qs ?q)))"
    using insertd_refines [OF D(1,3) goodtid [OF ok t(1)] _ k pos] t(2) by (auto simp: unqueued_iff)
  have "sorted_wrt (\<lambda>x y. qkey (at qt' y) \<le> qkey (at qt' x)) (qs (readylist s))"
  proof (rule sorted_keys_cong [OF D(11) qt'(5)])
    fix x assume x: "x \<in> set (qs (readylist s))"
    have "x \<noteq> t" using x t(2) D(2) by (auto simp: qat_def)
    moreover have "x \<notin> set (qs ?q)" using qsys_disjD [OF D(1,2,3)] x D(4) by blast
    ultimately show "x \<notin> insert t (set (qs ?q)) \<and> inarr (quetab s) x" using key_in(1) [OF ok D(2) x] by simp
  qed
  then have "sched_ok X (s\<lparr>quetab := qt'\<rparr>) (qs(?q := xs'))"
    using D(4) t(1) qt'(4) by (intro sched_queues [OF ok qt'(2)]) auto
  moreover have "qat s (qs(?q := xs')) t (Some ?q)" by (rule qat_insert [OF t(2) D(3) qt'(4)])
  moreover have "sleep_ok (s\<lparr>quetab := qt'\<rparr>) (qs(?q := xs'))"
  proof -
    let ?ds = "keyed (quetab s) (qs ?q)"
    have nn: "\<forall>p \<in> set ?ds. 0 \<le> snd p" using pos by (auto simp: keyed_def)
    have "delays (s\<lparr>quetab := qt'\<rparr>) (qs(?q := xs')) = map snd (dins t k ?ds)" by (simp add: delays_keyed qt'(3))
    then show ?thesis using dins_nonneg [OF k(1) nn, of t] dins_sum [OF k(1) nn, of t] sl k(2) by (auto simp: sleep_ok_def delays_keyed)
  qed
  ultimately show ?thesis using qt'(1,3) by blast
qed

text \<open>The current thread enters the sleep queue and takes a state that says so.\<close>

lemma sleep_current:
  assumes inv: "kinv s" and c: "thrcurrent s \<noteq> NULLTHREAD" and k: "0 \<le> k" "k \<le> INT_MAX"
    and st: "st \<in> {THRSLEEP, THRTMOUT}"
  shows "\<exists>qt' qs'. insertd (thrcurrent s) (sleepq s) k s = Some (OK, s\<lparr>quetab := qt'\<rparr>) \<and>
    kinv_qs (thr_upd (thrcurrent s) (state_update (\<lambda>_. st)) (s\<lparr>quetab := qt'\<rparr>)) qs'"
proof -
  obtain qs where qs: "sched_ok {} s qs" "sem_ok s qs" "sleep_ok s qs" "running s" using inv by (elim kinvE)
  let ?t = "thrcurrent s" and ?f = "state_update (\<lambda>_. st)"
  note D = sched_okD [OF qs(1)]
  have cur: "state (thr s ?t) = THRCURR" using qs(4) by (simp add: running_def)
  have prio: "MINKEY < prio (thr s ?t)" using D(12) [OF D(7)] cur by (auto simp: thr_ok_def)
  have "\<not> isbadtid s ?t" using D(7) cur by (simp add: isbadtid_iff)
  then have ex: "sched_ok {?t} s qs" "qat s qs ?t None" using sched_exempt [OF qs(1), of ?t] cur by (auto simp: loc_def)
  obtain qt' xs' where qt': "insertd ?t (sleepq s) k s = Some (OK, s\<lparr>quetab := qt'\<rparr>)"
      "sched_ok {?t} (s\<lparr>quetab := qt'\<rparr>) (qs(sleepq s := xs'))" "qat s (qs(sleepq s := xs')) ?t (Some (sleepq s))"
      "sleep_ok (s\<lparr>quetab := qt'\<rparr>) (qs(sleepq s := xs'))"
    using sched_insertd [OF ex(1) _ ex(2) k qs(3)] by blast
  have "sched_ok {?t} (thr_upd ?t ?f (s\<lparr>quetab := qt'\<rparr>)) (qs(sleepq s := xs'))"
    by (rule sched_touch [OF qt'(2)]) (use prio st c in auto)
  then have "sched_ok {} (thr_upd ?t ?f (s\<lparr>quetab := qt'\<rparr>)) (qs(sleepq s := xs'))"
    by (rule sched_settle) (use qt'(3) D(7) st in \<open>auto simp: loc_def\<close>)
  moreover have "sem_ok s (qs(sleepq s := xs'))" using qs(2) D(6) by (auto simp: sem_ok_def image_iff)
  ultimately have "kinv_qs (thr_upd ?t ?f (s\<lparr>quetab := qt'\<rparr>)) (qs(sleepq s := xs'))"
    using qt'(4) by (simp add: kinv_qs_def)
  with qt'(1) show ?thesis by blast
qed

lemma sleep_ticks_bounds: "0 \<le> sleep_ticks ms" "sleep_ticks ms \<le> INT_MAX"
proof -
  let ?w = "(ms * CLKTICKS_PER_SEC) div 1000"
  have "unat ?w = unat (ms * CLKTICKS_PER_SEC) div 1000" by (simp add: unat_div_distrib)
  then have "unat ?w < 4294968" using unat_lt32 [of "ms * CLKTICKS_PER_SEC"] by linarith
  then have "sint ?w = int (unat ?w)" by (intro sint_small) linarith
  then show "0 \<le> sleep_ticks ms" "sleep_ticks ms \<le> INT_MAX"
    using \<open>unat ?w < 4294968\<close> unfolding sleep_ticks_def INT_MAX_def by linarith+
qed

lemma sleep_good:
  assumes inv: "kinv s" and c: "thrcurrent s \<noteq> NULLTHREAD"
  shows "good kinv (thrcurrent s) (\<lambda>v s'. irq s' = irq s \<and> v = OK) (sleep ms s)"
proof -
  let ?s = "s\<lparr>irq := False\<rparr>" and ?cur = "thrcurrent s"
  have inv': "kinv ?s" using inv by simp
  have cin: "inarr (thrtab s) ?cur" using inv by (elim kinvE)
  have ret: "good kinv ?cur (\<lambda>v s'. irq s' = irq s \<and> v = OK) (obind (resched w) (\<lambda>_ s'. Done OK (restore (irq s) s')))"
    if "kinv_qs w qs'" "thrcurrent w = ?cur" for w qs'
    using resched_good [OF that(1), unfolded that(2)] by (rule kinv.good_restore) (simp add: restore_def)
  show ?thesis
  proof (cases "sleep_ticks ms > 0")
    case True
    obtain qt' qs' where qt': "insertd ?cur (sleepq s) (sleep_ticks ms) ?s = Some (OK, ?s\<lparr>quetab := qt'\<rparr>)"
        "kinv_qs (thr_upd ?cur (state_update (\<lambda>_. THRSLEEP)) (?s\<lparr>quetab := qt'\<rparr>)) qs'"
      using sleep_current [OF inv', of "sleep_ticks ms" THRSLEEP] c sleep_ticks_bounds [of ms] by auto
    from ret [OF qt'(2)] qt'(1) True cin show ?thesis
      by (simp add: sleep_def disable_def Let_def c_consts)
  next
    case False
    obtain qs where "kinv_qs ?s qs" using inv' by (elim kinvE)
    from ret [OF this] False show ?thesis by (simp add: sleep_def disable_def Let_def)
  qed
qed

section \<open>Leaving the sleep queue early\<close>

text \<open>\<open>unsleep\<close>: the delay of the thread is added to its successor's.\<close>

fun ddel :: "int \<Rightarrow> (int \<times> int) list \<Rightarrow> (int \<times> int) list" where
  "ddel t [] = []"
| "ddel t ((x, d) # xs) =
     (if x = t then (case xs of [] \<Rightarrow> [] | (y, e) # ys \<Rightarrow> (y, e + d) # ys) else (x, d) # ddel t xs)"

lemma fst_wake: "map fst (wake a zs) = map fst zs"
  by (induction a zs rule: wake.induct) auto

lemma wake_ddel: "distinct (map fst xs) \<Longrightarrow> wake acc (ddel t xs) = filter (\<lambda>p. fst p \<noteq> t) (wake acc xs)"
proof (induction t xs arbitrary: acc rule: ddel.induct)
  case (2 t x d xs)
  show ?case
  proof (cases "x = t")
    case True
    then have "\<forall>p \<in> set (wake a xs). fst p \<noteq> t" for a using "2.prems" fst_wake [of a xs] by (metis distinct.simps(2) fst_conv image_eqI list.simps(9) set_map)
    then have "filter (\<lambda>p. fst p \<noteq> t) (wake (acc + d) xs) = wake (acc + d) xs" by (simp add: filter_id_conv)
    with True show ?thesis by (cases xs) (auto simp: algebra_simps)
  next
    case False
    then show ?thesis using "2.IH" "2.prems" by simp
  qed
qed simp

lemma ddel_split: "distinct (map fst (xs @ (t, d) # ys)) \<Longrightarrow>
    ddel t (xs @ (t, d) # ys) = xs @ (case ys of [] \<Rightarrow> [] | (y, e) # zs \<Rightarrow> (y, e + d) # zs)"
  by (induction xs) auto

text \<open>Writing the key of a thread leaves all links alone.\<close>

lemma qsys_rekey:
  assumes sys: "qsys qt n Q qs" and x: "inarr qt x" "x < n"
  shows "qsys (upd qt x (qkey_update f)) n Q qs"
proof -
  have "qrep (upd qt x (qkey_update f)) n q (qs q)" if q: "q \<in> Q" for q
  proof (rule qrep_frame [OF qsysD [OF sys q]])
    note rep = qsysD [OF sys q]
    note nodes = qrep_nodes [OF rep]
    have "n \<le> q" using rep by (simp add: qrep_def)
    then show "qkey (at (upd qt x (qkey_update f)) q) = qkey (at qt q)"
      "qkey (at (upd qt x (qkey_update f)) (q + 1)) = qkey (at qt (q + 1))"
      using x nodes(1,2) by auto
    show "qnext (at (upd qt x (qkey_update f)) i) = qnext (at qt i) \<and> qprev (at (upd qt x (qkey_update f)) i) = qprev (at qt i)"
      if "i = q \<or> i = q + 1 \<or> i \<in> set (qs q)" for i
      using that x nodes by (auto simp: at_upd)
  qed simp
  with sys show ?thesis by (auto simp: qsys_def)
qed

lemma sched_rekey:
  assumes ok: "sched_ok X s qs" and x: "x \<in> set (qs (sleepq s))"
  shows "sched_ok X (s\<lparr>quetab := upd (quetab s) x (qkey_update f)\<rparr>) qs"
proof -
  note D = sched_okD [OF ok]
  have xin: "inarr (quetab s) x" "x < NTHREAD s" using qsys_thread [OF D(1,3) x] by auto
  have "x \<notin> set (qs (readylist s))" using qsys_disjD [OF D(1,2,3) _ x] D(4) by blast
  then have "sorted_wrt (\<lambda>a b. qkey (at (upd (quetab s) x (qkey_update f)) b) \<le> qkey (at (upd (quetab s) x (qkey_update f)) a)) (qs (readylist s))"
    by (intro sorted_keys_cong [OF D(11), of _ "{x}"]) (use xin key_in(1) [OF ok D(2)] in \<open>auto simp: same_keys_def\<close>)
  then show ?thesis by (rule sched_queues [OF ok qsys_rekey [OF D(1) xin]]) simp
qed

lemma sched_irq_quetab [simp]: "sched_ok X (s\<lparr>irq := i, quetab := qt\<rparr>) qs = sched_ok X (s\<lparr>quetab := qt\<rparr>) qs"
  using same_core_inv(1) [of "s\<lparr>quetab := qt\<rparr>" "s\<lparr>irq := i, quetab := qt\<rparr>"] by (simp add: same_core_def)

lemma unsleep_ok:
  assumes ok: "sched_ok X s qs" and sl: "sleep_ok s qs"
    and t: "inarr (thrtab s) t" "t \<notin> X" "state (thr s t) = THRSLEEP \<or> state (thr s t) = THRTMOUT"
  shows "\<exists>qt' xs ys. unsleep t s = Some (OK, s\<lparr>quetab := qt'\<rparr>) \<and> qs (sleepq s) = xs @ t # ys \<and>
    sched_ok (insert t X) (s\<lparr>quetab := qt'\<rparr>) (qs(sleepq s := xs @ ys)) \<and> qat s (qs(sleepq s := xs @ ys)) t None \<and>
    sleep_ok (s\<lparr>quetab := qt'\<rparr>) (qs(sleepq s := xs @ ys)) \<and>
    keyed qt' (xs @ ys) = ddel t (keyed (quetab s) (qs (sleepq s)))"
proof -
  note D = sched_okD [OF ok]
  let ?q = "sleepq s"
  have "qat s qs t (loc s t)" using D(12) [OF t(1)] t(2) by (simp add: thr_ok_def)
  moreover have "loc s t = Some ?q" using t(3) by (auto simp: loc_def)
  ultimately have "t \<in> set (qs ?q)" using D(3) by (simp add: qat_def)
  then obtain xs ys where xs: "qs ?q = xs @ t # ys" by (auto simp: in_set_conv_decomp)
  note rep = qsysD [OF D(1,3)]
  have tin: "inarr (quetab s) t" using qsys_thread(3) [OF D(1,3)] xs by simp
  have nx: "qnext (at (quetab s) t) = hd (ys @ [?q + 1])" using rep xs by (auto simp: qrep_def dest: dseg_first)
  have dist: "distinct (xs @ t # ys)" using rep xs by (simp add: qrep_def)
  have fst_keyed: "map fst (keyed qt zs) = zs" for qt zs by (simp add: keyed_def comp_def)
  have dd: "ddel t (keyed (quetab s) (qs ?q)) = keyed (quetab s) xs @
      (case keyed (quetab s) ys of [] \<Rightarrow> [] | (y, e) # zs \<Rightarrow> (y, e + key s t) # zs)"
    unfolding xs using ddel_split [of "keyed (quetab s) xs" t "key s t" "keyed (quetab s) ys"] dist by (simp add: fst_keyed)
  have bound: "0 \<le> sum_list (map (key s) zs)" if "set zs \<subseteq> set (qs ?q)" for zs
    using that sleep_keys [OF sl] by (intro sum_list_nonneg) auto
  have total: "sum_list (map (key s) xs) + (key s t + sum_list (map (key s) ys)) \<le> INT_MAX"
    using sl xs by (simp add: sleep_ok_def delays_def)
  define qt1 where "qt1 = (case ys of [] \<Rightarrow> quetab s | y # _ \<Rightarrow> upd (quetab s) y (qkey_update (\<lambda>_. key s y + key s t)))"
  have ok1: "sched_ok X (s\<lparr>quetab := qt1\<rparr>) qs"
    using sched_rekey [OF ok] ok xs by (auto simp: qt1_def split: list.split)
  have keys1: "keyed qt1 (xs @ ys) = ddel t (keyed (quetab s) (qs ?q))"
  proof (cases ys)
    case Nil
    then show ?thesis using dd by (simp add: qt1_def)
  next
    case (Cons y zs)
    have yin: "inarr (quetab s) y" and zin: "\<And>z. z \<in> set xs \<union> set zs \<Longrightarrow> inarr (quetab s) z"
      using qsys_thread(3) [OF D(1,3)] xs Cons by auto
    have "keyed qt1 xs = keyed (quetab s) xs" "keyed qt1 zs = keyed (quetab s) zs"
      using dist Cons yin zin by (auto simp: qt1_def at_upd intro!: keyed_cong)
    then show ?thesis using dd Cons yin by (simp add: qt1_def)
  qed
  obtain qt' where qt': "getitem t (s\<lparr>irq := False, quetab := qt1\<rparr>) = Some (t, s\<lparr>irq := False, quetab := qt'\<rparr>)"
      "sched_ok (insert t X) (s\<lparr>quetab := qt'\<rparr>) (qs(?q := xs @ ys))"
      "qat s (qs(?q := xs @ ys)) t None" "same_keys qt1 qt' {}"
    using sched_getitem [of X "s\<lparr>irq := False, quetab := qt1\<rparr>" qs ?q xs t ys] ok1 D(3) xs t(2) by auto
  have "unsleep t s = Some (OK, s\<lparr>quetab := qt'\<rparr>)"
  proof (cases ys)
    case Nil
    have "\<not> qnext (at (quetab s) t) < NTHREAD s" using nx Nil rep by (simp add: qrep_def)
    then show ?thesis using t tin qt'(1) Nil
      by (auto simp: unsleep_def disable_def restore_def isbadtid_iff Let_def qt1_def)
  next
    case (Cons y zs)
    have y: "inarr (quetab s) y" "y < NTHREAD s" using qsys_thread [OF D(1,3)] xs Cons by auto
    have kk: "0 \<le> key s y" "0 \<le> key s t" using sleep_keys(1) [OF sl] xs Cons by auto
    have "0 \<le> sum_list (map (key s) xs)" "0 \<le> sum_list (map (key s) zs)"
      using xs Cons by (auto intro!: bound)
    then have "key s y + key s t \<le> INT_MAX" using total Cons by simp
    with kk show ?thesis using t tin qt'(1) Cons y nx
      by (auto simp: unsleep_def disable_def restore_def isbadtid_iff Let_def qt1_def c_consts)
  qed
  moreover have kq: "keyed qt' (xs @ ys) = ddel t (keyed (quetab s) (qs ?q))"
  proof -
    have "inarr qt1 x" if "x \<in> set (xs @ ys)" for x
      using qsys_thread(3) [OF sched_okD(1,3) [OF ok1]] that xs by simp
    then have "keyed qt' (xs @ ys) = keyed qt1 (xs @ ys)" using qt'(4) by (intro keyed_cong) (simp add: same_keys_def)
    then show ?thesis using keys1 by simp
  qed
  moreover have "sleep_ok (s\<lparr>quetab := qt'\<rparr>) (qs(?q := xs @ ys))"
  proof -
    have "delays (s\<lparr>quetab := qt'\<rparr>) (qs(?q := xs @ ys)) = map snd (ddel t (keyed (quetab s) (qs ?q)))"
      by (simp add: delays_keyed flip: kq)
    also have "\<dots> = map (key s) xs @ (case ys of [] \<Rightarrow> [] | y # zs \<Rightarrow> (key s y + key s t) # map (key s) zs)"
      unfolding dd by (cases ys) (simp_all add: keyed_def comp_def)
    finally have del: "delays (s\<lparr>quetab := qt'\<rparr>) (qs(?q := xs @ ys)) = \<dots>" .
    have kt: "0 \<le> key s t" using sleep_keys(1) [OF sl, of t] xs by simp
    have "sum_list (map (key s) xs @ (case ys of [] \<Rightarrow> [] | y # zs \<Rightarrow> (key s y + key s t) # map (key s) zs)) \<le> INT_MAX"
      using total kt by (cases ys) simp_all
    then show ?thesis unfolding sleep_ok_def del
      using sleep_keys(1) [OF sl] xs by (cases ys) auto
  qed
  ultimately show ?thesis using xs qt'(2,3) by blast
qed

section \<open>Waking up\<close>

lemma wakeup_loop_ok:
  assumes "sched_ok {} s qs" "running s"
  shows "\<exists>s' qs'. wakeup_loop s = Some s' \<and> sched_ok {} s' qs' \<and> running s' \<and> thrcurrent s' = thrcurrent s \<and>
    sched_frame s s' \<and> irq s' = irq s \<and>
    keyed (quetab s') (qs' (sleepq s)) = dropWhile (\<lambda>p. snd p \<le> 0) (keyed (quetab s) (qs (sleepq s))) \<and>
    (\<forall>q. q \<noteq> sleepq s \<and> q \<noteq> readylist s \<longrightarrow> qs' q = qs q) \<and>
    (\<forall>t \<in> set (takeWhile (\<lambda>x. key s x \<le> 0) (qs (sleepq s))). state (thr s' t) = THRREADY) \<and>
    (\<forall>t. inarr (thrtab s) t \<and> t \<notin> set (takeWhile (\<lambda>x. key s x \<le> 0) (qs (sleepq s))) \<longrightarrow> thr s' t = thr s t)"
  using assms
proof (induction "qs (sleepq s)" arbitrary: s qs)
  case Nil
  then have "nonempty s (sleepq s) = Some False" using qsys_isempty(2) [OF sched_okD(1,3) [OF Nil.prems(1)]] by simp
  with Nil show ?case by (subst wakeup_loop.simps) (auto simp: sched_frame_refl simp flip: Nil.hyps)
next
  case (Cons t xs)
  note D = sched_okD [OF Cons.prems(1)] and xs = Cons.hyps(2) [symmetric]
  let ?q = "sleepq s"
  have ne: "nonempty s ?q = Some True" using qsys_isempty(2) [OF D(1,3)] xs by simp
  have fk: "firstkey s ?q = Some (key s t)" using qsys_firstkey [OF D(1,3) xs] .
  show ?case
  proof (cases "key s t \<le> 0")
    case False
    then have "wakeup_loop s = Some s" using ne fk by (subst wakeup_loop.simps) simp
    with False Cons.prems show ?thesis
      by (intro exI [of _ s] exI [of _ qs]) (simp add: xs sched_frame_refl)
  next
    case due: True
    have dist: "t \<notin> set xs" using qsysD [OF D(1,3)] xs by (simp add: qrep_def)
    obtain qt' where qt': "dequeue ?q s = Some (t, s\<lparr>quetab := qt'\<rparr>)"
        "sched_ok {t} (s\<lparr>quetab := qt'\<rparr>) (qs(?q := xs))" "qat s (qs(?q := xs)) t None"
        "same_keys (quetab s) qt' {}" "loc s t = Some ?q"
      using sched_dequeue [OF Cons.prems(1) D(3) xs] by auto
    define s1 where "s1 = s\<lparr>quetab := qt'\<rparr>"
    obtain s2 qs2 where s2: "ready t RESCHED_NO s1 = Done OK s2" "sched_ok {} s2 qs2" "only_ready s1 (qs(?q := xs)) s2 qs2"
        "sched_frame s1 s2" "thrcurrent s2 = thrcurrent s1" "state (thr s2 t) = THRREADY" "irq s2 = irq s1"
        "\<forall>u. inarr (thrtab s1) u \<and> u \<noteq> t \<longrightarrow> thr s2 u = thr s1 u"
      using ready_no [of t "{}" s1 "qs(?q := xs)"] qt'(2,3) unfolding s1_def by (simp only: qat_frame) blast
    have e: "readylist s2 = readylist s" "sleepq s2 = sleepq s" using s2(3) by (simp_all add: only_ready_def s1_def)
    have q2: "qs2 ?q = xs" "\<And>r. r \<noteq> ?q \<Longrightarrow> r \<noteq> readylist s \<Longrightarrow> qs2 r = qs r"
      using s2(3) D(4) by (auto simp: only_ready_def s1_def)
    have tc: "t \<noteq> thrcurrent s" using qt'(5) Cons.prems(2) by (auto simp: running_def loc_def)
    have run2: "running s2" using s2(5,8) tc Cons.prems(2) D(7) by (simp add: running_def s1_def)
    have keys: "key s2 x = key s x" if "x \<in> set xs" for x
      using s2(3) that qt'(4) key_in(1) [OF Cons.prems(1) D(3)] xs by (simp add: only_ready_def s1_def same_keys_def)
    have "sched_frame s s1" unfolding s1_def by (rule sched_frame_steps(3)) (use qt'(4) in \<open>simp add: same_keys_def\<close>)
    then have fr: "sched_frame s s2" using s2(4) by (rule sched_frame_trans)
    from Cons.hyps(1) [of qs2 s2] q2(1) s2(2) e run2
    obtain s' qs' where s': "wakeup_loop s2 = Some s'" "sched_ok {} s' qs'" "running s'" "thrcurrent s' = thrcurrent s2"
        "sched_frame s2 s'" "irq s' = irq s2"
        "keyed (quetab s') (qs' ?q) = dropWhile (\<lambda>p. snd p \<le> 0) (keyed (quetab s2) xs)"
        "\<forall>r. r \<noteq> ?q \<and> r \<noteq> readylist s \<longrightarrow> qs' r = qs2 r"
        "\<forall>t \<in> set (takeWhile (\<lambda>x. key s2 x \<le> 0) xs). state (thr s' t) = THRREADY"
        "\<forall>t. inarr (thrtab s2) t \<and> t \<notin> set (takeWhile (\<lambda>x. key s2 x \<le> 0) xs) \<longrightarrow> thr s' t = thr s2 t"
      by auto
    have "wakeup_loop s = Some s'"
      using ne fk due qt'(1) s2(1) s'(1) by (subst wakeup_loop.simps) (simp add: s1_def)
    moreover have "keyed (quetab s2) xs = keyed (quetab s) xs" using keys by (rule keyed_cong)
    moreover have "takeWhile (\<lambda>x. key s2 x \<le> 0) xs = takeWhile (\<lambda>x. key s x \<le> 0) xs"
      using keys by (intro takeWhile_cong) auto
    moreover have in2: "inarr (thrtab s2) u = inarr (thrtab s) u" for u
      using sched_frameD(2) [OF fr] by (simp add: inarr_def)
    moreover have "inarr (thrtab s) t" using key_in(2) [OF Cons.prems(1) D(3), of t] xs by simp
    then have "state (thr s' t) = THRREADY" using s'(10) in2 dist s2(6) by (auto dest: set_takeWhileD)
    ultimately show ?thesis
      using s' q2 s2(5,7,8) sched_frame_trans [OF fr s'(5)] due
      by (intro exI [of _ s'] exI [of _ qs']) (auto simp: s1_def xs)
  qed
qed

section \<open>The clock interrupt\<close>

text \<open>The counters.\<close>

definition tick :: "kstate \<Rightarrow> kstate" where
  "tick s = (let s = s\<lparr>clkticks := clkticks s + 1\<rparr> in
     if CLKTICKS_PER_SEC = clkticks s then s\<lparr>clktime := clktime s + 1, clkticks := 0\<rparr> else s)"

lemma same_core_tick: "same_core s (tick s)"
  by (simp add: same_core_def tick_def Let_def)

lemma tick_simps [simp]:
  "quetab (tick s) = quetab s" "sleepq (tick s) = sleepq s" "readylist (tick s) = readylist s"
  "thrtab (tick s) = thrtab s" "thrcurrent (tick s) = thrcurrent s" "semtab (tick s) = semtab s"
  using same_core_tick [of s] by (simp_all add: same_core_def)

lemma dropWhile_sum:
  "\<forall>p \<in> set xs. (0 :: int) \<le> snd p \<Longrightarrow> sum_list (map snd (dropWhile P xs)) \<le> sum_list (map snd xs)"
proof (induction xs)
  case (Cons p xs)
  then have "0 \<le> snd p" "sum_list (map snd (dropWhile P xs)) \<le> sum_list (map snd xs)" by simp_all
  then show ?case by simp
qed simp

text \<open>What one tick does to the sleeping threads, before the rescheduling it ends with.\<close>

lemma clkhandler_ok:
  assumes inv: "kinv_qs s qs" "running s"
  defines "old \<equiv> keyed (quetab s) (qs (sleepq s))"
  shows "\<exists>s' qs'. clkhandler s = resched s' \<and> kinv_qs s' qs' \<and> running s' \<and> thrcurrent s' = thrcurrent s \<and>
    clkticks s' = clkticks (tick s) \<and> clktime s' = clktime (tick s) \<and> sleepq s' = sleepq s \<and>
    keyed (quetab s') (qs' (sleepq s)) =
      (case old of [] \<Rightarrow> [] | (x, d) # xs \<Rightarrow> dropWhile (\<lambda>p. snd p \<le> 0) ((x, d - 1) # xs)) \<and>
    (\<forall>t. inarr (thrtab s) t \<longrightarrow> t \<in> set (qs (sleepq s)) \<longrightarrow> t \<notin> set (qs' (sleepq s)) \<longrightarrow> state (thr s' t) = THRREADY)"
proof (cases "qs (sleepq s)")
  case Nil
  have ok: "sched_ok {} (tick s) qs" "kinv_qs (tick s) qs" "running (tick s)"
    using inv same_core_inv(1,4,5) [OF same_core_tick [of s]] unfolding kinv_qs_def by auto
  have "nonempty (tick s) (sleepq s) = Some False"
    using qsys_isempty(2) [OF sched_okD(1,3) [OF ok(1)]] Nil by simp
  then have "clkhandler s = resched (tick s)"
    unfolding clkhandler_def Let_def tick_def by (auto split: if_splits)
  then show ?thesis using ok(2,3) Nil by (intro exI [of _ "tick s"] exI [of _ qs]) (simp add: old_def)
next
  case (Cons x xs)
  let ?q = "sleepq s" and ?t = "tick s"
  have ok: "sched_ok {} ?t qs" "sem_ok ?t qs" "sleep_ok ?t qs" "running ?t"
    using inv same_core_inv(1,2,3,5) [OF same_core_tick [of s]] by (simp_all add: kinv_qs_def)
  note D = sched_okD [OF ok(1), simplified]
  have ne: "nonempty ?t ?q = Some True" using qsys_isempty(2) [OF sched_okD(1,3) [OF ok(1)]] Cons by simp
  have xin: "inarr (quetab s) x" "inarr (quetab s) ?q" "qnext (at (quetab s) ?q) = x"
    using key_in(1) [OF ok(1), of ?q x] sched_okD(3) [OF ok(1)] qsys_ends [OF sched_okD(1,3) [OF ok(1)]] Cons by auto
  have kx: "0 \<le> key s x" "key s x \<le> INT_MAX" using sleep_keys [OF ok(3), of x] Cons by auto
  define s2 where "s2 = ?t\<lparr>quetab := upd (quetab s) x (qkey_update (\<lambda>_. key s x - 1))\<rparr>"
  have ok2: "sched_ok {} s2 qs" unfolding s2_def using sched_rekey [OF ok(1), of x] Cons by simp
  have sem2: "sem_ok s2 qs" using ok(2) by (simp add: s2_def)
  have run2: "running s2" using ok(4) by (simp add: s2_def)
  have "?q \<in> kqueues ?t" using sched_okD(3) [OF ok(1)] by simp
  then have dist: "x \<notin> set xs" "\<And>z. z \<in> set xs \<Longrightarrow> inarr (quetab s) z"
    using qsysD [OF sched_okD(1) [OF ok(1)], of ?q] key_in(1) [OF ok(1), of ?q] Cons by (auto simp: qrep_def)
  then have k2: "keyed (quetab s2) (qs ?q) = (x, key s x - 1) # keyed (quetab s) xs"
    using Cons xin(1) by (simp add: s2_def) (intro keyed_cong, auto simp: at_upd)
  have nn: "0 \<le> key s z" if "z \<in> set xs" for z using sleep_keys(1) [OF ok(3), of z] Cons that by simp
  have eq: "clkhandler s = (if key s x - 1 \<le> 0 then wakeup s2 else resched s2)"
    using ne xin kx unfolding clkhandler_def Let_def tick_def [symmetric, unfolded Let_def] s2_def
    by (simp add: quehead_def c_consts)
  have total: "key s x + sum_list (map (key s) xs) \<le> INT_MAX" using ok(3) Cons by (simp add: sleep_ok_def delays_def)
  show ?thesis
  proof (cases "key s x - 1 \<le> 0")
    case False
    have "sleep_ok s2 qs"
      using k2 False total nn by (auto simp: sleep_ok_def delays_keyed s2_def) (auto simp: keyed_def comp_def)
    then have "kinv_qs s2 qs" using ok2 sem2 by (simp add: kinv_qs_def)
    with False eq run2 k2 Cons show ?thesis
      by (intro exI [of _ s2] exI [of _ qs]) (simp add: old_def s2_def)
  next
    case True
    obtain s' qs' where w: "wakeup_loop s2 = Some s'" "sched_ok {} s' qs'" "running s'" "thrcurrent s' = thrcurrent s2"
        "sched_frame s2 s'"
        "keyed (quetab s') (qs' (sleepq s2)) = dropWhile (\<lambda>p. snd p \<le> 0) (keyed (quetab s2) (qs (sleepq s2)))"
        "\<forall>q. q \<noteq> sleepq s2 \<and> q \<noteq> readylist s2 \<longrightarrow> qs' q = qs q"
        "\<forall>t \<in> set (takeWhile (\<lambda>x. key s2 x \<le> 0) (qs (sleepq s2))). state (thr s' t) = THRREADY"
      using wakeup_loop_ok [OF ok2 run2] by blast
    let ?rest = "dropWhile (\<lambda>p. snd p \<le> 0) (keyed (quetab s) xs)"
    have e: "sleepq s2 = ?q" "readylist s2 = readylist s" "semtab s' = semtab s" "sleepq s' = ?q"
      using sched_frameD(4) [OF w(5)] w(5) by (auto simp: s2_def sched_frame_def)
    have new: "keyed (quetab s') (qs' ?q) = ?rest" using w(6) True by (simp add: e k2)
    have "sleep_ok s' qs'"
    proof -
      have sub: "set ?rest \<subseteq> set (keyed (quetab s) xs)" by (auto dest: set_dropWhileD)
      have "\<forall>p \<in> set ?rest. 0 \<le> snd p" using nn sub by (fastforce simp: keyed_def)
      moreover have "sum_list (map snd ?rest) \<le> sum_list (map snd (keyed (quetab s) xs))"
        using nn by (intro dropWhile_sum) (auto simp: keyed_def)
      ultimately show ?thesis
        using total kx(1) by (auto simp: sleep_ok_def delays_keyed e new) (simp add: keyed_def comp_def)
    qed
    moreover have "sem_ok s' qs'"
      using w(7) sem2 e D(5,6) by (fastforce simp: sem_ok_def s2_def image_iff)
    ultimately have inv': "kinv_qs s' qs'" using w(2) by (simp add: kinv_qs_def)
    have fst_keyed: "map fst (keyed qt zs) = zs" for qt zs by (simp add: keyed_def comp_def)
    have "qs' ?q = dropWhile (\<lambda>z. key s2 z \<le> 0) (qs ?q)"
    proof -
      have "map fst (dropWhile (\<lambda>p. snd p \<le> 0) (keyed (quetab s2) zs)) = dropWhile (\<lambda>z. key s2 z \<le> 0) zs" for zs
        by (induction zs) (simp_all add: fst_keyed)
      then show ?thesis using w(6) fst_keyed by (metis e(1))
    qed
    then have "\<forall>t \<in> set (qs ?q). t \<notin> set (qs' ?q) \<longrightarrow> state (thr s' t) = THRREADY"
      using w(8) e(1) by (metis Un_iff set_append takeWhile_dropWhile_id)
    moreover have "clkhandler s = resched s'" using eq True w(1) by (simp add: wakeup_def)
    moreover have "clkticks s' = clkticks ?t" "clktime s' = clktime ?t"
      using w(5) by (auto simp: sched_frame_def s2_def)
    ultimately show ?thesis using inv' w(3,4) e(4) new True Cons
      by (intro exI [of _ s'] exI [of _ qs']) (simp add: old_def s2_def)
  qed
qed

lemma clkhandler_good: "kinv s \<Longrightarrow> good kinv (thrcurrent s) (\<lambda>v _. v = OK) (clkhandler s)"
proof -
  assume "kinv s"
  then obtain qs where "kinv_qs s qs" "running s" by (elim kinvE)
  from clkhandler_ok [OF this] obtain s' qs' where "clkhandler s = resched s'" "kinv_qs s' qs'" "thrcurrent s' = thrcurrent s"
    by blast
  then show ?thesis using resched_good [of s' qs'] by simp
qed

end
