(* ===== verification/Message_Calls.thy ===== *)
theory Message_Calls
  imports Messages Clock_Calls Semaphore_Calls
begin

text \<open>
  The message calls keep the kernel invariant, and a message that is deposited is the one
  the receiver returns.
\<close>

lemma kinv_note:
  assumes inv: "kinv s" and t: "inarr (thrtab s) t" and f: "state (f (thr s t)) = state (thr s t)"
    "sem (f (thr s t)) = sem (thr s t)" "prio (f (thr s t)) = prio (thr s t)"
  shows "kinv (thr_upd t f s)"
proof -
  obtain qs where qs: "kinv_qs s qs" "running s" "sched_ok {} s qs" "inarr (thrtab s) (thrcurrent s)"
    using inv by (elim kinvE)
  have "kinv_qs (thr_upd t f s) qs"
    by (rule kinv_qs_note [OF qs(1) t]) (use f sched_okD(12) [OF qs(3) t] in \<open>auto simp: thr_ok_def\<close>)
  moreover have "running (thr_upd t f s)" using qs(2,4) t f by (auto simp: running_def at_upd)
  ultimately show ?thesis by (rule kinvI)
qed

section \<open>Sending\<close>

definition deposit :: "int \<Rightarrow> int \<Rightarrow> kstate \<Rightarrow> kstate" where
  "deposit t m s = thr_upd t (\<lambda>e. e\<lparr>msg := m, hasmsg := True\<rparr>) s"

lemma send_eq:
  assumes "\<not> isbadtid s t" "\<not> hasmsg (thr s t)"
  shows "send t m s = obind
    (if state (thr s t) = THRRECV then ready t RESCHED_YES (deposit t m (s\<lparr>irq := False\<rparr>))
     else if state (thr s t) = THRTMOUT
     then obind (olift (unsleep t (deposit t m (s\<lparr>irq := False\<rparr>)))) (\<lambda>_ s. ready t RESCHED_YES s)
     else Done OK (deposit t m (s\<lparr>irq := False\<rparr>))) (\<lambda>_ s'. Done OK (restore (irq s) s'))"
proof -
  have "inarr (thrtab s) t" "state (thr s t) \<noteq> THRFREE" using assms(1) by (simp_all add: isbadtid_iff)
  then show ?thesis using assms by (simp add: send_def disable_def deposit_def comp_def cong: if_cong)
qed

lemma send_good:
  assumes inv: "kinv s"
  shows "good kinv (thrcurrent s) (\<lambda>v s'. irq s' = irq s \<and>
    v = (if isbadtid s t \<or> hasmsg (thr s t) then SYSERR else OK)) (send t m s)"
proof (cases "isbadtid s t \<or> hasmsg (thr s t)")
  case True
  then show ?thesis using inv
    by (cases "isbadtid s t") (auto simp: send_def disable_def restore_def isbadtid_iff)
next
  case False
  let ?s1 = "deposit t m (s\<lparr>irq := False\<rparr>)" and ?cur = "thrcurrent s"
  have t: "\<not> isbadtid s t" "inarr (thrtab s) t" "state (thr s t) \<noteq> THRFREE" using False by (auto simp: isbadtid_iff)
  have "kinv ?s1" unfolding deposit_def by (rule kinv_note) (use inv t in simp_all)
  then obtain qs where qs: "sched_ok {} ?s1 qs" "sem_ok ?s1 qs" "sleep_ok ?s1 qs" by (elim kinvE)
  have st: "state (thr ?s1 t) = state (thr s t)" "inarr (thrtab ?s1) t" "thrcurrent ?s1 = ?cur" "\<not> isbadtid ?s1 t"
    using t by (simp_all add: deposit_def isbadtid_iff)
  have "good kinv ?cur (\<lambda>_ _. True)
    (if state (thr s t) = THRRECV then ready t RESCHED_YES ?s1
     else if state (thr s t) = THRTMOUT then obind (olift (unsleep t ?s1)) (\<lambda>_ s. ready t RESCHED_YES s)
     else Done OK ?s1)" (is "good _ _ _ ?m")
  proof -
    consider (recv) "state (thr s t) = THRRECV" | (tm) "state (thr s t) = THRTMOUT"
      | (other) "state (thr s t) \<noteq> THRRECV" "state (thr s t) \<noteq> THRTMOUT" by blast
    then show ?thesis
    proof cases
      case recv
      have "sched_ok {t} ?s1 qs" "qat ?s1 qs t None"
        using sched_exempt [OF qs(1) st(4)] recv st(1) by (auto simp: loc_def)
      from ready_yes [OF this qs(2,3)] recv st(3) show ?thesis by (auto intro: good_mono)
    next
      case tm
      obtain qt' xs ys where u: "unsleep t ?s1 = Some (OK, ?s1\<lparr>quetab := qt'\<rparr>)"
          "sched_ok {t} (?s1\<lparr>quetab := qt'\<rparr>) (qs(sleepq ?s1 := xs @ ys))"
          "qat ?s1 (qs(sleepq ?s1 := xs @ ys)) t None" "sleep_ok (?s1\<lparr>quetab := qt'\<rparr>) (qs(sleepq ?s1 := xs @ ys))"
        using unsleep_ok [OF qs(1,3) st(2)] tm st(1) by auto
      have "sem_ok (?s1\<lparr>quetab := qt'\<rparr>) (qs(sleepq ?s1 := xs @ ys))"
        using qs(2) sched_okD(6) [OF qs(1)] by (auto simp: sem_ok_def image_iff)
      from ready_yes [OF u(2) _ this u(4)] u(1,3) tm st(3) show ?thesis by (auto intro: good_mono)
    next
      case other
      then show ?thesis using \<open>kinv ?s1\<close> st(3) by simp
    qed
  qed
  then have "good kinv ?cur (\<lambda>v s'. irq s' = irq s \<and> v = OK) (obind ?m (\<lambda>_ s'. Done OK (restore (irq s) s')))"
    by (rule kinv.good_restore) (simp add: restore_def)
  then show ?thesis using send_eq [OF t(1), of m] False by simp
qed

section \<open>Receiving\<close>

lemma receive_good:
  assumes inv: "kinv s" and c: "thrcurrent s \<noteq> NULLTHREAD"
  shows "good kinv (thrcurrent s) (\<lambda>v s'. irq s' = irq s \<and> \<not> hasmsg (thr s' (thrcurrent s)) \<and>
    msg (thr s' (thrcurrent s)) = v) (receive s)"
proof -
  let ?s = "s\<lparr>irq := False\<rparr>" and ?cur = "thrcurrent s"
  have cin: "inarr (thrtab s) ?cur" using inv by (elim kinvE)
  have inv': "kinv ?s" using inv by simp
  let ?m = "if \<not> hasmsg (thr s ?cur) then resched (thr_upd ?cur (state_update (\<lambda>_. THRRECV)) ?s) else Done OK ?s"
  have "good kinv ?cur (\<lambda>_ _. True) ?m"
    using block_current [OF inv', of THRRECV] c inv' by (auto intro: good_mono)
  then have "good kinv ?cur (\<lambda>v s'. irq s' = irq s \<and> \<not> hasmsg (thr s' ?cur) \<and> msg (thr s' ?cur) = v)
      (obind ?m (\<lambda>_ s'. oget (do {
              thrptr \<leftarrow> aget (thrtab s') ?cur;
              tt \<leftarrow> aupd (thrtab s') ?cur (hasmsg_update (\<lambda>_. False));
              Some (msg thrptr, s'\<lparr>thrtab := tt\<rparr>) })
            (\<lambda>(m, s'). Done m (restore (irq s) s'))))"
  proof (rule good_bind)
    fix v :: int and w assume w: "kinv w" "thrcurrent w = ?cur"
    then have win: "inarr (thrtab w) ?cur" by (metis kinvE)
    moreover have "kinv (thr_upd ?cur (hasmsg_update (\<lambda>_. False)) w)" by (rule kinv_note [OF w(1) win]) simp_all
    ultimately show "good kinv ?cur (\<lambda>v s'. irq s' = irq s \<and> \<not> hasmsg (thr s' ?cur) \<and> msg (thr s' ?cur) = v)
        (oget (do { thrptr \<leftarrow> aget (thrtab w) ?cur;
              tt \<leftarrow> aupd (thrtab w) ?cur (hasmsg_update (\<lambda>_. False));
              Some (msg thrptr, w\<lparr>thrtab := tt\<rparr>) }) (\<lambda>(m, s'). Done m (restore (irq s) s')))"
      using w by (simp add: restore_def)
  qed
  then show ?thesis using cin by (simp add: receive_def disable_def Let_def cong: if_cong)
qed

lemma recvclr_ok:
  assumes inv: "kinv s"
  shows "recvclr s = Some (if hasmsg (thr s (thrcurrent s)) then msg (thr s (thrcurrent s)) else NOMSG,
      thr_upd (thrcurrent s) (hasmsg_update (\<lambda>_. False)) s) \<and>
    kinv (thr_upd (thrcurrent s) (hasmsg_update (\<lambda>_. False)) s)"
proof -
  have cin: "inarr (thrtab s) (thrcurrent s)" using inv by (elim kinvE)
  moreover have "kinv (thr_upd (thrcurrent s) (hasmsg_update (\<lambda>_. False)) s)"
    by (rule kinv_note [OF inv cin]) simp_all
  ultimately show ?thesis by (simp add: recvclr_def disable_def restore_def Let_def)
qed

lemma recvtime_take_good:
  assumes w: "kinv w" "thrcurrent w = cur"
  shows "good kinv cur (\<lambda>v s'. irq s' = im \<and> \<not> hasmsg (thr s' cur)) (oget (recvtime_take cur w) (\<lambda>(m, s'). Done m (restore im s')))"
proof -
  have win: "inarr (thrtab w) cur" using w by (metis kinvE)
  moreover have "kinv (thr_upd cur (hasmsg_update (\<lambda>_. False)) w)" by (rule kinv_note [OF w(1) win]) simp_all
  ultimately show ?thesis using w by (simp add: recvtime_take_def restore_def)
qed

lemma recvtime_good:
  assumes inv: "kinv s" and c: "thrcurrent s \<noteq> NULLTHREAD" and k: "k \<le> INT_MAX"
  shows "good kinv (thrcurrent s) (\<lambda>v s'. irq s' = irq s \<and> (k < 0 \<longrightarrow> v = SYSERR)) (recvtime k s)"
proof (cases "k < 0")
  case True
  then show ?thesis using inv by (simp add: recvtime_def)
next
  case False
  let ?s = "s\<lparr>irq := False\<rparr>" and ?cur = "thrcurrent s"
  have cin: "inarr (thrtab s) ?cur" using inv by (elim kinvE)
  have inv': "kinv ?s" using inv by simp
  have fin: "good kinv ?cur (\<lambda>v s'. irq s' = irq s) (obind m (\<lambda>_ s'. oget (recvtime_take ?cur s') (\<lambda>(m, s'). Done m (restore (irq s) s'))))"
    if "good kinv ?cur (\<lambda>v _. v = OK) m" for m
    by (rule good_bind [OF that]) (blast intro: good_mono [OF recvtime_take_good])
  show ?thesis
  proof (cases "hasmsg (thr s ?cur)")
    case True
    then show ?thesis using fin [of "Done OK ?s"] inv' False cin by (simp add: recvtime_def disable_def Let_def)
  next
    case nomsg: False
    obtain qt' qs' where qt': "insertd ?cur (sleepq s) k ?s = Some (OK, ?s\<lparr>quetab := qt'\<rparr>)"
        "kinv_qs (thr_upd ?cur (state_update (\<lambda>_. THRTMOUT)) (?s\<lparr>quetab := qt'\<rparr>)) qs'"
      using sleep_current [OF inv', of k THRTMOUT] c k False by auto
    from fin [OF resched_good [OF qt'(2), simplified]] show ?thesis
      using qt'(1) nomsg False cin by (simp add: recvtime_def disable_def Let_def c_consts)
  qed
qed

end
