(* ===== verification/Monitors.thy ===== *)
theory Monitors
  imports Semaphores
begin

text \<open>
  Monitors, recursive locks built on a semaphore: \<open>moncreate.c\<close>, \<open>monfree.c\<close>,
  \<open>moncount.c\<close>, \<open>lock.c\<close> and \<open>unlock.c\<close>.
\<close>

definition isbadmon :: "kstate \<Rightarrow> u32 \<Rightarrow> bool" where
  "isbadmon s x \<longleftrightarrow> uidx x \<ge> NMON s \<or> mstate (at (montab s) (uidx x)) = MFREE"

fun monalloc_loop :: "nat \<Rightarrow> kstate \<Rightarrow> (int \<times> kstate) option" where
  "monalloc_loop 0 s = Some (SYSERR, s)"
| "monalloc_loop (Suc i) s = do {
     s \<leftarrow> Some (s\<lparr>nextmon := (nextmon s + 1) mod NMON s\<rparr>);
     e \<leftarrow> aget (montab s) (nextmon s);
     if mstate e = MFREE
     then do {
       mt \<leftarrow> aupd (montab s) (nextmon s) (mstate_update (\<lambda>_. MUSED));
       Some (nextmon s, s\<lparr>montab := mt\<rparr>) }
     else monalloc_loop i s }"

interpretation mon_scan: slot_scan "\<lambda>s. length (montab s)" "\<lambda>s i. mstate (at (montab s) i) = MFREE"
    nextmon "\<lambda>i s. s\<lparr>nextmon := i\<rparr>" "\<lambda>i s. s\<lparr>montab := upd (montab s) i (mstate_update (\<lambda>_. MUSED))\<rparr>"
    monalloc_loop
  by unfold_locales (auto simp: inarr_def)

definition monalloc :: "kstate \<Rightarrow> (u32 \<times> kstate) option" where
  "monalloc s = do {
     (r, s) \<leftarrow> monalloc_loop (length (montab s)) s;
     Some (word_of_int r, s) }"

definition moncreate :: "kstate \<Rightarrow> (u32 \<times> kstate) option" where
  "moncreate s = (let (im, s) = disable s in do {
     (mon, s) \<leftarrow> monalloc s;
     (mon, s) \<leftarrow>
       (if USYSERR \<noteq> mon
        then do {
          mt \<leftarrow> aupd (montab s) (uidx mon) (owner_update (\<lambda>_. NOOWNER));
          mt \<leftarrow> aupd mt (uidx mon) (mcount_update (\<lambda>_. 0));
          (sm, s) \<leftarrow> semcreate 1 (s\<lparr>montab := mt\<rparr>);
          mt \<leftarrow> aupd (montab s) (uidx mon) (msem_update (\<lambda>_. sm));
          if USYSERR = sm
          then do {
            mt \<leftarrow> aupd mt (uidx mon) (mstate_update (\<lambda>_. MFREE));
            Some (USYSERR, s\<lparr>montab := mt\<rparr>) }
          else Some (mon, s\<lparr>montab := mt\<rparr>) }
        else Some (mon, s));
     Some (mon, restore im s) })"

definition monfree :: "u32 \<Rightarrow> kstate \<Rightarrow> (int \<times> kstate) option" where
  "monfree mon s = (let (im, s) = disable s in
     if isbadmon s mon then Some (SYSERR, restore im s)
     else do {
       monptr \<leftarrow> aget (montab s) (uidx mon);
       (_, s) \<leftarrow> semfree (msem monptr) s;
       mt \<leftarrow> aupd (montab s) (uidx mon) (mstate_update (\<lambda>_. MFREE));
       Some (OK, restore im (s\<lparr>montab := mt\<rparr>)) })"

definition moncount :: "u32 \<Rightarrow> kstate \<Rightarrow> int option" where
  "moncount mon s =
     (if isbadmon s mon then Some SYSERR
      else do { m \<leftarrow> aget (montab s) (uidx mon); Some (sint (mcount m)) })"

definition mon_upd :: "u32 \<Rightarrow> (monent \<Rightarrow> monent) \<Rightarrow> kstate \<Rightarrow> kstate option" where
  "mon_upd mon f s = do { mt \<leftarrow> aupd (montab s) (uidx mon) f; Some (s\<lparr>montab := mt\<rparr>) }"

definition lock :: "u32 \<Rightarrow> kstate \<Rightarrow> int outcome" where
  "lock mon s = (let (im, s) = disable s; cur = thrcurrent s in
     if isbadmon s mon then Done SYSERR (restore im s)
     else oget (aget (montab s) (uidx mon)) (\<lambda>monptr.
       obind
         (if NOOWNER = owner monptr
          then oget (do {
                 s \<leftarrow> mon_upd mon (owner_update (\<lambda>_. cur)) s;
                 mon_upd mon (mcount_update (\<lambda>c. c + 1)) s })
               (\<lambda>s. wait (msem monptr) s)
          else if cur = owner monptr
          then oget (mon_upd mon (mcount_update (\<lambda>c. c + 1)) s) (\<lambda>s. Done OK s)
          else obind (wait (msem monptr) s) (\<lambda>_ s.
                 oget (do {
                   s \<leftarrow> mon_upd mon (owner_update (\<lambda>_. thrcurrent s)) s;
                   mon_upd mon (mcount_update (\<lambda>c. c + 1)) s })
                 (\<lambda>s. Done OK s)))
         (\<lambda>_ s. Done OK (restore im s))))"

definition unlock :: "u32 \<Rightarrow> kstate \<Rightarrow> int outcome" where
  "unlock mon s = (let (im, s) = disable s in
     if isbadmon s mon then Done SYSERR (restore im s)
     else oget (aget (montab s) (uidx mon)) (\<lambda>monptr.
       if mcount monptr = 0 then Done SYSERR (restore im s)
       else oget (mon_upd mon (mcount_update (\<lambda>c. c - 1)) s) (\<lambda>s.
         obind
           (if mcount monptr - 1 = 0
            then oget (mon_upd mon (owner_update (\<lambda>_. NOOWNER)) s) (\<lambda>s. signal (msem monptr) s)
            else Done OK s)
           (\<lambda>_ s. Done OK (restore im s)))))"

end
