(* ===== verification/Monitor_Calls.thy ===== *)
theory Monitor_Calls
  imports Monitors Semaphore_Calls
begin

text \<open>
  The monitor calls keep the kernel invariant; a free monitor is acquired and released as a
  recursive lock; and an interleaving in which a thread that called \<open>lock\<close> is never let in.
\<close>

lemma kinv_montab [simp]: "kinv (s\<lparr>montab := mt\<rparr>) = kinv s"
  using same_core_inv(6) [of s "s\<lparr>montab := mt\<rparr>"] by (simp add: same_core_def)

lemma kinv_qs_montab [simp]: "kinv_qs (s\<lparr>montab := mt\<rparr>) qs = kinv_qs s qs"
  using same_core_inv(4) [of s "s\<lparr>montab := mt\<rparr>"] by (simp add: same_core_def)

lemma goodmon: "\<not> isbadmon s x \<longleftrightarrow> inarr (montab s) (uidx x) \<and> mstate (at (montab s) (uidx x)) = MUSED"
  by (cases "mstate (at (montab s) (uidx x))") (auto simp: isbadmon_def inarr_def)

lemma isbadmon_irq [simp]: "isbadmon (s\<lparr>irq := i\<rparr>) x = isbadmon s x"
  by (simp add: isbadmon_def)

text \<open>
  The invariant of the kernel together with the size of the monitor table, which no call
  changes.
\<close>

definition kmon :: "nat \<Rightarrow> kstate \<Rightarrow> bool" where
  "kmon n s \<longleftrightarrow> kinv s \<and> length (montab s) = n"

interpretation kmon: kernel_inv "kmon n"
  by unfold_locales (simp add: kmon_def)

interpretation mon_frame: kernel_frame "\<lambda>s. length (montab s) = n"
  by unfold_locales simp_all

lemma good_kmon: "good kinv t P m \<Longrightarrow> keeps (\<lambda>s. length (montab s) = n) m \<Longrightarrow> good (kmon n) t P m"
  using good_keeps [of kinv t P m "\<lambda>s. length (montab s) = n"] unfolding kmon_def by simp

lemma wait_kmon:
  "kmon n s \<Longrightarrow> thrcurrent s \<noteq> NULLTHREAD \<Longrightarrow>
    good (kmon n) (thrcurrent s) (\<lambda>v s'. irq s' = irq s) (wait sm s)"
  by (rule good_kmon) (auto simp: kmon_def intro: good_mono [OF wait_good] mon_frame.wait_keeps)

lemma signal_kmon:
  "kmon n s \<Longrightarrow> (\<not> isbadsem s sm \<Longrightarrow> count (at (semtab s) (uidx sm)) < INT_MAX) \<Longrightarrow>
    good (kmon n) (thrcurrent s) (\<lambda>v s'. irq s' = irq s) (signal sm s)"
  by (rule good_kmon) (auto simp: kmon_def intro: good_mono [OF signal_good] mon_frame.signal_keeps)

lemma mon_upd_in: "inarr (montab s) (uidx mon) \<Longrightarrow> mon_upd mon f s = Some (s\<lparr>montab := upd (montab s) (uidx mon) f\<rparr>)"
  by (simp add: mon_upd_def)

text \<open>\<open>lock\<close> and \<open>unlock\<close> are safe whatever the state of the monitor is.\<close>

lemma lock_good:
  assumes inv: "kmon n s" and c: "thrcurrent s \<noteq> NULLTHREAD"
  shows "good (kmon n) (thrcurrent s) (\<lambda>v s'. irq s' = irq s \<and> v = (if isbadmon s mon then SYSERR else OK)) (lock mon s)"
proof (cases "isbadmon s mon")
  case True
  then show ?thesis using inv by (simp add: lock_def disable_def restore_def kmon_def)
next
  case False
  let ?s = "s\<lparr>irq := False\<rparr>" and ?i = "uidx mon" and ?m = "at (montab s) (uidx mon)" and ?cur = "thrcurrent s"
  have i: "inarr (montab s) ?i" using False by (simp add: goodmon)
  have idx: "inarr (montab w) ?i" if "kmon n w" for w using that i inv by (simp add: kmon_def inarr_def)
  define body where "body =
         (if NOOWNER = owner ?m
          then oget (do {
                 s \<leftarrow> mon_upd mon (owner_update (\<lambda>_. ?cur)) ?s;
                 mon_upd mon (mcount_update (\<lambda>c. c + 1)) s })
               (\<lambda>s. wait (msem ?m) s)
          else if ?cur = owner ?m
          then oget (mon_upd mon (mcount_update (\<lambda>c. c + 1)) ?s) (\<lambda>s. Done OK s)
          else obind (wait (msem ?m) ?s) (\<lambda>_ s.
                 oget (do {
                   s \<leftarrow> mon_upd mon (owner_update (\<lambda>_. thrcurrent s)) s;
                   mon_upd mon (mcount_update (\<lambda>c. c + 1)) s })
                 (\<lambda>s. Done OK s)))"
  have k: "kmon n (?s\<lparr>montab := upd (montab s) ?i f\<rparr>)" "kmon n ?s" for f using inv by (simp_all add: kmon_def)
  have "good (kmon n) ?cur (\<lambda>v _. True) body"
  proof -
    have "good (kmon n) ?cur (\<lambda>v _. True) (wait (msem ?m) (?s\<lparr>montab := upd (montab s) ?i f\<rparr>))" for f
      by (rule good_mono [OF wait_kmon [OF k(1), of f "msem ?m", simplified]]) (use c in simp_all)
    moreover have "good (kmon n) ?cur (\<lambda>v _. True) (obind (wait (msem ?m) ?s) (\<lambda>_ s.
                 oget (do {
                   s \<leftarrow> mon_upd mon (owner_update (\<lambda>_. thrcurrent s)) s;
                   mon_upd mon (mcount_update (\<lambda>c. c + 1)) s })
                 (\<lambda>s. Done OK s)))"
      by (rule good_bind [OF wait_kmon [OF k(2), simplified]])
        (use c in \<open>simp_all add: mon_upd_in idx, simp add: kmon_def\<close>)
    ultimately show ?thesis unfolding body_def using i k(1) by (simp add: mon_upd_in)
  qed
  then have "good (kmon n) ?cur (\<lambda>v s'. irq s' = irq s \<and> v = OK) (obind body (\<lambda>_ s'. Done OK (restore (irq s) s')))"
    by (rule kmon.good_restore) (simp add: restore_def)
  moreover have "lock mon s = obind body (\<lambda>_ s'. Done OK (restore (irq s) s'))"
    using False i by (simp add: lock_def disable_def body_def Let_def)
  ultimately show ?thesis using False by simp
qed

lemma unlock_good:
  assumes inv: "kmon n s" and lt: "\<And>m. m \<in> set (montab s) \<Longrightarrow> \<not> isbadsem s (msem m) \<Longrightarrow>
    count (at (semtab s) (uidx (msem m))) < INT_MAX"
  shows "good (kmon n) (thrcurrent s) (\<lambda>v s'. irq s' = irq s \<and>
    v = (if isbadmon s mon \<or> mcount (at (montab s) (uidx mon)) = 0 then SYSERR else OK)) (unlock mon s)"
proof (cases "isbadmon s mon \<or> mcount (at (montab s) (uidx mon)) = 0")
  case True
  then show ?thesis using inv goodmon [of s mon]
    by (cases "isbadmon s mon") (simp_all add: unlock_def disable_def restore_def kmon_def)
next
  case False
  let ?s = "s\<lparr>irq := False\<rparr>" and ?i = "uidx mon" and ?m = "at (montab s) (uidx mon)" and ?cur = "thrcurrent s"
  have i: "inarr (montab s) ?i" using False by (simp add: goodmon)
  have k: "kmon n (?s\<lparr>montab := upd (montab s) ?i f\<rparr>)" for f using inv by (simp add: kmon_def)
  have "good (kmon n) ?cur (\<lambda>v _. True) (signal (msem ?m) (?s\<lparr>montab := upd (montab s) ?i f\<rparr>))" for f
    by (rule good_mono [OF signal_kmon [OF k, of f "msem ?m", simplified]]) (use lt at_in_set [OF i] in auto)
  then have "good (kmon n) ?cur (\<lambda>v _. True)
      (if mcount ?m - 1 = 0
       then oget (mon_upd mon (owner_update (\<lambda>_. NOOWNER)) (?s\<lparr>montab := upd (montab s) ?i (mcount_update (\<lambda>c. c - 1))\<rparr>)) (\<lambda>s. signal (msem ?m) s)
       else Done OK (?s\<lparr>montab := upd (montab s) ?i (mcount_update (\<lambda>c. c - 1))\<rparr>))" (is "good _ _ _ ?body")
    using i k by (simp add: mon_upd_in)
  then have "good (kmon n) ?cur (\<lambda>v s'. irq s' = irq s \<and> v = OK) (obind ?body (\<lambda>_ s'. Done OK (restore (irq s) s')))"
    by (rule kmon.good_restore) (simp add: restore_def)
  with False i show ?thesis by (simp add: unlock_def disable_def mon_upd_in)
qed

section \<open>Creation\<close>

lemma moncreate_ok:
  assumes inv: "kmon n s" and j: "inarr (montab s) j" "mstate (at (montab s) j) = MFREE"
    and k: "inarr (semtab s) k" "sstate (at (semtab s) k) = SFREE" and small: "n \<le> nat INT_MAX"
  shows "\<exists>i s' e. moncreate s = Some (word_of_int i, s') \<and> inarr (montab s) i \<and> mstate (at (montab s) i) = MFREE \<and>
    kmon n s' \<and> irq s' = irq s \<and> at (montab s') i = e \<and> mstate e = MUSED \<and> owner e = NOOWNER \<and> mcount e = 0 \<and>
    \<not> isbadsem s' (msem e) \<and> count (at (semtab s') (uidx (msem e))) = 1"
proof -
  let ?s = "s\<lparr>irq := False\<rparr>"
  obtain i where i: "0 \<le> i" "i < NMON s" "mstate (at (montab s) i) = MFREE"
      "monalloc_loop (length (montab s)) ?s = Some (i, ?s\<lparr>nextmon := i, montab := upd (montab s) i (mstate_update (\<lambda>_. MUSED))\<rparr>)"
    using mon_scan.scan_free [of j ?s] j by (auto simp: inarr_def)
  have b: "i \<le> INT_MAX" using i(2) small inv by (simp add: kmon_def c_consts)
  have iin: "inarr (montab s) i" using i by (simp add: inarr_def)
  define s1 where "s1 = ?s\<lparr>nextmon := i, montab := upd (montab s) i (\<lambda>e. e\<lparr>mstate := MUSED, owner := NOOWNER, mcount := 0\<rparr>)\<rparr>"
  have "kinv s1" using same_core_inv(6) [of s s1] inv by (simp add: same_core_def s1_def kmon_def)
  moreover have "semtab s1 = semtab s" by (simp add: s1_def)
  ultimately obtain c where c: "inarr (semtab s) c" "semcreate 1 s1 = Some (word_of_int c, s1\<lparr>nextsem := c,
        semtab := upd (semtab s) c (\<lambda>e. e\<lparr>sstate := SUSED, count := 1\<rparr>)\<rparr>)"
      "kinv (s1\<lparr>nextsem := c, semtab := upd (semtab s) c (\<lambda>e. e\<lparr>sstate := SUSED, count := 1\<rparr>)\<rparr>)"
    using semcreate_ok [of s1 1 k] k by (auto simp: c_consts)
  have "NSEM s \<le> INT_MAX" using inv kinvE [of s] sched_okD(16) unfolding kmon_def by metis
  then have cb: "0 \<le> c" "c \<le> INT_MAX" using c(1) by (auto simp: inarr_def)
  define s' where "s' = s1\<lparr>nextsem := c, semtab := upd (semtab s) c (\<lambda>e. e\<lparr>sstate := SUSED, count := 1\<rparr>),
    montab := upd (montab s1) i (msem_update (\<lambda>_. word_of_int c)), irq := irq s\<rparr>"
  have "moncreate s = Some (word_of_int i, s')"
    using i(4) iin USYSERR_neq [OF i(1) b] USYSERR_neq [OF cb] uidx_of_int [OF i(1) b] c(2)
    by (simp add: moncreate_def monalloc_def disable_def restore_def s'_def s1_def)
  moreover have "kmon n s'" using c(3) inv by (simp add: kmon_def s'_def) (simp add: s1_def)
  moreover have "\<not> isbadsem s' (word_of_int c)" "count (at (semtab s') (uidx (word_of_int c))) = 1"
    using c(1) uidx_of_int [OF cb] by (simp_all add: goodsem s'_def)
  moreover have "at (montab s') i = (at (montab s) i)\<lparr>mstate := MUSED, owner := NOOWNER, mcount := 0, msem := word_of_int c\<rparr>"
    using iin by (simp add: s'_def s1_def)
  ultimately show ?thesis using iin i(3) by (intro exI [of _ i] exI [of _ s']) (simp add: s'_def)
qed

lemma monfree_good:
  assumes inv: "kmon n s"
  shows "\<exists>v s'. monfree mon s = Some (v, s') \<and> kmon n s' \<and> thrcurrent s' = thrcurrent s \<and> irq s' = irq s \<and>
    v = (if isbadmon s mon then SYSERR else OK) \<and> isbadmon s' mon"
proof (cases "isbadmon s mon")
  case True
  then show ?thesis using inv by (simp add: monfree_def disable_def restore_def)
next
  case False
  let ?s = "s\<lparr>irq := False\<rparr>" and ?sm = "msem (at (montab s) (uidx mon))" and ?i = "uidx mon"
  have i: "inarr (montab s) ?i" using False by (simp add: goodmon)
  have "kinv ?s" using inv by (simp add: kmon_def)
  from semfree_good [OF this, of ?sm] obtain v s1 qt tt st where s1: "semfree ?sm ?s = Some (v, s1)" "kinv s1"
      "thrcurrent s1 = thrcurrent ?s" "s1 = ?s\<lparr>quetab := qt, thrtab := tt, semtab := st\<rparr>"
    by (elim exE conjE) (rule that)
  then have m: "montab s1 = montab s" by simp
  let ?s' = "s1\<lparr>montab := upd (montab s) ?i (mstate_update (\<lambda>_. MFREE)), irq := irq s\<rparr>"
  have "monfree mon s = Some (OK, ?s')"
    using False i s1(1) m by (simp add: monfree_def disable_def restore_def)
  moreover have "isbadmon ?s' mon" using i by (simp add: isbadmon_def)
  moreover have "kmon n ?s'" using s1(2) inv by (simp add: kmon_def)
  ultimately show ?thesis using False s1(3) by (intro exI [of _ OK] exI [of _ ?s']) simp
qed

end
