(* ===== verification/Kernel_Properties.thy ===== *)
theory Kernel_Properties
  imports Message_Calls Monitor_Calls Demo_State
begin

text \<open>
  What the scheduler, the semaphores, the clock, the messages and the monitors guarantee, and
  the limits of those guarantees.
\<close>

section \<open>Scheduling\<close>



section \<open>Semaphores\<close>

text \<open>
  C10. \<open>wait\<close> on a semaphore with a positive count takes one unit and returns at once. Otherwise
  the caller joins the semaphore's queue at the tail, in state \<open>THRWAIT\<close>, and the processor is
  rescheduled in a state in which the invariant holds, so that the count again tells the number
  of waiting threads.
\<close>

theorem wait_semantics:
  assumes "kinv_qs s qs" "running s" "\<not> isbadsem s sm" "thrcurrent s \<noteq> NULLTHREAD"
  defines "q \<equiv> squeue (at (semtab s) (uidx sm))" and "st \<equiv> upd (semtab s) (uidx sm) (count_update (\<lambda>c. c - 1))"
  shows "if 0 < count (at (semtab s) (uidx sm))
    then wait sm s = Done OK (s\<lparr>semtab := st\<rparr>) \<and> kinv_qs (s\<lparr>semtab := st\<rparr>) qs
    else \<exists>s2. wait sm s = obind (resched s2) (\<lambda>_ s'. Done OK (restore (irq s) s')) \<and> semtab s2 = st \<and>
      kinv_qs s2 (qs(q := qs q @ [thrcurrent s])) \<and> thrcurrent s2 = thrcurrent s \<and>
      state (thr s2 (thrcurrent s)) = THRWAIT \<and> sem (thr s2 (thrcurrent s)) = sm"
  using wait_pass_qs [OF assms(1,2,3)] wait_block [OF assms(1-4)] unfolding q_def st_def by auto

theorem wait_semantics_witness:
  "\<exists>s2. wait 0 demo = obind (resched s2) (\<lambda>_ s'. Done OK (restore True s')) \<and>
    kinv_qs s2 (demo_qs(8 := [2, 1])) \<and> state (thr s2 1) = THRWAIT"
proof -
  have "running demo" "\<not> isbadsem demo 0" "thrcurrent demo \<noteq> NULLTHREAD"
    by (simp_all add: running_def isbadsem_def demo_defs uidx_def c_consts)
  from wait_semantics [OF demo_kinv_qs this] show ?thesis
    by (auto simp: demo_defs uidx_def)
qed

text \<open>
  C11. \<open>signal\<close> on a semaphore with waiting threads makes the one that has waited longest ready,
  leaves the others in order, and reschedules in a state in which the invariant holds; without
  waiting threads it only increments the count.
\<close>

theorem signal_semantics:
  assumes "kinv_qs s qs" "running s" "\<not> isbadsem s sm" "count (at (semtab s) (uidx sm)) < INT_MAX"
  defines "q \<equiv> squeue (at (semtab s) (uidx sm))" and "st \<equiv> upd (semtab s) (uidx sm) (count_update (\<lambda>c. c + 1))"
  shows "if 0 \<le> count (at (semtab s) (uidx sm))
    then qs q = [] \<and> signal sm s = Done OK (s\<lparr>semtab := st\<rparr>) \<and> kinv_qs (s\<lparr>semtab := st\<rparr>) qs
    else \<exists>t xs s2 qs2. qs q = t # xs \<and>
      signal sm s = obind (resched s2) (\<lambda>_ s'. Done OK (restore (irq s) s')) \<and> semtab s2 = st \<and>
      kinv_qs s2 qs2 \<and> qs2 q = xs \<and> (\<forall>q'. q' \<noteq> q \<and> q' \<noteq> readylist s \<longrightarrow> qs2 q' = qs q') \<and>
      thrcurrent s2 = thrcurrent s \<and> state (thr s2 t) = THRREADY \<and> t \<in> set (qs2 (readylist s))"
  using signal_free [OF assms(1,3,4), unfolded sem_inc_def] signal_wakes [OF assms(1-4)] unfolding q_def st_def by auto

theorem signal_semantics_witness:
  "\<exists>s2 qs2. signal 0 demo = obind (resched s2) (\<lambda>_ s'. Done OK (restore True s')) \<and>
    kinv_qs s2 qs2 \<and> qs2 8 = [] \<and> state (thr s2 2) = THRREADY"
proof -
  have "running demo" "\<not> isbadsem demo 0" "count (at (semtab demo) (uidx 0)) < INT_MAX"
    by (simp_all add: running_def isbadsem_def demo_defs uidx_def c_consts)
  from signal_semantics [OF demo_kinv_qs this] show ?thesis
    by (auto simp: demo_defs uidx_def)
qed



section \<open>The clock\<close>

lemma wake_shift: "map (\<lambda>(t, w). (t, w - 1)) (wake acc xs) = wake (acc - 1) xs"
  by (induction acc xs rule: wake.induct) (auto simp: algebra_simps)

lemma wake_ge: "\<forall>p \<in> set xs. 0 \<le> snd p \<Longrightarrow> p \<in> set (wake acc xs) \<Longrightarrow> acc \<le> snd p"
  by (induction acc xs rule: wake.induct) fastforce+

lemma wake_due:
  assumes "\<forall>p \<in> set xs. 0 \<le> snd p"
  shows "wake 0 (dropWhile (\<lambda>p. snd p \<le> 0) xs) = filter (\<lambda>p. 0 < snd p) (wake 0 xs)"
  using assms
proof (induction xs)
  case (Cons p xs)
  obtain x d where p: "p = (x, d)" by fastforce
  show ?case
  proof (cases "d = 0")
    case False
    then have "0 < d" using Cons.prems p by simp
    then have "\<forall>r \<in> set (wake d xs). 0 < snd r" using wake_ge [of xs] Cons.prems by fastforce
    then show ?thesis using p \<open>0 < d\<close> by (simp add: filter_id_conv)
  qed (use Cons p in simp)
qed simp

abbreviation sleepers :: "kstate \<Rightarrow> (int \<Rightarrow> int list) \<Rightarrow> (int \<times> int) list" where
  "sleepers s qs \<equiv> wake 0 (keyed (quetab s) (qs (sleepq s)))"

lemma keyed_nonneg: "kinv_qs s qs \<Longrightarrow> \<forall>p \<in> set (keyed (quetab s) (qs (sleepq s))). 0 \<le> snd p"
  by (auto simp: kinv_qs_def sleep_ok_def delays_keyed)

lemma sleeper_gone:
  assumes inv: "kinv_qs s qs" and t: "(t, 1) \<in> set (sleepers s qs)"
    and eq: "wake 0 (keyed qt xs) = filter (\<lambda>p. 0 < snd p) (map (\<lambda>(t, w). (t, w - 1)) (sleepers s qs))"
  shows "inarr (thrtab s) t \<and> t \<in> set (qs (sleepq s)) \<and> t \<notin> set xs"
proof -
  have ok: "sched_ok {} s qs" using inv by (simp add: kinv_qs_def)
  have fsts: "map fst (wake 0 (keyed q ys)) = ys" for q ys by (simp add: fst_wake keyed_def comp_def)
  have d: "distinct (map fst (sleepers s qs))" unfolding fsts
    using qsysD [OF sched_okD(1,3) [OF ok]] by (simp add: qrep_def)
  have "t \<in> set (qs (sleepq s))" using t fsts [of "quetab s" "qs (sleepq s)"] by (metis fst_conv image_eqI set_map)
  moreover have "t \<notin> set xs"
  proof
    assume "t \<in> set xs"
    then have "t \<in> fst ` set (wake 0 (keyed qt xs))" using fsts [of qt xs] by (metis set_map)
    then obtain w where "(t, w) \<in> set (sleepers s qs)" "1 < w" unfolding eq by auto
    then show False using eq_key_imp_eq_value [OF d _ t, of w] by simp
  qed
  ultimately show ?thesis using key_in(2) [OF ok sched_okD(3) [OF ok]] by blast
qed



text \<open>
  A thread that waits in \<open>recvtime\<close> with no time left, delay 0, takes the tick for itself:
  the interrupt makes the threads with no time left ready and gives every other thread of the
  sleep queue exactly as many ticks as before, so that they all sleep one tick longer.
\<close>

theorem clock_tick_absorbed:
  assumes "kinv_qs s qs" "running s" "(t, 0) \<in> set (sleepers s qs)"
  shows "\<exists>s' qs'. clkhandler s = resched s' \<and> kinv_qs s' qs' \<and> sleepq s' = sleepq s \<and>
    sleepers s' qs' = filter (\<lambda>p. 0 < snd p) (sleepers s qs)"
proof -
  obtain s' qs' where c: "clkhandler s = resched s'" "kinv_qs s' qs'" "sleepq s' = sleepq s"
      "keyed (quetab s') (qs' (sleepq s)) = (case keyed (quetab s) (qs (sleepq s)) of [] \<Rightarrow> []
         | (x, d) # xs \<Rightarrow> dropWhile (\<lambda>p. snd p \<le> 0) ((x, d - 1) # xs))"
    using clkhandler_ok [OF assms(1,2)] by blast
  obtain x d xs where xs: "keyed (quetab s) (qs (sleepq s)) = (x, d) # xs"
    using assms(3) by (cases "keyed (quetab s) (qs (sleepq s))") auto
  have nn: "0 \<le> d" "\<forall>p \<in> set xs. 0 \<le> snd p" using keyed_nonneg [OF assms(1)] xs by simp_all
  have "d = 0" using assms(3) xs nn wake_ge [OF nn(2), of "(t, 0)" d] by auto
  then have "sleepers s' qs' = filter (\<lambda>p. 0 < snd p) (sleepers s qs)" using c(3,4) xs wake_due [OF nn(2)] by simp
  with c(1-3) show ?thesis by blast
qed

text \<open>The witness: thread 1 times out at once, thread 3 still has five ticks to go.\<close>

definition drift :: kstate where
  "drift = demo\<lparr>quetab := demo_quetab[0 := qe 0 EMPTY EMPTY, 1 := qe 0 3 6, 3 := qe 5 7 1,
       4 := qe MAXKEY 5 EMPTY, 5 := qe MINKEY EMPTY 4, 6 := qe MAXKEY 1 EMPTY],
     thrtab := [demo_thr THRCURR 0, demo_thr THRTMOUT 20, demo_thr THRWAIT 20, demo_thr THRSLEEP 20],
     thrcurrent := 0\<rparr>"

definition drift_qs :: "int \<Rightarrow> int list" where
  "drift_qs = (\<lambda>_. [])(6 := [1, 3], 8 := [2])"

lemmas drift_defs = drift_def drift_qs_def demo_defs

lemma drift_kinv_qs: "kinv_qs drift drift_qs"
proof -
  have qsys: "qsys (quetab drift) (NTHREAD drift) (kqueues drift) drift_qs"
    by (auto simp: drift_defs qsys_def qrep_def kqueues_def)
  have threads: "inarr (thrtab drift) t \<longleftrightarrow> t \<in> {0, 1, 2, 3}" for t by (auto simp: drift_defs inarr_def)
  have "thr_ok {} drift drift_qs t" if "t \<in> {0, 1, 2, 3}" for t
    using that by (auto simp: drift_defs thr_ok_def qat_def loc_def kqueues_def c_consts uidx_def inarr_def)
  then have "sched_ok {} drift drift_qs"
    using qsys by (simp add: sched_ok_def threads) (simp add: drift_defs c_consts)
  moreover have "sem_ok drift drift_qs" "sleep_ok drift drift_qs"
    by (simp_all add: sem_ok_def sleep_ok_def delays_def drift_defs c_consts)
  ultimately show ?thesis by (simp add: kinv_qs_def)
qed

theorem clock_tick_absorbed_witness:
  "sleepers drift drift_qs = [(1, 0), (3, 5)] \<and>
   (\<exists>s' qs'. clkhandler drift = resched s' \<and> kinv_qs s' qs' \<and> sleepers s' qs' = [(3, 5)])"
proof -
  have s: "running drift" "sleepers drift drift_qs = [(1, 0), (3, 5)]" by (simp_all add: running_def drift_defs)
  with clock_tick_absorbed [OF drift_kinv_qs s(1), of 1] show ?thesis by fastforce
qed

lemma mul1000:
  assumes "unat (ms :: u32) \<le> 4294967"
  shows "(ms * 1000) div 1000 = ms"
proof -
  have k: "unat (1000 :: u32) = 1000" by simp
  have "unat (ms * 1000) = unat ms * 1000" unfolding unat_word_ariths(2) k using assms by simp
  then have "unat ((ms * 1000) div 1000) = unat ms" unfolding unat_div k by simp
  then show ?thesis by (simp add: word_unat_eq_iff)
qed

lemma sleep_ticks_wrap: "sleep_ticks 4294968 = 0"
  by code_simp

text \<open>
  C14. A delay of up to 4294967 milliseconds is converted exactly; above that the unsigned
  product with the clock rate wraps around, and 4294968 milliseconds are no delay at all.
\<close>

theorem sleep_conversion:
  "(unat ms \<le> 4294967 \<longrightarrow> sleep_ticks ms = int (unat ms)) \<and> sleep_ticks 4294968 = 0"
  using mul1000 [of ms] sint_small [of ms] sleep_ticks_wrap unfolding sleep_ticks_def CLKTICKS_PER_SEC_def by simp

theorem sleep_conversion_witness: "sleep_ticks 4294967 = 4294967"
  using sleep_conversion [of 4294967] by simp

section \<open>Messages\<close>

text \<open>
  C15. A message sent to a thread that is not waiting for one is kept for it: a second \<open>send\<close>
  is refused without any effect, and when the thread calls \<open>receive\<close>, with its message still
  there, it gets the value that was sent, at once, and its slot is empty again.
\<close>

theorem message_roundtrip:
  assumes "kinv s" "\<not> isbadtid s t" "\<not> hasmsg (thr s t)"
    and "state (thr s t) \<noteq> THRRECV" "state (thr s t) \<noteq> THRTMOUT"
  shows "\<exists>s'. send t m s = Done OK s' \<and> kinv s' \<and> send t m' s' = Done SYSERR s' \<and>
    (\<forall>w. kinv w \<and> thrcurrent w = t \<and> hasmsg (thr w t) = hasmsg (thr s' t) \<and> msg (thr w t) = msg (thr s' t) \<longrightarrow>
      receive w = Done m (thr_upd t (hasmsg_update (\<lambda>_. False)) w))"
proof -
  have t: "inarr (thrtab s) t" "state (thr s t) \<noteq> THRFREE" using assms(2) by (simp_all add: isbadtid_iff)
  have send: "send t m s = Done OK (deposit t m s)"
    using send_eq [OF assms(2,3)] assms(4,5) by (simp add: deposit_def restore_def)
  have inv: "kinv (deposit t m s)" unfolding deposit_def by (rule kinv_note) (use assms(1) t in simp_all)
  have "send t m' (deposit t m s) = Done SYSERR (deposit t m s)"
    using t by (simp add: send_def deposit_def disable_def restore_def isbadtid_iff)
  moreover have "receive w = Done m (thr_upd t (hasmsg_update (\<lambda>_. False)) w)"
    if "kinv w" "thrcurrent w = t" "hasmsg (thr w t) = hasmsg (thr (deposit t m s) t)"
      "msg (thr w t) = msg (thr (deposit t m s) t)" for w
  proof -
    have "inarr (thrtab w) t" using that(1,2) by (metis kinvE)
    with that(2-4) t(1) show ?thesis by (simp add: receive_def disable_def restore_def deposit_def)
  qed
  ultimately show ?thesis using send inv by blast
qed

theorem message_roundtrip_witness:
  "\<exists>s'. send 2 7 demo = Done OK s' \<and> kinv s' \<and> send 2 8 s' = Done SYSERR s'"
proof -
  have "\<not> isbadtid demo 2" "\<not> hasmsg (thr demo 2)" "state (thr demo 2) \<noteq> THRRECV" "state (thr demo 2) \<noteq> THRTMOUT"
    by (simp_all add: isbadtid_def demo_defs)
  from message_roundtrip [OF demo_kinv this, of 7 8] show ?thesis by blast
qed

lemma only_ready_sleepers:
  assumes "only_ready s qs s' qs'" "sched_ok X s qs"
  shows "sleepers s' qs' = sleepers s qs"
proof -
  have "keyed (quetab s') (qs' (sleepq s')) = keyed (quetab s) (qs (sleepq s))"
    using assms(1) sched_okD(4) [OF assms(2)] by (auto simp: only_ready_def keyed_def)
  then show ?thesis by simp
qed

lemma sleepers_fst: "map fst (sleepers s qs) = qs (sleepq s)"
  by (simp add: fst_wake keyed_def comp_def)

text \<open>The thread in transit to the ready list, with the message deposited.\<close>

lemma send_transit:
  assumes inv: "kinv_qs s qs" and t: "\<not> isbadtid s t" "\<not> hasmsg (thr s t)"
    and st: "state (thr s t) = THRRECV \<or> state (thr s t) = THRTMOUT"
  shows "\<exists>s1 qs1. send t m s = obind (ready t RESCHED_YES s1) (\<lambda>_ s'. Done OK (restore (irq s) s')) \<and>
    sched_ok {t} s1 qs1 \<and> qat s1 qs1 t None \<and> sem_ok s1 qs1 \<and> sleep_ok s1 qs1 \<and> thrcurrent s1 = thrcurrent s \<and>
    hasmsg (thr s1 t) \<and> msg (thr s1 t) = m \<and> sleepers s1 qs1 = filter (\<lambda>p. fst p \<noteq> t) (sleepers s qs)"
proof -
  let ?s1 = "deposit t m (s\<lparr>irq := False\<rparr>)"
  have tin: "inarr (thrtab s) t" "state (thr s t) \<noteq> THRFREE" using t(1) by (simp_all add: isbadtid_iff)
  have e: "state (thr ?s1 t) = state (thr s t)" "inarr (thrtab ?s1) t" "thrcurrent ?s1 = thrcurrent s"
    "hasmsg (thr ?s1 t)" "msg (thr ?s1 t) = m" "sleepq ?s1 = sleepq s" "quetab ?s1 = quetab s" "\<not> isbadtid ?s1 t"
    using tin by (simp_all add: deposit_def isbadtid_iff)
  have "kinv_qs ?s1 qs" unfolding deposit_def
    by (rule kinv_qs_note) (use inv tin sched_okD(12) [of "{}" s qs t] in \<open>auto simp: kinv_qs_def thr_ok_def\<close>)
  then have ok: "sched_ok {} ?s1 qs" "sem_ok ?s1 qs" "sleep_ok ?s1 qs" by (simp_all add: kinv_qs_def)
  show ?thesis
  proof (cases "state (thr s t) = THRRECV")
    case True
    have q: "sched_ok {t} ?s1 qs" "qat ?s1 qs t None" using sched_exempt [OF ok(1) e(8)] True e(1) by (auto simp: loc_def)
    then have "t \<notin> set (qs (sleepq s))" using sched_okD(3) [OF q(1)] e(6) by (auto simp: qat_def)
    then have "filter (\<lambda>p. fst p \<noteq> t) (sleepers s qs) = sleepers s qs"
      using sleepers_fst [of s qs] by (metis (mono_tags, lifting) filter_True image_eqI set_map)
    then show ?thesis using send_eq [OF t] True q ok e by (intro exI [of _ ?s1] exI [of _ qs]) simp
  next
    case False
    then have tm: "state (thr s t) = THRTMOUT" using st by simp
    obtain qt' xs ys where u: "unsleep t ?s1 = Some (OK, ?s1\<lparr>quetab := qt'\<rparr>)" "qs (sleepq s) = xs @ t # ys"
        "sched_ok {t} (?s1\<lparr>quetab := qt'\<rparr>) (qs(sleepq s := xs @ ys))"
        "qat ?s1 (qs(sleepq s := xs @ ys)) t None" "sleep_ok (?s1\<lparr>quetab := qt'\<rparr>) (qs(sleepq s := xs @ ys))"
        "keyed qt' (xs @ ys) = ddel t (keyed (quetab s) (qs (sleepq s)))"
      using unsleep_ok [OF ok(1,3) e(2)] tm e by auto
    have "sem_ok (?s1\<lparr>quetab := qt'\<rparr>) (qs(sleepq s := xs @ ys))"
      using ok(2) sched_okD(6) [OF ok(1)] e(6) by (auto simp: sem_ok_def image_iff)
    moreover have "distinct (map fst (keyed (quetab s) (qs (sleepq s))))"
      using qsysD [OF sched_okD(1,3) [OF ok(1)]] e by (simp add: qrep_def keyed_def comp_def)
    then have "wake 0 (keyed qt' (xs @ ys)) = filter (\<lambda>p. fst p \<noteq> t) (sleepers s qs)"
      unfolding u(6) by (rule wake_ddel)
    ultimately show ?thesis using send_eq [OF t] False tm u e
      by (intro exI [of _ "?s1\<lparr>quetab := qt'\<rparr>"] exI [of _ "qs(sleepq s := xs @ ys)"]) simp
  qed
qed

text \<open>
  C16. A thread that waits in \<open>receive\<close> or \<open>recvtime\<close> is made ready by \<open>send\<close> with the message
  in its slot, and, if it was waiting with a timeout, leaves the sleep queue without changing
  the remaining time of any other thread.
\<close>

theorem send_wakes:
  assumes "kinv_qs s qs" "\<not> isbadtid s t" "\<not> hasmsg (thr s t)"
    and "state (thr s t) = THRRECV \<or> state (thr s t) = THRTMOUT"
  shows "\<exists>s2 qs2. send t m s = obind (resched s2) (\<lambda>_ s'. Done OK (restore (irq s) s')) \<and> kinv_qs s2 qs2 \<and>
    thrcurrent s2 = thrcurrent s \<and> state (thr s2 t) = THRREADY \<and> hasmsg (thr s2 t) \<and> msg (thr s2 t) = m \<and>
    sleepers s2 qs2 = filter (\<lambda>p. fst p \<noteq> t) (sleepers s qs)"
proof -
  obtain s1 qs1 where s1: "send t m s = obind (ready t RESCHED_YES s1) (\<lambda>_ s'. Done OK (restore (irq s) s'))"
      "sched_ok {t} s1 qs1" "qat s1 qs1 t None" "sem_ok s1 qs1" "sleep_ok s1 qs1" "thrcurrent s1 = thrcurrent s"
      "hasmsg (thr s1 t)" "msg (thr s1 t) = m" "sleepers s1 qs1 = filter (\<lambda>p. fst p \<noteq> t) (sleepers s qs)"
    using send_transit [OF assms] by blast
  obtain s2 qs2 where s2: "ready t RESCHED_YES s1 = obind (resched s2) (\<lambda>_ s. Done OK s)" "kinv_qs s2 qs2"
      "only_ready s1 qs1 s2 qs2" "sched_frame s1 s2" "thrcurrent s2 = thrcurrent s1" "state (thr s2 t) = THRREADY"
    using ready_waking [OF s1(2-5)] by blast
  obtain a b where "thr s2 t = (thr s1 t)\<lparr>state := a, intmask := b\<rparr>"
    using s2(4) sched_okD(13) [OF s1(2)] unfolding sched_frame_def by force
  moreover have "sleepers s2 qs2 = sleepers s1 qs1" by (rule only_ready_sleepers [OF s2(3) s1(2)])
  ultimately show ?thesis using s1 s2 by (intro exI [of _ s2] exI [of _ qs2]) (simp add: obind_assoc)
qed

theorem send_wakes_witness:
  "\<exists>s2 qs2. send 1 7 drift = obind (resched s2) (\<lambda>_ s'. Done OK (restore True s')) \<and> kinv_qs s2 qs2 \<and>
    state (thr s2 1) = THRREADY \<and> msg (thr s2 1) = 7 \<and> sleepers s2 qs2 = [(3, 5)]"
proof -
  have d: "\<not> isbadtid drift 1" "\<not> hasmsg (thr drift 1)" "state (thr drift 1) = THRRECV \<or> state (thr drift 1) = THRTMOUT"
    "sleepers drift drift_qs = [(1, 0), (3, 5)]" "irq drift" by (simp_all add: isbadtid_def drift_defs)
  from send_wakes [OF drift_kinv_qs d(1-3), of 7] d(4,5) show ?thesis by fastforce
qed

section \<open>Monitors\<close>

lemma lock_free:
  assumes inv: "kinv_qs s qs" "running s" and m: "\<not> isbadmon s mon" "owner (at (montab s) (uidx mon)) = NOOWNER"
    and sm: "\<not> isbadsem s (msem (at (montab s) (uidx mon)))"
      "0 < count (at (semtab s) (uidx (msem (at (montab s) (uidx mon)))))"
  defines "mt \<equiv> upd (montab s) (uidx mon) (\<lambda>e. e\<lparr>owner := thrcurrent s, mcount := mcount e + 1\<rparr>)"
    and "st \<equiv> upd (semtab s) (uidx (msem (at (montab s) (uidx mon)))) (count_update (\<lambda>c. c - 1))"
  shows "lock mon s = Done OK (s\<lparr>montab := mt, semtab := st\<rparr>) \<and> kinv_qs (s\<lparr>montab := mt, semtab := st\<rparr>) qs"
proof -
  have i: "inarr (montab s) (uidx mon)" using m(1) by (simp add: goodmon)
  let ?s = "s\<lparr>irq := False, montab := mt\<rparr>" and ?sm = "msem (at (montab s) (uidx mon))"
  have inv': "kinv_qs (s\<lparr>montab := mt\<rparr>) qs" "running (s\<lparr>montab := mt\<rparr>)"
      "kinv_qs ?s qs" "running ?s" "\<not> isbadsem ?s ?sm"
    using inv sm(1) same_core_inv(4) [of s ?s qs] by (simp_all add: same_core_def running_def isbadsem_def)
  have w: "wait ?sm ?s = Done OK (?s\<lparr>semtab := st\<rparr>)"
    using wait_pass_qs [OF inv'(3,4,5)] sm(2) unfolding st_def by simp
  have "kinv_qs (s\<lparr>montab := mt, semtab := st\<rparr>) qs"
    using wait_pass_qs [OF inv'(1,2), of ?sm] sm unfolding st_def by (simp add: isbadsem_def)
  moreover have "upd (montab s) (uidx mon) (\<lambda>x. mcount_update (\<lambda>c. c + 1) (x\<lparr>owner := thrcurrent s\<rparr>)) = mt"
    unfolding mt_def using i by (intro at_eqI) (auto simp: at_upd)
  ultimately show ?thesis using w m i by (simp add: lock_def disable_def restore_def mon_upd_in)
qed

text \<open>
  C17. A monitor is a recursive lock: a thread that takes a free monitor twice and releases it
  twice never blocks, owns the monitor after each step but the last, and leaves the whole kernel
  state as it found it.
\<close>

theorem lock_recursive:
  assumes "kinv s" "\<not> isbadmon s mon" "owner (at (montab s) (uidx mon)) = NOOWNER"
    and "mcount (at (montab s) (uidx mon)) = 0" "\<not> isbadsem s (msem (at (montab s) (uidx mon)))"
    and "count (at (semtab s) (uidx (msem (at (montab s) (uidx mon))))) = 1"
  shows "\<exists>s1 s2. lock mon s = Done OK s1 \<and> lock mon s1 = Done OK s2 \<and>
    owner (at (montab s1) (uidx mon)) = thrcurrent s \<and> owner (at (montab s2) (uidx mon)) = thrcurrent s \<and>
    unlock mon s2 = Done OK s1 \<and> unlock mon s1 = Done OK s"
proof -
  let ?i = "uidx mon" and ?sm = "msem (at (montab s) (uidx mon))"
  obtain qs where qs: "kinv_qs s qs" "running s" "inarr (thrtab s) (thrcurrent s)" using assms(1) by (elim kinvE)
  have i: "inarr (montab s) ?i" "mstate (at (montab s) ?i) = MUSED" and j: "inarr (semtab s) (uidx ?sm)" "sstate (at (semtab s) (uidx ?sm)) = SUSED"
    using assms(2,5) by (simp_all add: goodmon goodsem)
  have no: "thrcurrent s \<noteq> NOOWNER" using qs(3) by (auto simp: inarr_def c_consts)
  define s1 where "s1 = s\<lparr>montab := upd (montab s) ?i (\<lambda>e. e\<lparr>owner := thrcurrent s, mcount := mcount e + 1\<rparr>),
    semtab := upd (semtab s) (uidx ?sm) (count_update (\<lambda>c. c - 1))\<rparr>"
  define s2 where "s2 = s1\<lparr>montab := upd (montab s1) ?i (mcount_update (\<lambda>c. c + 1))\<rparr>"
  have l1: "lock mon s = Done OK s1" "kinv_qs s1 qs"
    using lock_free [OF qs(1,2) assms(2,3,5)] assms(6) unfolding s1_def by simp_all
  have e1: "at (montab s1) ?i = (at (montab s) ?i)\<lparr>owner := thrcurrent s, mcount := 1\<rparr>" "thrcurrent s1 = thrcurrent s"
      "inarr (montab s1) ?i" "\<not> isbadmon s1 mon" "irq s1 = irq s" "\<not> isbadsem s1 ?sm" "count (at (semtab s1) (uidx ?sm)) = 0"
    using i j assms(4,6) by (simp_all add: s1_def goodmon goodsem)
  have "lock mon s1 = Done OK s2"
    using e1 no by (simp add: lock_def disable_def restore_def mon_upd_in s2_def)
  moreover have e2: "at (montab s2) ?i = (at (montab s) ?i)\<lparr>owner := thrcurrent s, mcount := 2\<rparr>" "inarr (montab s2) ?i" "\<not> isbadmon s2 mon"
    using e1(1,3,4) by (simp_all add: s2_def goodmon)
  have "unlock mon s2 = Done OK (s2\<lparr>montab := upd (montab s2) ?i (mcount_update (\<lambda>c. c - 1))\<rparr>)"
    using e2 by (simp add: unlock_def disable_def restore_def mon_upd_in)
  then have "unlock mon s2 = Done OK s1" using e1(3) by (simp add: s2_def)
  moreover have "unlock mon s1 = Done OK s"
  proof -
    let ?mt = "upd (montab s1) ?i (\<lambda>e. e\<lparr>owner := NOOWNER, mcount := 0\<rparr>)"
    have mt: "upd (montab s1) ?i (\<lambda>e. (mcount_update (\<lambda>c. c - 1) e)\<lparr>owner := NOOWNER\<rparr>) = ?mt"
      using e1(1,3) by (intro at_eqI) (auto simp: at_upd)
    let ?s = "s1\<lparr>irq := False, montab := ?mt\<rparr>"
    have "kinv_qs ?s qs" "\<not> isbadsem ?s ?sm" 
      using l1(2) e1(6) same_core_inv(4) [of s1 ?s qs] by (simp_all add: same_core_def isbadsem_def)
    then have "signal ?sm ?s = Done OK (sem_inc ?sm ?s)" using signal_free [of ?s qs ?sm] e1(7) by (simp add: c_consts)
    then have "unlock mon s1 = Done OK (s1\<lparr>montab := ?mt, semtab := semtab (sem_inc ?sm s1)\<rparr>)"
      using e1 mt by (simp add: unlock_def disable_def restore_def mon_upd_in sem_inc_def)
    moreover have "?mt = montab s"
      using i(1) assms(3,4) by (intro at_eqI) (auto simp: s1_def at_upd)
    moreover have "semtab (sem_inc ?sm s1) = semtab s" using j(1) by (simp add: sem_inc_def s1_def)
    ultimately show ?thesis by (simp add: s1_def)
  qed
  ultimately show ?thesis using l1(1) e1(1) e2(1) by auto
qed

theorem lock_recursive_witness:
  "\<exists>s1 s2. lock 0 demo = Done OK s1 \<and> lock 0 s1 = Done OK s2 \<and> unlock 0 s2 = Done OK s1 \<and> unlock 0 s1 = Done OK demo"
proof -
  have "\<not> isbadmon demo 0" "owner (at (montab demo) (uidx 0)) = NOOWNER" "mcount (at (montab demo) (uidx 0)) = 0"
    "\<not> isbadsem demo (msem (at (montab demo) (uidx 0)))" "count (at (semtab demo) (uidx (msem (at (montab demo) (uidx 0))))) = 1"
    by (simp_all add: isbadmon_def isbadsem_def demo_defs uidx_def)
  from lock_recursive [OF demo_kinv this] show ?thesis by blast
qed

text \<open>
  The state of the next property: thread 2 (priority 20) runs, thread 1 (priority 30) owns
  monitor 0 and sleeps for one more tick.
\<close>

definition contended :: kstate where
  "contended = demo\<lparr>
     quetab := [qe 0 5 4, qe 1 7 6, qe 20 EMPTY EMPTY, qe 20 EMPTY EMPTY,
       qe MAXKEY 0 EMPTY, qe MINKEY EMPTY 0, qe MAXKEY 1 EMPTY, qe MINKEY EMPTY 1,
       qe MAXKEY 9 EMPTY, qe MINKEY EMPTY 8, qe MAXKEY 11 EMPTY, qe MINKEY EMPTY 10],
     thrtab := [demo_thr THRREADY 0, demo_thr THRSLEEP 30, demo_thr THRCURR 20, demo_thr THRFREE 20],
     thrcurrent := 2,
     semtab := [\<lparr>sstate = SUSED, count = 0, squeue = 8\<rparr>, \<lparr>sstate = SUSED, count = 0, squeue = 10\<rparr>],
     montab := [\<lparr>mstate = MUSED, owner = 1, mcount = 1, msem = 1\<rparr>]\<rparr>"


end
