(* ===== verification/Mailboxes.thy ===== *)
theory Mailboxes
  imports Semaphores Memory
begin

text \<open>
  Mailboxes, bounded message queues in heap memory guarded by two semaphores:
  \<open>mailboxInit.c\<close>, \<open>mailboxAlloc.c\<close>, \<open>mailboxFree.c\<close>, \<open>mailboxSend.c\<close>,
  \<open>mailboxReceive.c\<close> and \<open>mailboxCount.c\<close>. A message is stored as a word of the array
  \<open>msgs\<close>; element \<open>i\<close> is at address \<open>msgs + 4 * i\<close>.
\<close>

abbreviation mbox_upd :: "u32 \<Rightarrow> (mbox \<Rightarrow> mbox) \<Rightarrow> kstate \<Rightarrow> kstate option" where
  "mbox_upd box f s \<equiv> do { mt \<leftarrow> aupd (mboxtab s) (uidx box) f; Some (s\<lparr>mboxtab := mt\<rparr>) }"

definition bad_box :: "u32 \<Rightarrow> kstate \<Rightarrow> bool" where
  "bad_box box s \<longleftrightarrow> \<not> uidx box < NMAILBOX s"

fun mailboxInit_loop :: "nat \<Rightarrow> u32 \<Rightarrow> kstate \<Rightarrow> kstate option" where
  "mailboxInit_loop 0 i s = Some s"
| "mailboxInit_loop (Suc n) i s = do {
     s \<leftarrow> mbox_upd i (mbstate_update (\<lambda>_. MAILBOX_FREE)) s;
     mailboxInit_loop n (i + 1) s }"

definition mailboxInit :: "kstate \<Rightarrow> (int \<times> kstate) option" where
  "mailboxInit s = do {
     s \<leftarrow> mailboxInit_loop (length (mboxtab s)) 0 s;
     (sm, s) \<leftarrow> semcreate 1 s;
     let s = s\<lparr>mboxtabsem := sm\<rparr>;
     if sm = USYSERR then Some (SYSERR, s) else Some (OK, s) }"

text \<open>The body of the search loop when slot \<open>box\<close> is free.\<close>

definition mailboxAlloc_setup :: "u32 \<Rightarrow> u32 \<Rightarrow> kstate \<Rightarrow> (int \<times> kstate) option" where
  "mailboxAlloc_setup cnt box s = do {
     (p, s) \<leftarrow> memget (4 * cnt) s;
     s \<leftarrow> mbox_upd box (msgs_update (\<lambda>_. p)) s;
     if p = USYSERR then Some (SYSERR, s)
     else do {
       s \<leftarrow> mbox_upd box (\<lambda>m. m\<lparr>mbcount := 0, mbstart := 0, mbmax := cnt\<rparr>) s;
       (snd_sem, s) \<leftarrow> semcreate (sint cnt) s;
       s \<leftarrow> mbox_upd box (sender_update (\<lambda>_. snd_sem)) s;
       (rcv_sem, s) \<leftarrow> semcreate 0 s;
       s \<leftarrow> mbox_upd box (receiver_update (\<lambda>_. rcv_sem)) s;
       if snd_sem = USYSERR \<or> rcv_sem = USYSERR
       then do {
         (_, s) \<leftarrow> memfree p (4 * cnt) s;
         (_, s) \<leftarrow> semfree snd_sem s;
         (_, s) \<leftarrow> semfree rcv_sem s;
         Some (SYSERR, s) }
       else do {
         s \<leftarrow> mbox_upd box (mbstate_update (\<lambda>_. MAILBOX_ALLOC)) s;
         Some (sint box, s) } } }"

text \<open>\<open>n\<close> slots are still to be tried.\<close>

fun mailboxAlloc_loop :: "nat \<Rightarrow> u32 \<Rightarrow> kstate \<Rightarrow> (int \<times> kstate) option" where
  "mailboxAlloc_loop 0 cnt s = Some (SYSERR, s)"
| "mailboxAlloc_loop (Suc n) cnt s = do {
     s \<leftarrow> Some (s\<lparr>nextmbx := (nextmbx s + 1) mod word_of_nat (length (mboxtab s))\<rparr>);
     mbx \<leftarrow> aget (mboxtab s) (uidx (nextmbx s));
     if mbstate mbx = MAILBOX_FREE then mailboxAlloc_setup cnt (nextmbx s) s
     else mailboxAlloc_loop n cnt s }"

definition mailboxAlloc :: "u32 \<Rightarrow> kstate \<Rightarrow> int outcome" where
  "mailboxAlloc cnt s =
     obind (wait (mboxtabsem s) s) (\<lambda>_ s.
     oget (mailboxAlloc_loop (length (mboxtab s)) cnt s) (\<lambda>(retval, s).
     obind (signal (mboxtabsem s) s) (\<lambda>_ s. Done retval s)))"

definition mailboxFree :: "u32 \<Rightarrow> kstate \<Rightarrow> int outcome" where
  "mailboxFree box s =
     (if bad_box box s then Done SYSERR s
      else obind (wait (mboxtabsem s) s) (\<lambda>_ s.
        oget (do {
            mbx \<leftarrow> aget (mboxtab s) (uidx box);
            if mbstate mbx = MAILBOX_ALLOC
            then do {
              s \<leftarrow> mbox_upd box (mbstate_update (\<lambda>_. MAILBOX_FREE)) s;
              (_, s) \<leftarrow> semfree (sender mbx) s;
              (_, s) \<leftarrow> semfree (receiver mbx) s;
              (_, s) \<leftarrow> memfree (msgs mbx) (4 * mbmax mbx) s;
              Some (OK, s) }
            else Some (SYSERR, s) })
          (\<lambda>(retval, s). obind (signal (mboxtabsem s) s) (\<lambda>_ s. Done retval s))))"

text \<open>
  The enqueueing part of \<open>mailboxSend\<close> and the dequeueing part of \<open>mailboxReceive\<close>, between
  the two semaphore calls. The remainder by a zero \<open>max\<close> is undefined.
\<close>

definition mbox_put :: "u32 \<Rightarrow> int \<Rightarrow> kstate \<Rightarrow> kstate option" where
  "mbox_put box mailmsg s = do {
     mbx \<leftarrow> aget (mboxtab s) (uidx box);
     _ \<leftarrow> c_guard (mbmax mbx \<noteq> 0);
     s \<leftarrow> st (msgs mbx + 4 * ((mbstart mbx + mbcount mbx) mod mbmax mbx)) (word_of_int mailmsg) s;
     mbox_upd box (mbcount_update (\<lambda>c. c + 1)) s }"

definition mbox_take :: "u32 \<Rightarrow> kstate \<Rightarrow> (int \<times> kstate) option" where
  "mbox_take box s = do {
     mbx \<leftarrow> aget (mboxtab s) (uidx box);
     v \<leftarrow> ld s (msgs mbx + 4 * mbstart mbx);
     _ \<leftarrow> c_guard (mbmax mbx \<noteq> 0);
     s \<leftarrow> mbox_upd box (\<lambda>m. m\<lparr>mbstart := (mbstart m + 1) mod mbmax m, mbcount := mbcount m - 1\<rparr>) s;
     Some (sint v, s) }"

definition mailboxSend :: "u32 \<Rightarrow> int \<Rightarrow> kstate \<Rightarrow> int outcome" where
  "mailboxSend box mailmsg s =
     (if bad_box box s then Done SYSERR s
      else let (im, s) = disable s in
        obind
          (oget (aget (mboxtab s) (uidx box)) (\<lambda>mbx.
             if mbstate mbx = MAILBOX_ALLOC
             then obind (wait (sender mbx) s) (\<lambda>_ s.
               oget (aget (mboxtab s) (uidx box)) (\<lambda>mbx.
                 if mbstate mbx = MAILBOX_ALLOC
                 then oget (mbox_put box mailmsg s) (\<lambda>s.
                   obind (signal (receiver mbx) s) (\<lambda>_ s. Done OK s))
                 else Done SYSERR s))
             else Done SYSERR s))
          (\<lambda>retval s. Done retval (restore im s)))"

definition mailboxReceive :: "u32 \<Rightarrow> kstate \<Rightarrow> int outcome" where
  "mailboxReceive box s =
     (if bad_box box s then Done SYSERR s
      else let (im, s) = disable s in
        obind
          (oget (aget (mboxtab s) (uidx box)) (\<lambda>mbx.
             if mbstate mbx = MAILBOX_ALLOC
             then obind (wait (receiver mbx) s) (\<lambda>_ s.
               oget (aget (mboxtab s) (uidx box)) (\<lambda>mbx.
                 if mbstate mbx = MAILBOX_ALLOC
                 then oget (mbox_take box s) (\<lambda>(v, s).
                   obind (signal (sender mbx) s) (\<lambda>_ s. Done v s))
                 else Done SYSERR s))
             else Done SYSERR s))
          (\<lambda>retval s. Done retval (restore im s)))"

definition mailboxCount :: "u32 \<Rightarrow> kstate \<Rightarrow> (int \<times> kstate) option" where
  "mailboxCount box s =
     (if bad_box box s then Some (SYSERR, s)
      else let (im, s) = disable s in do {
        mbx \<leftarrow> aget (mboxtab s) (uidx box);
        let retval = (if mbstate mbx = MAILBOX_ALLOC then sint (mbcount mbx) else SYSERR);
        Some (retval, restore im s) })"

end
