(* ===== verification/Mailbox_Queue.thy ===== *)
theory Mailbox_Queue
  imports Mailboxes Memory_Contract Semaphore_Calls
begin

text \<open>
  The message array of a mailbox is a ring buffer. \<open>contents\<close> reads it as a list; the two
  operations between the semaphore calls append to it and take its head. The contract of a
  bounded queue is a locale, of which the ring buffer is an interpretation.
\<close>

section \<open>The contract\<close>

primrec put_all :: "('a \<Rightarrow> 's \<Rightarrow> 's option) \<Rightarrow> 'a list \<Rightarrow> 's \<Rightarrow> 's option" where
  "put_all put [] s = Some s"
| "put_all put (x # xs) s = do { s \<leftarrow> put x s; put_all put xs s }"

primrec take_n :: "('s \<Rightarrow> ('a \<times> 's) option) \<Rightarrow> nat \<Rightarrow> 's \<Rightarrow> ('a list \<times> 's) option" where
  "take_n get 0 s = Some ([], s)"
| "take_n get (Suc n) s = do { (x, s) \<leftarrow> get s; (xs, s) \<leftarrow> take_n get n s; Some (x # xs, s) }"

locale bounded_fifo =
  fixes good_state :: "'s \<Rightarrow> bool" and items :: "'s \<Rightarrow> 'a list" and capacity :: "'s \<Rightarrow> nat"
    and valid :: "'a \<Rightarrow> bool" and put :: "'a \<Rightarrow> 's \<Rightarrow> 's option" and get :: "'s \<Rightarrow> ('a \<times> 's) option"
  assumes put_law: "good_state s \<Longrightarrow> valid x \<Longrightarrow> length (items s) < capacity s \<Longrightarrow>
      \<exists>s'. put x s = Some s' \<and> good_state s' \<and> items s' = items s @ [x] \<and> capacity s' = capacity s"
    and get_law: "good_state s \<Longrightarrow> items s = x # xs \<Longrightarrow>
      \<exists>s'. get s = Some (x, s') \<and> good_state s' \<and> items s' = xs \<and> capacity s' = capacity s"
begin

lemma put_all_items:
  assumes "good_state s" "\<forall>x \<in> set xs. valid x" "length (items s) + length xs \<le> capacity s"
  shows "\<exists>s'. put_all put xs s = Some s' \<and> good_state s' \<and> items s' = items s @ xs \<and> capacity s' = capacity s"
  using assms
proof (induction xs arbitrary: s)
  case (Cons x xs)
  obtain s1 where s1: "put x s = Some s1" "good_state s1" "items s1 = items s @ [x]" "capacity s1 = capacity s"
    using put_law [of s x] Cons.prems by auto
  with Cons.IH [of s1] Cons.prems show ?case by auto
qed simp

lemma take_n_items:
  assumes "good_state s" "items s = xs @ ys"
  shows "\<exists>s'. take_n get (length xs) s = Some (xs, s') \<and> good_state s' \<and> items s' = ys \<and> capacity s' = capacity s"
  using assms
proof (induction xs arbitrary: s)
  case (Cons x xs)
  obtain s1 where s1: "get s = Some (x, s1)" "good_state s1" "items s1 = xs @ ys" "capacity s1 = capacity s"
    using get_law [of s x "xs @ ys"] Cons.prems by auto
  with Cons.IH [of s1] show ?case by auto
qed simp

text \<open>Messages leave in the order in which they came, behind those already there.\<close>

lemma fifo:
  assumes "good_state s" "\<forall>x \<in> set xs. valid x" "length (items s) + length xs \<le> capacity s"
  shows "\<exists>s1 s2. put_all put xs s = Some s1 \<and>
    take_n get (length (items s) + length xs) s1 = Some (items s @ xs, s2) \<and> good_state s2 \<and> items s2 = []"
proof -
  obtain s1 where s1: "put_all put xs s = Some s1" "good_state s1" "items s1 = items s @ xs"
    using put_all_items [OF assms] by blast
  with take_n_items [of s1 "items s @ xs" "[]"] show ?thesis by auto
qed

end

section \<open>The ring buffer\<close>

definition mbox_ok :: "u32 \<Rightarrow> kstate \<Rightarrow> bool" where
  "mbox_ok box s \<longleftrightarrow> inarr (mboxtab s) (uidx box) \<and> (let m = at (mboxtab s) (uidx box) in
     0 < unat (mbmax m) \<and> unat (mbcount m) \<le> unat (mbmax m) \<and> unat (mbstart m) < unat (mbmax m) \<and>
     unat (memheap s) \<le> unat (msgs m) \<and> 4 dvd unat (msgs m) \<and>
     unat (msgs m) + 4 * unat (mbmax m) \<le> unat (maxaddr s))"

definition cell :: "mbox \<Rightarrow> nat \<Rightarrow> u32" where
  "cell m j = msgs m + 4 * word_of_nat j"

definition contents :: "u32 \<Rightarrow> kstate \<Rightarrow> int list" where
  "contents box s = (let m = at (mboxtab s) (uidx box) in
     map (\<lambda>i. sint (mem s (cell m ((unat (mbstart m) + i) mod unat (mbmax m))))) [0..<unat (mbcount m)])"

definition is_msg :: "int \<Rightarrow> bool" where
  "is_msg x \<longleftrightarrow> INT_MIN \<le> x \<and> x \<le> INT_MAX"

abbreviation mbx :: "u32 \<Rightarrow> kstate \<Rightarrow> mbox" where
  "mbx box s \<equiv> at (mboxtab s) (uidx box)"

lemma sint_msg: "is_msg x \<Longrightarrow> sint (word_of_int x :: u32) = x"
  by (simp add: is_msg_def c_consts sint_sbintrunc' signed_take_bit_int_eq_self)

lemma cell_addr:
  assumes "mbox_ok box s" "j < unat (mbmax (mbx box s))"
  shows "unat (cell (mbx box s) j) = unat (msgs (mbx box s)) + 4 * j" "heap_word s (cell (mbx box s) j)"
proof -
  let ?m = "mbx box s"
  have b: "unat (msgs ?m) + 4 * unat (mbmax ?m) \<le> unat (maxaddr s)" "4 dvd unat (msgs ?m)" "unat (memheap s) \<le> unat (msgs ?m)"
    using assms(1) by (simp_all add: mbox_ok_def Let_def)
  have j: "4 * j < 4294967296" using b(1) assms(2) unat_lt32 [of "maxaddr s"] by linarith
  have "unat (word_of_nat j :: u32) = j" using j by (simp add: unat_of_nat)
  then have "unat (4 * word_of_nat j :: u32) = 4 * j" using j by (simp add: unat_word_ariths)
  then show u: "unat (cell ?m j) = unat (msgs ?m) + 4 * j"
    unfolding cell_def using b(1) assms(2) unat_lt32 [of "maxaddr s"] by (subst unat_add32) linarith+
  then show "heap_word s (cell ?m j)"
    using b assms(2) by (auto simp: heap_word_iff)
qed

lemma cell_inj:
  assumes "mbox_ok box s" "i < unat (mbmax (mbx box s))" "j < unat (mbmax (mbx box s))"
  shows "cell (mbx box s) i = cell (mbx box s) j \<longleftrightarrow> i = j"
  using cell_addr(1) [OF assms(1,2)] cell_addr(1) [OF assms(1,3)] by (auto simp: word_unat_eq_iff)

lemma mod_ring_distinct:
  assumes "i < c" "c < (m :: nat)"
  shows "(a + i) mod m \<noteq> (a + c) mod m"
proof
  assume "(a + i) mod m = (a + c) mod m"
  then have "m dvd (a + c) - (a + i)" using assms by (subst mod_eq_dvd_iff_nat [symmetric]) auto
  then show False using assms by (auto dest: dvd_imp_le)
qed

lemma length_contents [simp]: "length (contents box s) = unat (mbcount (mbx box s))"
  by (simp add: contents_def Let_def)

lemma mbox_bound: "mbox_ok box s \<Longrightarrow> unat (mbmax (mbx box s)) < 1073741824"
  unfolding mbox_ok_def Let_def using unat_lt32 [of "maxaddr s"] by linarith

text \<open>The index arithmetic on words does not wrap.\<close>

lemma ring_index:
  assumes "mbox_ok box s" "unat k \<le> unat (mbmax (mbx box s))"
  shows "unat ((mbstart (mbx box s) + k) mod mbmax (mbx box s)) =
    (unat (mbstart (mbx box s)) + unat k) mod unat (mbmax (mbx box s))"
  using assms mbox_bound [OF assms(1)]
  by (auto simp: unat_mod mbox_ok_def Let_def unat_add32)

lemma cell_word: "msgs m + 4 * w = cell m (unat w)"
  by (simp add: cell_def)

lemma mbox_put_ok:
  assumes ok: "mbox_ok box s" and v: "is_msg v" and room: "unat (mbcount (mbx box s)) < unat (mbmax (mbx box s))"
  defines "m \<equiv> mbx box s"
  shows "\<exists>s'. mbox_put box v s = Some s' \<and>
    s' = s\<lparr>mem := (mem s)(cell m ((unat (mbstart m) + unat (mbcount m)) mod unat (mbmax m)) := word_of_int v),
      mboxtab := upd (mboxtab s) (uidx box) (mbcount_update (\<lambda>c. c + 1))\<rparr> \<and>
    mbox_ok box s' \<and> contents box s' = contents box s @ [v]"
proof -
  let ?c = "unat (mbcount m)" and ?n = "unat (mbmax m)" and ?a = "unat (mbstart m)"
  have i: "inarr (mboxtab s) (uidx box)" and n: "0 < ?n" using ok by (simp_all add: mbox_ok_def Let_def m_def)
  define w where "w = cell m ((?a + ?c) mod ?n)"
  have widx: "msgs m + 4 * ((mbstart m + mbcount m) mod mbmax m) = w"
    unfolding cell_word w_def m_def using ring_index [OF ok, of "mbcount (mbx box s)"] room by (simp add: m_def)
  have hw: "heap_word s w" unfolding w_def m_def by (rule cell_addr(2) [OF ok]) (use n in \<open>simp add: m_def\<close>)
  define s' where "s' = s\<lparr>mem := (mem s)(w := word_of_int v), mboxtab := upd (mboxtab s) (uidx box) (mbcount_update (\<lambda>c. c + 1))\<rparr>"
  have nz: "mbmax m \<noteq> 0" using n by (auto simp: unat_eq_0)
  have put: "mbox_put box v s = Some s'"
    using i hw nz by (simp add: mbox_put_def m_def [symmetric] widx st_def s'_def)
  have cnt: "unat (mbcount m + 1) = ?c + 1" using room mbox_bound [OF ok] by (simp add: m_def unat_add32)
  have m': "mbx box s' = m\<lparr>mbcount := mbcount m + 1\<rparr>" using i by (simp add: s'_def m_def)
  have "mbox_ok box s'" using ok room cnt m' i by (simp add: mbox_ok_def Let_def m_def [symmetric] s'_def)
  moreover have "contents box s' = contents box s @ [v]"
  proof -
    have "sint (mem s' (cell m ((?a + j) mod ?n))) = sint (mem s (cell m ((?a + j) mod ?n)))" if "j < ?c" for j
      using that mod_ring_distinct [OF that room [folded m_def], of ?a] cell_inj [OF ok, folded m_def] n
      by (simp add: s'_def w_def)
    moreover have "sint (mem s' w) = v" using v by (simp add: s'_def sint_msg)
    ultimately show ?thesis
      by (simp add: contents_def Let_def m' m_def [symmetric] cnt w_def cell_def)
  qed
  ultimately show ?thesis using put unfolding s'_def w_def by blast
qed

lemma mbox_take_ok:
  assumes ok: "mbox_ok box s" and c: "contents box s = v # vs"
  defines "m \<equiv> mbx box s"
  shows "\<exists>s'. mbox_take box s = Some (v, s') \<and>
    s' = s\<lparr>mboxtab := upd (mboxtab s) (uidx box) (\<lambda>m. m\<lparr>mbstart := (mbstart m + 1) mod mbmax m, mbcount := mbcount m - 1\<rparr>)\<rparr> \<and>
    mbox_ok box s' \<and> contents box s' = vs"
proof -
  let ?c = "unat (mbcount m)" and ?n = "unat (mbmax m)" and ?a = "unat (mbstart m)"
  have i: "inarr (mboxtab s) (uidx box)" and n: "0 < ?n" "?a < ?n" "?c \<le> ?n" using ok by (simp_all add: mbox_ok_def Let_def m_def)
  have len: "?c = Suc (length vs)" using arg_cong [OF c, of length] by (simp add: m_def)
  have hw: "heap_word s (msgs m + 4 * mbstart m)" unfolding cell_word m_def by (rule cell_addr(2) [OF ok]) (use n in \<open>simp add: m_def\<close>)
  have at_i: "contents box s ! j = sint (mem s (cell m ((?a + j) mod ?n)))" if "j < ?c" for j
    using that by (simp add: contents_def Let_def m_def)
  have v: "v = sint (mem s (msgs m + 4 * mbstart m))"
    unfolding cell_word using at_i [of 0] c len n by simp
  define s' where "s' = s\<lparr>mboxtab := upd (mboxtab s) (uidx box) (\<lambda>m. m\<lparr>mbstart := (mbstart m + 1) mod mbmax m, mbcount := mbcount m - 1\<rparr>)\<rparr>"
  have nz: "mbmax m \<noteq> 0" using n by (auto simp: unat_eq_0)
  have take: "mbox_take box s = Some (v, s')"
    using i hw nz v by (simp add: mbox_take_def m_def [symmetric] ld_def s'_def)
  have st: "unat ((mbstart m + 1) mod mbmax m) = (?a + 1) mod ?n"
    using ring_index [OF ok, of 1] n by (simp add: m_def)
  have cnt: "unat (mbcount m - 1) = ?c - 1" using len by (simp add: unat_sub32)
  have m': "mbx box s' = m\<lparr>mbstart := (mbstart m + 1) mod mbmax m, mbcount := mbcount m - 1\<rparr>" using i by (simp add: s'_def m_def)
  have "mbox_ok box s'" using ok n cnt st m' i by (simp add: mbox_ok_def Let_def m_def [symmetric] s'_def)
  moreover have "contents box s' = vs"
  proof (rule nth_equalityI)
    show "length (contents box s') = length vs" using cnt len m' by simp
    fix j assume "j < length (contents box s')"
    then have j: "j < length vs" using cnt len m' by simp
    have "((?a + 1) mod ?n + j) mod ?n = (?a + Suc j) mod ?n" by (simp add: mod_simps)
    then have "contents box s' ! j = sint (mem s (cell m ((?a + Suc j) mod ?n)))"
      unfolding contents_def Let_def m' using j len cnt st by (simp add: cell_def) (simp add: s'_def)
    also have "\<dots> = vs ! j" using at_i [of "Suc j"] c j len by simp
    finally show "contents box s' ! j = vs ! j" .
  qed
  ultimately show ?thesis using take unfolding s'_def by blast
qed

interpretation ring: bounded_fifo "mbox_ok box" "contents box" "\<lambda>s. unat (mbmax (mbx box s))" is_msg
    "mbox_put box" "mbox_take box"
proof
  fix s x assume "mbox_ok box s" "is_msg x" "length (contents box s) < unat (mbmax (mbx box s))"
  moreover from this have "inarr (mboxtab s) (uidx box)" by (simp add: mbox_ok_def)
  ultimately show "\<exists>s'. mbox_put box x s = Some s' \<and> mbox_ok box s' \<and> contents box s' = contents box s @ [x] \<and>
      unat (mbmax (mbx box s')) = unat (mbmax (mbx box s))"
    using mbox_put_ok [of box s x] by auto
next
  fix s x xs assume "mbox_ok box s" "contents box s = x # xs"
  moreover from this have "inarr (mboxtab s) (uidx box)" by (simp add: mbox_ok_def)
  ultimately show "\<exists>s'. mbox_take box s = Some (x, s') \<and> mbox_ok box s' \<and> contents box s' = xs \<and>
      unat (mbmax (mbx box s')) = unat (mbmax (mbx box s))"
    using mbox_take_ok [of box s x xs] by auto
qed

end
