(* ===== verification/Mailbox_Properties.thy ===== *)
theory Mailbox_Properties
  imports Mailbox_Queue Kernel_Properties Memory_Properties
begin

text \<open>
  What senders and receivers of a mailbox see, the initial state of a new mailbox, and the
  missing check of its size.
\<close>

section \<open>The invariant of an allocated mailbox\<close>

text \<open>
  The free places promised by the semaphore \<open>sender\<close> exist, and so do the messages promised
  by \<open>receiver\<close>.
\<close>

abbreviation semcnt :: "kstate \<Rightarrow> u32 \<Rightarrow> int" where
  "semcnt s sm \<equiv> count (at (semtab s) (uidx sm))"

definition mbox_inv :: "u32 \<Rightarrow> kstate \<Rightarrow> bool" where
  "mbox_inv box s \<longleftrightarrow> mbox_ok box s \<and> (let m = mbx box s in
     mbstate m = MAILBOX_ALLOC \<and> sender m \<noteq> receiver m \<and> \<not> isbadsem s (sender m) \<and> \<not> isbadsem s (receiver m) \<and>
     max 0 (semcnt s (sender m)) + int (unat (mbcount m)) \<le> int (unat (mbmax m)) \<and>
     semcnt s (receiver m) \<le> int (unat (mbcount m)))"

lemma mbox_invD:
  assumes "mbox_inv box s"
  shows "mbox_ok box s" "mbstate (mbx box s) = MAILBOX_ALLOC" "inarr (mboxtab s) (uidx box)" "\<not> bad_box box s"
    "sender (mbx box s) \<noteq> receiver (mbx box s)" "\<not> isbadsem s (sender (mbx box s))" "\<not> isbadsem s (receiver (mbx box s))"
    "max 0 (semcnt s (sender (mbx box s))) + int (unat (mbcount (mbx box s))) \<le> int (unat (mbmax (mbx box s)))"
    "semcnt s (receiver (mbx box s)) \<le> int (unat (mbcount (mbx box s)))"
  using assms by (simp_all add: mbox_inv_def Let_def mbox_ok_def bad_box_def inarr_def)

lemma kinv_mbox [simp]: "kinv (s\<lparr>mem := m, mboxtab := mt\<rparr>) = kinv s" "kinv (s\<lparr>mboxtab := mt\<rparr>) = kinv s" "kinv (s\<lparr>mem := m\<rparr>) = kinv s"
  using same_core_inv(6) [of s "s\<lparr>mem := m, mboxtab := mt\<rparr>"] same_core_inv(6) [of s "s\<lparr>mboxtab := mt\<rparr>"]
    same_core_inv(6) [of s "s\<lparr>mem := m\<rparr>"] by (simp_all add: same_core_def)

text \<open>Taking one unit of a semaphore that has one.\<close>

definition sem_dec :: "u32 \<Rightarrow> kstate \<Rightarrow> kstate" where
  "sem_dec sm s = s\<lparr>irq := False, semtab := upd (semtab s) (uidx sm) (count_update (\<lambda>c. c - 1))\<rparr>"

lemma wait_dec:
  assumes "kinv s" "\<not> isbadsem s sm" "0 < semcnt s sm"
  shows "wait sm (s\<lparr>irq := False\<rparr>) = Done OK (sem_dec sm s)" "kinv (sem_dec sm s)"
  using wait_pass [of "s\<lparr>irq := False\<rparr>" sm] assms by (simp_all add: sem_dec_def)

lemma sem_dec_simps [simp]:
  "mboxtab (sem_dec sm s) = mboxtab s" "irq (sem_dec sm s) = False" "mem (sem_dec sm s) = mem s"
  "mbox_ok box (sem_dec sm s) = mbox_ok box s" "contents box (sem_dec sm s) = contents box s"
  by (simp_all add: sem_dec_def mbox_ok_def contents_def)

lemma isbadsem_dec: "\<not> isbadsem s sm \<Longrightarrow> \<not> isbadsem s sm' \<Longrightarrow> \<not> isbadsem (sem_dec sm s) sm'"
  by (simp add: sem_dec_def goodsem at_upd)

lemma semcnt_dec:
  assumes "\<not> isbadsem s sm" "\<not> isbadsem s sm'"
  shows "semcnt (sem_dec sm s) sm' = (if sm' = sm then semcnt s sm - 1 else semcnt s sm')"
  using assms by (simp add: sem_dec_def goodsem at_upd)

section \<open>Sending and receiving\<close>

text \<open>
  C19. \<open>mailboxSend\<close> on a mailbox with room appends the message behind those already in it,
  keeps the invariant of the mailbox and of the kernel, and then signals the receivers, whoever
  waits among them; the call itself does not block before that.
\<close>

theorem mailbox_send:
  assumes "kinv s" "mbox_inv box s" "0 < semcnt s (sender (mbx box s))" "is_msg v"
  shows "\<exists>s1. mailboxSend box v s = obind (signal (receiver (mbx box s)) s1) (\<lambda>_ s'. Done OK (restore (irq s) s')) \<and>
    kinv s1 \<and> mbox_inv box s1 \<and> contents box s1 = contents box s @ [v] \<and>
    semcnt s1 (sender (mbx box s)) = semcnt s (sender (mbx box s)) - 1"
proof -
  note D = mbox_invD [OF assms(2)]
  let ?m = "mbx box s" and ?s = "sem_dec (sender (mbx box s)) s"
  have lt: "unat (mbcount ?m) < unat (mbmax ?m)" using D(8) assms(3) by linarith
  note w = wait_dec [OF assms(1) D(6) assms(3)]
  obtain s1 M where s1: "mbox_put box v ?s = Some s1" "mbox_ok box s1" "contents box s1 = contents box s @ [v]"
      "s1 = ?s\<lparr>mem := M, mboxtab := upd (mboxtab s) (uidx box) (mbcount_update (\<lambda>c. c + 1))\<rparr>"
    using mbox_put_ok [OF _ assms(4), of box ?s] D(1) lt by auto
  have e: "mbx box s1 = ?m\<lparr>mbcount := mbcount ?m + 1\<rparr>" "semtab s1 = semtab ?s" "kinv s1" using s1(4) D(3) w(2) by simp_all
  have cnt: "unat (mbcount ?m + 1) = unat (mbcount ?m) + 1" using lt mbox_bound [OF D(1)] by (simp add: unat_add32)
  have bad: "isbadsem s1 x = isbadsem ?s x" for x using e(2) by (simp add: isbadsem_def)
  have "mbox_inv box s1" unfolding mbox_inv_def Let_def e(1,2) bad
    using D s1(2) cnt isbadsem_dec [OF D(6) D(6)] isbadsem_dec [OF D(6) D(7)] semcnt_dec [OF D(6) D(6)] semcnt_dec [OF D(6) D(7)] assms(3)
    by (simp del: uint_nat of_nat_unat)
  moreover have "mailboxSend box v s = obind (signal (receiver ?m) s1) (\<lambda>_ s'. Done OK (restore (irq s) s'))"
    using D w(1) s1(1) by (simp add: mailboxSend_def disable_def obind_assoc)
  ultimately show ?thesis using s1(3) e(2,3) semcnt_dec [OF D(6) D(6)] by auto
qed

text \<open>The mailbox of the witnesses: three places, one message, stored in the last place.\<close>

definition post :: "u32 \<Rightarrow> u32 \<Rightarrow> kstate" where
  "post sn rc = demo\<lparr>mboxtab := [\<lparr>sender = sn, receiver = rc, mbmax = 3, mbcount = 1, mbstart = 2,
     mbstate = MAILBOX_ALLOC, msgs = 8200\<rparr>], mem := (mem demo)(8208 := 42)\<rparr>"

lemma post_kinv: "kinv (post sn rc)"
  using demo_kinv by (simp add: post_def)

lemma post_ok: "mbox_ok 0 (post sn rc)"
  by (simp add: mbox_ok_def Let_def post_def demo_defs uidx_def inarr_def)

lemma post_inv: "mbox_inv 0 (post 1 0)" "mbox_inv 0 (post 0 1)"
  using post_ok by (simp_all add: mbox_inv_def Let_def isbadsem_def post_def demo_defs uidx_def)

lemma post_contents: "contents 0 (post sn rc) = [42]"
  by (simp add: contents_def Let_def post_def demo_defs uidx_def cell_def)

theorem mailbox_send_witness:
  "\<exists>s1. mailboxSend 0 7 (post 1 0) = obind (signal 0 s1) (\<lambda>_ s'. Done OK (restore True s')) \<and>
    kinv s1 \<and> contents 0 s1 = [42, 7]"
proof -
  have "0 < semcnt (post 1 0) (sender (mbx 0 (post 1 0)))" "is_msg 7"
    "receiver (mbx 0 (post 1 0)) = 0" "irq (post 1 0)"
    by (simp_all add: post_def demo_defs uidx_def is_msg_def c_consts)
  with mailbox_send [OF post_kinv post_inv(1), of 7] post_contents show ?thesis by auto
qed

text \<open>
  C20. \<open>mailboxReceive\<close> on a mailbox with a message returns the oldest one, removes exactly it,
  keeps the invariants, and then signals the senders.
\<close>

theorem mailbox_receive:
  assumes "kinv s" "mbox_inv box s" "0 < semcnt s (receiver (mbx box s))"
  shows "\<exists>s1 v vs. contents box s = v # vs \<and>
    mailboxReceive box s = obind (signal (sender (mbx box s)) s1) (\<lambda>_ s'. Done v (restore (irq s) s')) \<and>
    kinv s1 \<and> mbox_inv box s1 \<and> contents box s1 = vs"
proof -
  note D = mbox_invD [OF assms(2)]
  let ?m = "mbx box s" and ?s = "sem_dec (receiver (mbx box s)) s"
  have pos: "0 < unat (mbcount ?m)" using D(9) assms(3) by linarith
  note w = wait_dec [OF assms(1) D(7) assms(3)]
  obtain v vs where c: "contents box s = v # vs" using pos length_contents [of box s] by (cases "contents box s") auto
  obtain s1 where s1: "mbox_take box ?s = Some (v, s1)" "mbox_ok box s1" "contents box s1 = vs"
      "s1 = ?s\<lparr>mboxtab := upd (mboxtab s) (uidx box) (\<lambda>m. m\<lparr>mbstart := (mbstart m + 1) mod mbmax m, mbcount := mbcount m - 1\<rparr>)\<rparr>"
    using mbox_take_ok [of box ?s v vs] D(1) c by auto
  have e: "mbx box s1 = ?m\<lparr>mbstart := (mbstart ?m + 1) mod mbmax ?m, mbcount := mbcount ?m - 1\<rparr>" "semtab s1 = semtab ?s" "kinv s1"
    using s1(4) D(3) w(2) by simp_all
  have cnt: "unat (mbcount ?m - 1) = unat (mbcount ?m) - 1" using pos by (simp add: unat_sub32)
  have bad: "isbadsem s1 x = isbadsem ?s x" for x using e(2) by (simp add: isbadsem_def)
  have "mbox_inv box s1" unfolding mbox_inv_def Let_def e(1,2) bad
    using D s1(2) cnt pos isbadsem_dec [OF D(7) D(6)] isbadsem_dec [OF D(7) D(7)] semcnt_dec [OF D(7) D(6)] semcnt_dec [OF D(7) D(7)] assms(3)
    by (simp del: uint_nat of_nat_unat add: of_nat_diff)
  moreover have "mailboxReceive box s = obind (signal (sender ?m) s1) (\<lambda>_ s'. Done v (restore (irq s) s'))"
    using D w(1) s1(1) by (simp add: mailboxReceive_def disable_def obind_assoc)
  ultimately show ?thesis using c s1(3) e(3) by auto
qed

theorem mailbox_receive_witness:
  "\<exists>s1. mailboxReceive 0 (post 0 1) = obind (signal 0 s1) (\<lambda>_ s'. Done 42 (restore True s')) \<and>
    kinv s1 \<and> contents 0 s1 = []"
proof -
  have "0 < semcnt (post 0 1) (receiver (mbx 0 (post 0 1)))" "sender (mbx 0 (post 0 1)) = 0" "irq (post 0 1)"
    by (simp_all add: post_def demo_defs uidx_def)
  with mailbox_receive [OF post_kinv post_inv(2)] post_contents show ?thesis by auto
qed

text \<open>
  C21. The ring buffer of a mailbox is a bounded first-in first-out queue, also when its indices
  wrap around: messages put in one after the other, as far as they fit, come out in that order,
  behind the messages that were already there.
\<close>

theorem mailbox_fifo:
  assumes "mbox_ok box s" "\<forall>v \<in> set vs. is_msg v" "length (contents box s) + length vs \<le> unat (mbmax (mbx box s))"
  shows "\<exists>s1 s2. put_all (mbox_put box) vs s = Some s1 \<and>
    take_n (mbox_take box) (length (contents box s) + length vs) s1 = Some (contents box s @ vs, s2) \<and>
    mbox_ok box s2 \<and> contents box s2 = []"
  by (rule ring.fifo [OF assms])

theorem mailbox_fifo_witness:
  "\<exists>s1 s2. put_all (mbox_put 0) [7, 8] (post 0 1) = Some s1 \<and>
    take_n (mbox_take 0) 3 s1 = Some ([42, 7, 8], s2) \<and> contents 0 s2 = []"
proof -
  have "\<forall>v \<in> set [7, 8]. is_msg v" "length (contents 0 (post 0 1)) + length [7, 8 :: int] \<le> unat (mbmax (mbx 0 (post 0 1)))"
    unfolding post_contents by (simp_all add: post_def demo_defs uidx_def is_msg_def c_consts)
  from mailbox_fifo [OF post_ok this] show ?thesis unfolding post_contents by (simp add: eval_nat_numeral) blast
qed

section \<open>Allocation\<close>

lemma heap_free_frame [simp]:
  "heap_free (s\<lparr>semtab := sts\<rparr>) F = heap_free s F" "heap_free (s\<lparr>mboxtab := mt\<rparr>) F = heap_free s F"
  "heap_free (s\<lparr>nextsem := n\<rparr>) F = heap_free s F" "heap_free (s\<lparr>nextsem := n, semtab := sts\<rparr>) F = heap_free s F"
  by (simp_all add: heap_free_def minv_def)

lemma kinv_only_heap: "only_heap s s' \<Longrightarrow> kinv s \<Longrightarrow> kinv s'"
  using same_core_inv(6) [of s s'] by (auto simp: only_heap_def same_core_def)

text \<open>Creating one more semaphore with a given initial count.\<close>

lemma semcreate_other:
  assumes "kinv s" "0 \<le> cnt" "cnt \<le> INT_MAX" "inarr (semtab s) j" "sstate (at (semtab s) j) = SFREE"
  obtains i where "inarr (semtab s) i" "sstate (at (semtab s) i) = SFREE" "uidx (word_of_int i) = i" "USYSERR \<noteq> word_of_int i"
    "semcreate cnt s = Some (word_of_int i, s\<lparr>nextsem := i, semtab := upd (semtab s) i (\<lambda>e. e\<lparr>sstate := SUSED, count := cnt\<rparr>)\<rparr>)"
    "kinv (s\<lparr>nextsem := i, semtab := upd (semtab s) i (\<lambda>e. e\<lparr>sstate := SUSED, count := cnt\<rparr>)\<rparr>)"
proof -
  obtain i where i: "inarr (semtab s) i" "sstate (at (semtab s) i) = SFREE"
    "semcreate cnt s = Some (word_of_int i, s\<lparr>nextsem := i, semtab := upd (semtab s) i (\<lambda>e. e\<lparr>sstate := SUSED, count := cnt\<rparr>)\<rparr>)"
    "kinv (s\<lparr>nextsem := i, semtab := upd (semtab s) i (\<lambda>e. e\<lparr>sstate := SUSED, count := cnt\<rparr>)\<rparr>)"
    using semcreate_ok [OF assms] by blast
  have "NSEM s \<le> INT_MAX" using assms(1) by (elim kinvE) (rule sched_okD(16))
  then have "0 \<le> i" "i \<le> INT_MAX" using i(1) by (auto simp: inarr_def)
  then show ?thesis using that i uidx_of_int USYSERR_neq by blast
qed

lemma small_size:
  assumes "cnt \<noteq> 0" "unat (cnt :: u32) < 536870912"
  shows "fair (4 * cnt)" "unat (4 * cnt) = 4 * unat cnt" "sint cnt = int (unat cnt)" "4 * unat cnt \<le> unat (roundmb (4 * cnt))"
proof -
  show u: "unat (4 * cnt) = 4 * unat cnt" using assms(2) by (simp add: unat_word_ariths)
  have "0 < unat cnt" using assms(1) by (simp add: unat_gt_0)
  then show "fair (4 * cnt)" using u assms(2) by (auto simp: fair_def unat_eq_0 [symmetric])
  show "sint cnt = int (unat cnt)" using assms(2) by (intro sint_small) simp
  show "4 * unat cnt \<le> unat (roundmb (4 * cnt))" using unat_roundmb [of "4 * cnt"] u assms(2) by simp
qed

lemma INT_MAX_nonneg: "0 \<le> INT_MAX"
  by (simp add: c_consts)

lemma semalloc_loop_mboxtab:
  "semalloc_loop n (s\<lparr>mboxtab := mt\<rparr>) = map_option (\<lambda>(v, s). (v, s\<lparr>mboxtab := mt\<rparr>)) (semalloc_loop n s)"
proof (induction n arbitrary: s)
  case (Suc n)
  have swap: "s\<lparr>mboxtab := mt, nextsem := n\<rparr> = s\<lparr>nextsem := n, mboxtab := mt\<rparr>" for n by simp
  show ?case using Suc [of "s\<lparr>nextsem := (nextsem s + 1) mod NSEM s\<rparr>"]
    by (auto simp: Let_def swap split: Option.bind_split)
qed simp

lemma semcreate_mboxtab:
  assumes "semcreate c s = Some (v, s')"
  shows "semcreate c (s\<lparr>mboxtab := mt\<rparr>) = Some (v, s'\<lparr>mboxtab := mt\<rparr>)"
proof -
  have swap: "x\<lparr>mboxtab := mt, irq := i\<rparr> = x\<lparr>irq := i, mboxtab := mt\<rparr>"
    "x\<lparr>mboxtab := mt, semtab := u\<rparr> = x\<lparr>semtab := u, mboxtab := mt\<rparr>" for x :: kstate and i u by simp_all
  note frame = semalloc_loop_mboxtab [where n = "length (semtab s)" and s = "s\<lparr>irq := False\<rparr>" and mt = mt]
  show ?thesis
  proof (cases "semalloc_loop (length (semtab s)) (s\<lparr>irq := False\<rparr>)")
    case (Some r)
    then show ?thesis using assms frame
      by (cases r) (auto simp: semcreate_def semalloc_def disable_def restore_def bind_Some_iff swap split: if_splits)
  qed (use assms in \<open>auto simp: semcreate_def semalloc_def disable_def restore_def swap frame split: if_splits\<close>)
qed

text \<open>The two semaphores of a new mailbox.\<close>

lemma two_semaphores:
  assumes inv: "kinv s" and j: "inarr (semtab s) j" "inarr (semtab s) j'" "j \<noteq> j'" "sstate (at (semtab s) j) = SFREE" "sstate (at (semtab s) j') = SFREE"
    and c: "0 \<le> c" "c \<le> INT_MAX"
  obtains i i' s1 s2 where "semcreate c s = Some (i, s1)" "semcreate 0 s1 = Some (i', s2)" "i \<noteq> USYSERR" "i' \<noteq> USYSERR" "i \<noteq> i'"
    "kinv s2" "\<not> isbadsem s2 i" "\<not> isbadsem s2 i'" "semcnt s2 i = c" "semcnt s2 i' = 0"
    "\<exists>n1 st1. s1 = s\<lparr>nextsem := n1, semtab := st1\<rparr>" "\<exists>n2 st2. s2 = s\<lparr>nextsem := n2, semtab := st2\<rparr>"
proof -
  let ?new = "\<lambda>c e. e\<lparr>sstate := SUSED, count := c\<rparr>"
  obtain i where i: "inarr (semtab s) i" "sstate (at (semtab s) i) = SFREE" "uidx (word_of_int i) = i" "USYSERR \<noteq> word_of_int i"
      "semcreate c s = Some (word_of_int i, s\<lparr>nextsem := i, semtab := upd (semtab s) i (?new c)\<rparr>)"
      "kinv (s\<lparr>nextsem := i, semtab := upd (semtab s) i (?new c)\<rparr>)"
    using semcreate_other [OF inv c j(1,4)] by blast
  let ?s1 = "s\<lparr>nextsem := i, semtab := upd (semtab s) i (?new c)\<rparr>"
  define k where "k = (if i = j then j' else j)"
  have k: "inarr (semtab ?s1) k" "sstate (at (semtab ?s1) k) = SFREE" using i(1) j by (auto simp: k_def at_upd)
  obtain i' where i': "inarr (semtab ?s1) i'" "sstate (at (semtab ?s1) i') = SFREE" "uidx (word_of_int i') = i'" "USYSERR \<noteq> word_of_int i'"
      "semcreate 0 ?s1 = Some (word_of_int i', ?s1\<lparr>nextsem := i', semtab := upd (semtab ?s1) i' (?new 0)\<rparr>)"
      "kinv (?s1\<lparr>nextsem := i', semtab := upd (semtab ?s1) i' (?new 0)\<rparr>)"
    using semcreate_other [OF i(6) order_refl INT_MAX_nonneg k] by blast
  have ne: "i \<noteq> i'" using i'(1,2) i(1) by auto
  show ?thesis
  proof (rule that [OF i(5) i'(5)])
    show "(word_of_int i :: u32) \<noteq> word_of_int i'" using ne i(3) i'(3) by metis
  qed (use i i' ne in \<open>auto simp: goodsem at_upd\<close>)
qed

text \<open>
  C22. Setting up a free mailbox slot for up to \<open>cnt\<close> messages either finds no memory, returns
  \<open>SYSERR\<close> and leaves the slot free, or returns the slot: an empty mailbox with its invariant, a
  message array that was free heap memory and is not any more, and two new semaphores that
  count \<open>cnt\<close> free places and no message.
\<close>

theorem mailbox_alloc:
  assumes inv: "kinv s" "heap_free s F" and b: "inarr (mboxtab s) (uidx box)"
    and c: "cnt \<noteq> 0" "unat cnt < 536870912"
    and j: "inarr (semtab s) j" "inarr (semtab s) j'" "j \<noteq> j'" "sstate (at (semtab s) j) = SFREE" "sstate (at (semtab s) j') = SFREE"
  shows "\<exists>r s'. mailboxAlloc_setup cnt box s = Some (r, s') \<and> kinv s' \<and>
    (if memget (4 * cnt) s = Some (USYSERR, s) then r = SYSERR \<and> mbstate (mbx box s') = mbstate (mbx box s)
     else r = sint box \<and> mbox_inv box s' \<and> contents box s' = [] \<and> semcnt s' (sender (mbx box s')) = int (unat cnt) \<and>
       semcnt s' (receiver (mbx box s')) = 0 \<and> blk_bytes (msgs (mbx box s')) (roundmb (4 * cnt)) \<subseteq> F \<and>
       heap_free s' (F - blk_bytes (msgs (mbx box s')) (roundmb (4 * cnt))))"
proof (cases "memget (4 * cnt) s = Some (USYSERR, s)")
  case True
  then show ?thesis using inv(1) b by (simp add: mailboxAlloc_setup_def)
next
  case False
  note sz = small_size [OF c]
  obtain p s1 where p: "memget (4 * cnt) s = Some (p, s1)" "p \<noteq> USYSERR" "in_heap s p (roundmb (4 * cnt))"
      "blk_bytes p (roundmb (4 * cnt)) \<subseteq> F" "heap_free s1 (F - blk_bytes p (roundmb (4 * cnt)))" "only_heap s s1"
    using memget_alloc [OF inv(2) sz(1)] False by auto
  have e1: "mboxtab s1 = mboxtab s" "semtab s1 = semtab s" "memheap s1 = memheap s" "maxaddr s1 = maxaddr s"
    using p(6) by (auto simp: only_heap_def)
  let ?m = "\<lambda>m. m\<lparr>msgs := p, mbcount := 0, mbstart := 0, mbmax := cnt\<rparr>"
  let ?s1 = "s1\<lparr>mboxtab := upd (mboxtab s) (uidx box) ?m\<rparr>"
  have "kinv ?s1" using kinv_only_heap [OF p(6) inv(1)] by simp
  moreover have "int (unat cnt) \<le> INT_MAX" using c(2) by (simp add: c_consts del: of_nat_unat)
  moreover have "inarr (semtab ?s1) j" "inarr (semtab ?s1) j'" "sstate (at (semtab ?s1) j) = SFREE" "sstate (at (semtab ?s1) j') = SFREE"
    using j e1 by simp_all
  ultimately obtain i i' s2 s3 where sm: "semcreate (int (unat cnt)) ?s1 = Some (i, s2)" "semcreate 0 s2 = Some (i', s3)"
      "i \<noteq> USYSERR" "i' \<noteq> USYSERR" "i \<noteq> i'" "kinv s3" "\<not> isbadsem s3 i" "\<not> isbadsem s3 i'" "semcnt s3 i = int (unat cnt)" "semcnt s3 i' = 0"
      "\<exists>n1 st1. s2 = ?s1\<lparr>nextsem := n1, semtab := st1\<rparr>" "\<exists>n2 st2. s3 = ?s1\<lparr>nextsem := n2, semtab := st2\<rparr>"
    using two_semaphores [of ?s1 j j' "int (unat cnt)"] j(3) of_nat_0_le_iff by metis
  obtain n1 st1 n2 st2 where s23: "s2 = ?s1\<lparr>nextsem := n1, semtab := st1\<rparr>" "s3 = ?s1\<lparr>nextsem := n2, semtab := st2\<rparr>"
    using sm(11,12) by blast
  define m' where "m' = (\<lambda>m :: mbox. (?m m)\<lparr>sender := i, receiver := i', mbstate := MAILBOX_ALLOC\<rparr>)"
  define s' where "s' = s3\<lparr>mboxtab := upd (mboxtab s) (uidx box) m'\<rparr>"
  have "mailboxAlloc_setup cnt box s = Some (sint box, s')"
    using p(1,2) b e1(1) sz(3) sm(1,3,4) semcreate_mboxtab [OF sm(2)] s23
    by (simp add: mailboxAlloc_setup_def s'_def m'_def comp_def)
  moreover have mbx': "mbx box s' = m' (mbx box s)" using b by (simp add: s'_def)
  have "mbox_ok box s'"
    using p(3) sz(4) c(1) b e1 s23 by (auto simp: mbox_ok_def Let_def mbx' in_heap_def s'_def m'_def unat_gt_0)
  then have "mbox_inv box s'"
    using sm(5,7-10) b by (simp add: mbox_inv_def Let_def mbx' m'_def s'_def isbadsem_def del: of_nat_unat)
  moreover have "contents box s' = []" by (simp add: contents_def Let_def mbx' m'_def)
  moreover have "kinv s'" "semtab s' = semtab s3" using sm(6) by (simp_all add: s'_def)
  moreover have "heap_free s' X = heap_free s1 X" for X by (simp add: s'_def s23(2) heap_free_def minv_def)
  ultimately show ?thesis using False p(4,5) sm(9,10) by (simp add: mbx' m'_def del: of_nat_unat)
qed

text \<open>A state with a free mailbox slot and two free semaphores; semaphore 0 guards the table.\<close>

definition roomy :: kstate where
  "roomy = demo\<lparr>quetab := demo_quetab[2 := qe 20 EMPTY EMPTY, 8 := qe MAXKEY 9 EMPTY, 9 := qe MINKEY EMPTY 8]
       @ [qe MAXKEY 13 EMPTY, qe MINKEY EMPTY 12],
     thrtab := [demo_thr THRREADY 0, demo_thr THRCURR 20, demo_thr THRSUSP 20, demo_thr THRSLEEP 20],
     semtab := [\<lparr>sstate = SUSED, count = 1, squeue = 8\<rparr>, \<lparr>sstate = SFREE, count = 0, squeue = 10\<rparr>,
       \<lparr>sstate = SFREE, count = 0, squeue = 12\<rparr>], mboxtabsem := 0\<rparr>"

definition roomy_qs :: "int \<Rightarrow> int list" where
  "roomy_qs = (\<lambda>_. [])(4 := [0], 6 := [3])"

lemmas roomy_defs = roomy_def roomy_qs_def demo_defs

lemma roomy_kinv: "kinv roomy"
proof -
  have qsys: "qsys (quetab roomy) (NTHREAD roomy) (kqueues roomy) roomy_qs"
    by (auto simp: roomy_defs qsys_def qrep_def kqueues_def)
  have threads: "inarr (thrtab roomy) t \<longleftrightarrow> t \<in> {0, 1, 2, 3}" for t by (auto simp: roomy_defs inarr_def)
  have "thr_ok {} roomy roomy_qs t" if "t \<in> {0, 1, 2, 3}" for t
    using that by (auto simp: roomy_defs thr_ok_def qat_def loc_def kqueues_def c_consts uidx_def inarr_def)
  then have "sched_ok {} roomy roomy_qs"
    using qsys by (simp add: sched_ok_def threads) (simp add: roomy_defs c_consts)
  moreover have "sem_ok roomy roomy_qs" "sleep_ok roomy roomy_qs"
    by (simp_all add: sem_ok_def sleep_ok_def delays_def roomy_defs c_consts)
  ultimately have "kinv_qs roomy roomy_qs" by (simp add: kinv_qs_def)
  then show ?thesis by (rule kinvI) (simp add: running_def roomy_defs)
qed

lemma roomy_heap: "heap_free roomy (free_bytes [(8192, 8192)])"
  using demo_minv by (auto simp: heap_free_def minv_def roomy_def intro!: exI [of _ "[(8192, 8192)]"])

lemma memget_roomy: "map_option fst (memget 12 roomy) = Some 8192"
  by code_simp

theorem mailbox_alloc_witness:
  "\<exists>s'. mailboxAlloc_setup 3 0 roomy = Some (0, s') \<and> kinv s' \<and> mbox_inv 0 s' \<and> contents 0 s' = []"
proof -
  have "inarr (mboxtab roomy) (uidx 0)" "(3 :: u32) \<noteq> 0" "unat (3 :: u32) < 536870912"
    "inarr (semtab roomy) 1" "inarr (semtab roomy) 2" "(1 :: int) \<noteq> 2"
    "sstate (at (semtab roomy) 1) = SFREE" "sstate (at (semtab roomy) 2) = SFREE"
    by (simp_all add: roomy_defs uidx_def inarr_def)
  moreover have "memget (4 * 3) roomy \<noteq> Some (USYSERR, roomy)" using memget_roomy by (auto simp: c_consts)
  ultimately show ?thesis using mailbox_alloc [OF roomy_kinv roomy_heap, of 0 3 1 2] by auto
qed

text \<open>
  \<open>mailboxAlloc\<close> does not check that the size of its message array fits a word: a request
  for 1073741825 messages gets an array of 8 bytes, and the mailbox, whose semaphore
  counts 1073741825 free places, accepts the third message and writes it behind the array.
\<close>

theorem mailbox_alloc_wraps:
  "case mailboxAlloc 1073741825 roomy of Done r s1 \<Rightarrow>
     (case put_all (mbox_put 0) [1, 2, 3] s1 of Some s2 \<Rightarrow>
        r = 0 \<and> mbmax (mbx 0 s1) = 1073741825 \<and> semcnt s1 (sender (mbx 0 s1)) = 1073741825 \<and>
        memlist_length s1 = memlist_length roomy - 8 \<and> mem s2 (msgs (mbx 0 s1) + 8) = 3
      | None \<Rightarrow> False)
   | _ \<Rightarrow> False"
  by code_simp

end
