(* ===== verification/Thread_Lifecycle.thy ===== *)
theory Thread_Lifecycle
  imports Messages Semaphores Memory
begin

text \<open>
  Creation and termination of threads: \<open>create.c\<close>, \<open>kill.c\<close>, \<open>userret.c\<close> and the
  initial stack of a thread, \<open>setupStack.c\<close> of the MIPS platforms. The user heap, with which
  \<open>kill\<close> would also reclaim memory regions, is a configuration option and off.
\<close>

section \<open>The initial stack\<close>

definition CONTEXT_WORDS :: nat where "CONTEXT_WORDS = 16"

text \<open>Consecutive words are written, \<open>saddr[i] = ws[i]\<close>.\<close>

fun st_words :: "u32 \<Rightarrow> u32 list \<Rightarrow> kstate \<Rightarrow> kstate option" where
  "st_words a [] s = Some s"
| "st_words a (w # ws) s = do { s \<leftarrow> st a w s; st_words (a + 4) ws s }"

text \<open>
  The words at \<open>saddr\<close> from low to high addresses: cleared registers, return address, entry
  point, and then the arguments. The source writes the arguments first.
\<close>

definition setupStack :: "u32 \<Rightarrow> u32 \<Rightarrow> u32 \<Rightarrow> u32 list \<Rightarrow> kstate \<Rightarrow> (u32 \<times> kstate) option" where
  "setupStack stackaddr procaddr retaddr args s = do {
     let saddr = stackaddr - 4 * word_of_nat (max (length args) 4);
     let saddr = (if saddr AND 4 \<noteq> 0 then saddr - 4 else saddr);
     s \<leftarrow> st_words saddr args s;
     let saddr = saddr - 4 * word_of_nat CONTEXT_WORDS;
     s \<leftarrow> st_words saddr (replicate (CONTEXT_WORDS - 2) 0) s;
     s \<leftarrow> st (saddr + 4 * word_of_nat (CONTEXT_WORDS - 2)) retaddr s;
     s \<leftarrow> st (saddr + 4 * word_of_nat (CONTEXT_WORDS - 1)) procaddr s;
     Some (saddr, s) }"

section \<open>Creation\<close>

fun thrnew_loop :: "nat \<Rightarrow> kstate \<Rightarrow> (int \<times> kstate) option" where
  "thrnew_loop 0 s = Some (SYSERR, s)"
| "thrnew_loop (Suc i) s = do {
     s \<leftarrow> Some (s\<lparr>nexttid := (nexttid s + 1) mod NTHREAD s\<rparr>);
     e \<leftarrow> aget (thrtab s) (nexttid s);
     if state e = THRFREE then Some (nexttid s, s) else thrnew_loop i s }"

definition thrnew :: "kstate \<Rightarrow> (int \<times> kstate) option" where
  "thrnew s = thrnew_loop (length (thrtab s)) s"

interpretation thr_scan: slot_scan "\<lambda>s. length (thrtab s)" "\<lambda>s i. state (at (thrtab s) i) = THRFREE"
    nexttid "\<lambda>i s. s\<lparr>nexttid := i\<rparr>" "\<lambda>i s. s" thrnew_loop
  by unfold_locales (auto simp: inarr_def)

text \<open>
  \<open>strlcpy\<close> into a field of \<open>TNMLEN\<close> characters, and the default descriptors. The console's
  device number and the address of \<open>INITRET\<close> come from the configuration and the linker.
\<close>

definition thread_entry :: "int \<Rightarrow> int \<Rightarrow> u32 \<Rightarrow> u32 \<Rightarrow> string \<Rightarrow> int \<Rightarrow> thrent \<Rightarrow> thrent" where
  "thread_entry console priority saddr ssize nm par e =
     e\<lparr>state := THRSUSP, prio := priority, stkbase := saddr, stklen := ssize,
       name := take (TNMLEN - 1) nm, parent := par, hasmsg := False, tmem_next := 0, tmem_length := 0,
       fdesc := (fdesc e)[0 := console, 1 := console, 2 := console]\<rparr>"

definition create :: "int \<Rightarrow> u32 \<Rightarrow> u32 \<Rightarrow> u32 \<Rightarrow> int \<Rightarrow> string \<Rightarrow> u32 list \<Rightarrow> kstate \<Rightarrow> (int \<times> kstate) option" where
  "create console initret procaddr ssize priority nm args s = (let (im, s) = disable s in do {
     let ssize = (if ssize < MINSTK then MINSTK else ssize);
     (saddr, s) \<leftarrow> stkget ssize s;
     if saddr = USYSERR then Some (SYSERR, restore im s)
     else do {
       (tid, s) \<leftarrow> thrnew s;
       if tid = SYSERR
       then do { (_, s) \<leftarrow> stkfree saddr ssize s; Some (SYSERR, restore im s) }
       else do {
         c \<leftarrow> c_int (thrcount s + 1);
         let s = s\<lparr>thrcount := c\<rparr>;
         tt \<leftarrow> aupd (thrtab s) tid (thread_entry console priority saddr ssize nm (gettid s));
         let s = s\<lparr>thrtab := tt\<rparr>;
         (sp, s) \<leftarrow> setupStack saddr procaddr initret args s;
         tt \<leftarrow> aupd (thrtab s) tid (stkptr_update (\<lambda>_. sp));
         Some (tid, restore im (s\<lparr>thrtab := tt\<rparr>)) } } })"

section \<open>Termination\<close>

text \<open>
  The labels of the \<open>switch\<close> in \<open>kill\<close>, each falling through to the next.
\<close>

definition kill_default :: "int \<Rightarrow> kstate \<Rightarrow> kstate option" where
  "kill_default tid s = do {
     tt \<leftarrow> aupd (thrtab s) tid (state_update (\<lambda>_. THRFREE));
     Some (s\<lparr>thrtab := tt\<rparr>) }"

definition kill_ready :: "int \<Rightarrow> kstate \<Rightarrow> kstate option" where
  "kill_ready tid s = do { (_, s) \<leftarrow> getitem tid s; kill_default tid s }"

definition kill_wait :: "int \<Rightarrow> kstate \<Rightarrow> kstate option" where
  "kill_wait tid s = do {
     thrptr \<leftarrow> aget (thrtab s) tid;
     e \<leftarrow> aget (semtab s) (uidx (sem thrptr));
     c \<leftarrow> c_int (count e + 1);
     sts \<leftarrow> aupd (semtab s) (uidx (sem thrptr)) (count_update (\<lambda>_. c));
     kill_ready tid (s\<lparr>semtab := sts\<rparr>) }"

definition kill_state :: "int \<Rightarrow> thrstate \<Rightarrow> kstate \<Rightarrow> unit outcome" where
  "kill_state tid sta s = (case sta of
       THRSLEEP \<Rightarrow> oget (do { (_, s) \<leftarrow> unsleep tid s; kill_default tid s }) (Done ())
     | THRCURR \<Rightarrow> oget (kill_default tid s) (\<lambda>s. obind (resched s) (\<lambda>_ s. oget (kill_wait tid s) (Done ())))
     | THRWAIT \<Rightarrow> oget (kill_wait tid s) (Done ())
     | THRREADY \<Rightarrow> oget (kill_ready tid s) (Done ())
     | _ \<Rightarrow> oget (kill_default tid s) (Done ()))"

definition kill :: "int \<Rightarrow> kstate \<Rightarrow> int outcome" where
  "kill tid s = (let (im, s) = disable s in
     if isbadtid s tid \<or> NULLTHREAD = tid then Done SYSERR (restore im s)
     else oget (c_int (thrcount s - 1)) (\<lambda>c.
       let s = s\<lparr>thrcount := c\<rparr> in
       obind (if c \<le> 1 then xdone s else Done () s) (\<lambda>_ s.
       oget (aget (thrtab s) tid) (\<lambda>thrptr.
       obind (send (parent thrptr) tid s) (\<lambda>_ s.
       oget (aget (thrtab s) tid) (\<lambda>thrptr.
       obind (olift (stkfree (stkbase thrptr) (stklen thrptr) s)) (\<lambda>_ s.
       oget (aget (thrtab s) tid) (\<lambda>thrptr.
       obind (kill_state tid (state thrptr) s) (\<lambda>_ s. Done OK (restore im s)))))))))) "

definition userret :: "kstate \<Rightarrow> int outcome" where
  "userret s = kill (gettid s) s"

end
