(* ===== verification/Lifecycle_Calls.thy ===== *)
theory Lifecycle_Calls
  imports Thread_Lifecycle Memory_Contract Message_Calls
begin

text \<open>
  A created thread is suspended on a stack of its own; the context written there stays inside
  the stack. A killed thread leaves its queue, and its stack and its slot are free again.
\<close>

section \<open>Writing inside an allocated region\<close>

lemma heap_free_outside:
  assumes "heap_free s F" "\<And>x. unat x \<in> F \<Longrightarrow> mem s' x = mem s x"
    and "memlist_next s' = memlist_next s" "memlist_length s' = memlist_length s" "memheap s' = memheap s" "maxaddr s' = maxaddr s"
  shows "heap_free s' F"
proof -
  obtain bs where bs: "minv s bs" "free_bytes bs = F" using assms(1) by (auto simp: heap_free_def)
  have "mem s' x = mem s x" if "x \<in> hdr_words bs" for x using hdr_in_free [OF bs(1) that] bs(2) assms(2) by simp
  then have "minv s' bs" using bs(1) assms(3-6) by (simp add: minv_def mpath_cong [of bs "mem s'" "mem s"])
  then show ?thesis using bs(2) by (auto simp: heap_free_def)
qed

lemma st_words_ok:
  assumes "unat (memheap s) \<le> unat a" "4 dvd unat a" "unat a + 4 * length ws \<le> unat (maxaddr s)"
  shows "\<exists>m. st_words a ws s = Some (s\<lparr>mem := m\<rparr>) \<and>
    (\<forall>x. unat x \<notin> {unat a ..< unat a + 4 * length ws} \<longrightarrow> m x = mem s x)"
  using assms
proof (induction ws arbitrary: a s)
  case Nil
  then show ?case by (intro exI [of _ "mem s"]) simp
next
  case (Cons w ws)
  have hw: "heap_word s a" using Cons.prems by (simp add: heap_word_iff)
  let ?s = "s\<lparr>mem := (mem s)(a := w)\<rparr>"
  show ?case
  proof (cases ws)
    case Nil
    define m where "m = (mem s)(a := w)"
    have "st_words a (w # ws) s = Some (s\<lparr>mem := m\<rparr>)" using hw Nil by (simp add: st_def m_def)
    moreover have "unat x \<notin> {unat a ..< unat a + 4 * length (w # ws)} \<Longrightarrow> m x = mem s x" for x
      using Nil by (auto simp: m_def)
    ultimately show ?thesis by blast
  next
    case (Cons w' ws')
    have "unat a + 4 * length (w # ws) < 4294967296" using Cons.prems(3) unat_lt32 [of "maxaddr s"] by linarith
    then have a4: "unat (a + 4) = unat a + 4" using Cons by (simp add: unat_add32)
    obtain m where m: "st_words (a + 4) ws ?s = Some (?s\<lparr>mem := m\<rparr>)"
        "\<forall>x. unat x \<notin> {unat (a + 4) ..< unat (a + 4) + 4 * length ws} \<longrightarrow> m x = mem ?s x"
      using Cons.IH [of ?s "a + 4"] Cons.prems a4 by auto
    have "m x = mem s x" if "unat x \<notin> {unat a ..< unat a + 4 * length (w # ws)}" for x
      using that m(2) a4 by (cases "x = a") auto
    then show ?thesis using m(1) hw by (intro exI [of _ m]) (simp add: st_def)
  qed
qed

lemma setupStack_ok:
  assumes b: "unat (memheap s) \<le> b" "8 dvd b" "b + R \<le> unat (maxaddr s)" "unat tp = b + R - 4" "8 dvd R"
    and room: "4 * max (length args) 4 + 72 \<le> R"
  shows "\<exists>sp m. setupStack tp proc ret args s = Some (sp, s\<lparr>mem := m\<rparr>) \<and>
    (\<forall>x. unat x \<notin> {b ..< b + R} \<longrightarrow> m x = mem s x)"
proof -
  let ?k = "max (length args) 4"
  define a where "a = (let t = tp - 4 * word_of_nat ?k in if t AND 4 \<noteq> 0 then t - 4 else t)"
  have lt: "R < 4294967296" using b(3) unat_lt32 [of "maxaddr s"] by linarith
  have k: "unat (4 * word_of_nat ?k :: u32) = 4 * ?k" using room lt by (simp add: unat_word_ariths unat_of_nat)
  have u1: "unat (tp - 4 * word_of_nat ?k) = b + R - 4 - 4 * ?k"
    using k b(4) room by (subst unat_sub32) simp_all
  have a: "unat a \<le> b + R - 4 - 4 * ?k" "b + 64 \<le> unat a" "4 dvd unat a"
  proof -
    have "4 dvd b + R - 4 - 4 * ?k" using b(2,5) room by (auto elim!: dvdE)
    then obtain j where j: "b + R - 4 - 4 * ?k = 4 * j" by (elim dvdE)
    then have "unat a = 4 * j \<or> unat a = 4 * (j - 1)"
      using u1 room unat_sub32 [of 4 "tp - 4 * word_of_nat ?k"] by (auto simp: a_def Let_def)
    then show "unat a \<le> b + R - 4 - 4 * ?k" "b + 64 \<le> unat a" "4 dvd unat a"
      using j room by auto
  qed
  define c where "c = a - 4 * word_of_nat CONTEXT_WORDS"
  have c: "unat c = unat a - 64" using a(2) unat_sub32 [of 64 a] by (simp add: c_def CONTEXT_WORDS_def)
  have "unat c + 60 < 4294967296" using c a(1,2) b(3) room unat_lt32 [of "maxaddr s"] by linarith
  then have c_off: "unat (c + 56) = unat c + 56" "unat (c + 60) = unat c + 60"
    by (simp_all add: unat_add32)
  obtain m1 where m1: "st_words a args s = Some (s\<lparr>mem := m1\<rparr>)"
      "\<forall>x. unat x \<notin> {unat a ..< unat a + 4 * length args} \<longrightarrow> m1 x = mem s x"
    using st_words_ok [of s a args] a b by fastforce
  obtain m2 where m2: "st_words c (replicate 14 0) (s\<lparr>mem := m1\<rparr>) = Some (s\<lparr>mem := m2\<rparr>)"
      "\<forall>x. unat x \<notin> {unat c ..< unat c + 56} \<longrightarrow> m2 x = m1 x"
    using st_words_ok [of "s\<lparr>mem := m1\<rparr>" c "replicate 14 0"] a b c by fastforce
  have "unat (memheap s) \<le> unat a - 8" "unat a - 8 < unat (maxaddr s)" "unat (memheap s) \<le> unat a - 4" "unat a - 4 < unat (maxaddr s)"
    using a(1,2) b(1,3) room by linarith+
  moreover have "unat (c + 56) = unat a - 8" "unat (c + 60) = unat a - 4" using c_off c a(2) by simp_all
  ultimately have hw: "heap_word s (c + 56)" "heap_word s (c + 60)" using a(3) by (simp_all add: heap_word_iff dvd_diff_nat)
  let ?m = "m2(c + 56 := ret, c + 60 := proc)"
  have "setupStack tp proc ret args s = Some (c, s\<lparr>mem := ?m\<rparr>)"
    using m1(1) m2(1) hw
    by (simp add: setupStack_def a_def [symmetric, unfolded Let_def] c_def [symmetric] st_def)
      (simp add: CONTEXT_WORDS_def c_def [symmetric, unfolded CONTEXT_WORDS_def, simplified])
  moreover have "?m x = mem s x" if x: "unat x \<notin> {b ..< b + R}" for x
  proof -
    have "unat a + 4 * length args \<le> b + R" "unat a \<le> b + R" using a(1) room by linarith+
    then have "unat x \<notin> {unat a ..< unat a + 4 * length args}" "unat x \<notin> {unat c ..< unat c + 56}"
      using x a(2) c by auto
    then have "m1 x = mem s x" "m2 x = m1 x" using m1(2) m2(2) by blast+
    moreover have "x \<noteq> c + 56" "x \<noteq> c + 60" using x c_off c a(2) \<open>unat a \<le> b + R\<close> by auto
    ultimately show ?thesis by simp
  qed
  ultimately show ?thesis by blast
qed

section \<open>Creation\<close>

text \<open>A free slot of the thread table is filled with a suspended thread.\<close>

lemma kinv_new_thread:
  assumes inv: "kinv s" and t: "inarr (thrtab s) t" "state (thr s t) = THRFREE"
    and f: "state (f (thr s t)) = THRSUSP" "MINKEY < prio (f (thr s t))"
  shows "kinv (thr_upd t f s)"
proof -
  obtain qs where qs: "sched_ok {} s qs" "sem_ok s qs" "sleep_ok s qs" "running s" "inarr (thrtab s) (thrcurrent s)"
    using inv by (elim kinvE)
  note D = sched_okD [OF qs(1)]
  have nn: "t \<noteq> NULLTHREAD" "t \<noteq> thrcurrent s" using D(12) [OF t(1)] t(2) qs(4) by (auto simp: thr_ok_def running_def)
  have "thr_ok {} (thr_upd t f s) qs u" if u: "inarr (thrtab s) u" for u
    using D(12) [OF u] t f nn u by (cases "u = t") (auto simp: thr_ok_def, auto simp: loc_def)
  then have "sched_ok {} (thr_upd t f s) qs" using qs(1) by (simp add: sched_ok_def)
  then have "kinv_qs (thr_upd t f s) qs" using qs(2,3) by (simp add: kinv_qs_def sem_ok_def sleep_ok_def delays_def)
  moreover have "running (thr_upd t f s)" using qs(4,5) t(1) nn by (simp add: running_def)
  ultimately show ?thesis by (rule kinvI)
qed

lemma thrnew_ok:
  assumes "inarr (thrtab s) j" "state (thr s j) = THRFREE"
  shows "\<exists>i. inarr (thrtab s) i \<and> state (thr s i) = THRFREE \<and> thrnew s = Some (i, s\<lparr>nexttid := i\<rparr>)"
  using thr_scan.scan_free [of j s] assms by (auto simp: thrnew_def inarr_def)

lemma kinv_frames [simp]:
  "kinv (s\<lparr>nexttid := i\<rparr>) = kinv s" "kinv (s\<lparr>thrcount := c\<rparr>) = kinv s"
  "kinv (s\<lparr>mem := m\<rparr>) = kinv s"
  using same_core_inv(6) [of s "s\<lparr>nexttid := i\<rparr>"] same_core_inv(6) [of s "s\<lparr>thrcount := c\<rparr>"] same_core_inv(6) [of s "s\<lparr>mem := m\<rparr>"]
  by (simp_all add: same_core_def)

lemma kinv_heap: "only_heap s s' \<Longrightarrow> kinv s' = kinv s"
  using same_core_inv(6) [of s s'] by (auto simp: only_heap_def same_core_def)

text \<open>The address arithmetic of a stack block.\<close>

lemma stack_top:
  assumes "in_heap s (p - R + 4) R" "4 \<le> unat R"
  shows "unat p = unat (p - R + 4) + unat R - 4"
proof -
  have "unat (p - R + 4) + unat R < 4294967296"
    using assms(1) unat_lt32 [of "maxaddr s"] unfolding in_heap_def by linarith
  then have "unat (p - R + 4 + R) = unat (p - R + 4) + unat R" by (rule unat_add32)
  then have u: "unat (p + 4) = unat (p - R + 4) + unat R" by (simp add: algebra_simps)
  then show ?thesis using unat_sub32 [of 4 "p + 4"] assms(2) by simp
qed

lemma stack_size:
  assumes "unat n \<le> 4294967288"
  shows "unat n \<le> unat (roundmb n)" "8 dvd unat (roundmb n)"
  using unat_roundmb [of n] assms roundmb_aligned [of n] by simp_all

text \<open>The stack size that \<open>create\<close> uses.\<close>

definition stack_bytes :: "u32 \<Rightarrow> u32" where
  "stack_bytes ssize = (if ssize < MINSTK then MINSTK else ssize)"

lemma stack_bytes_fair: "unat ssize \<le> 4294967288 \<Longrightarrow> fair (stack_bytes ssize) \<and> 128 \<le> unat (stack_bytes ssize) \<and> unat (stack_bytes ssize) \<le> 4294967288"
  by (auto simp: stack_bytes_def fair_def c_consts word_less_nat_alt)

lemma create_ok:
  assumes inv: "kinv s" "heap_free s F" and j: "inarr (thrtab s) j" "state (thr s j) = THRFREE"
    and pr: "MINKEY < priority" and sz: "unat ssize \<le> 4294967288" "4 * length args + 72 \<le> unat (stack_bytes ssize)"
    and cnt: "thrcount s < INT_MAX" "INT_MIN \<le> thrcount s"
  defines "R \<equiv> roundmb (stack_bytes ssize)"
  shows "\<exists>r s'. create console initret proc ssize priority nm args s = Some (r, s') \<and> kinv s' \<and> irq s' = irq s \<and>
    (if r = SYSERR then stkget (stack_bytes ssize) (s\<lparr>irq := False\<rparr>) = Some (USYSERR, s\<lparr>irq := False\<rparr>) \<and> s' = s
     else inarr (thrtab s) r \<and> state (thr s r) = THRFREE \<and>
       (\<exists>b sp. in_heap s b R \<and> blk_bytes b R \<subseteq> F \<and> heap_free s' (F - blk_bytes b R) \<and>
         (\<forall>x. unat x \<notin> F \<longrightarrow> mem s' x = mem s x) \<and>
         thrtab s' = upd (thrtab s) r (\<lambda>e. (thread_entry console priority (b + R - 4) (stack_bytes ssize) nm (thrcurrent s) e)\<lparr>stkptr := sp\<rparr>)) \<and>
       thrcount s' = thrcount s + 1)"
proof -
  let ?s = "s\<lparr>irq := False\<rparr>" and ?n = "stack_bytes ssize"
  have n: "fair ?n" "128 \<le> unat ?n" "unat ?n \<le> 4294967288" using stack_bytes_fair [OF sz(1)] by auto
  have hf: "heap_free ?s F" using inv(2) by (simp add: heap_free_def minv_def)
  note R = stack_size [OF n(3), folded R_def]
  from stkget_alloc [OF hf n(1), folded R_def] show ?thesis
  proof (elim disjE exE conjE)
    assume "stkget ?n ?s = Some (USYSERR, ?s)"
    then show ?thesis using inv(1)
      by (simp add: create_def disable_def restore_def stack_bytes_def [symmetric])
  next
    fix p s1
    assume p: "stkget ?n ?s = Some (p, s1)" "p \<noteq> USYSERR" "in_heap ?s (p - R + 4) R" "blk_bytes (p - R + 4) R \<subseteq> F"
      "heap_free s1 (F - blk_bytes (p - R + 4) R)" "only_heap ?s s1" "\<forall>x. unat x \<notin> F \<longrightarrow> mem s1 x = mem ?s x"
    let ?b = "p - R + 4"
    have e1: "thrtab s1 = thrtab s" "thrcount s1 = thrcount s" "thrcurrent s1 = thrcurrent s" "memheap s1 = memheap s"
        "maxaddr s1 = maxaddr s" "irq s1 = False" "kinv s1"
      using p(6) kinv_heap [OF p(6)] inv(1) by (auto simp: only_heap_def)
    obtain i where i: "inarr (thrtab s) i" "state (thr s i) = THRFREE" "thrnew s1 = Some (i, s1\<lparr>nexttid := i\<rparr>)"
      using thrnew_ok [of s1 j] j e1(1) by auto
    have ine: "i \<noteq> SYSERR" using i(1) by (auto simp: inarr_def c_consts)
    let ?e = "thread_entry console priority p ?n nm (thrcurrent s)"
    define s2 where "s2 = s1\<lparr>nexttid := i, thrcount := thrcount s + 1, thrtab := upd (thrtab s) i ?e\<rparr>"
    have top: "unat p = unat ?b + unat R - 4" by (rule stack_top [OF p(3)]) (use R n in linarith)
    have room: "4 * max (length args) 4 + 72 \<le> unat R" using R(1) sz(2) n(2) by simp
    obtain sp m where m: "setupStack p proc initret args s2 = Some (sp, s2\<lparr>mem := m\<rparr>)"
        "\<forall>x. unat x \<notin> {unat ?b ..< unat ?b + unat R} \<longrightarrow> m x = mem s2 x"
    proof -
      have "unat (memheap s2) \<le> unat ?b" "8 dvd unat ?b" "unat ?b + unat R \<le> unat (maxaddr s2)"
        using p(3) e1 by (simp_all add: in_heap_def s2_def)
      from setupStack_ok [OF this top R(2) room, of proc initret] that show ?thesis by blast
    qed
    define s' where "s' = s2\<lparr>mem := m, thrtab := upd (thrtab s2) i (stkptr_update (\<lambda>_. sp)), irq := irq s\<rparr>"
    have cr: "create console initret proc ssize priority nm args s = Some (i, s')"
      using p(1,2) i(1,3) ine e1 cnt m(1)
      by (simp add: create_def disable_def restore_def stack_bytes_def [symmetric] gettid_def s2_def s'_def)
    have tt: "thrtab s' = upd (thrtab s) i (\<lambda>e. (?e e)\<lparr>stkptr := sp\<rparr>)" using i(1) by (simp add: s'_def s2_def)
    have "kinv (thr_upd i (\<lambda>e. (?e e)\<lparr>stkptr := sp\<rparr>) s1)"
      by (rule kinv_new_thread [OF e1(7)]) (use i e1(1) pr in \<open>simp_all add: thread_entry_def\<close>)
    then have "kinv s'" using same_core_inv(6) [of "thr_upd i (\<lambda>e. (?e e)\<lparr>stkptr := sp\<rparr>) s1" s'] tt e1(1)
      by (simp add: same_core_def) (simp add: s'_def s2_def)
    moreover have "heap_free s' (F - blk_bytes ?b R)"
      by (rule heap_free_outside [OF p(5)]) (use m(2) in \<open>auto simp: s'_def s2_def blk_bytes_def\<close>)
    moreover have "mem s' x = mem s x" if "unat x \<notin> F" for x
    proof -
      have "unat x \<notin> {unat ?b ..< unat ?b + unat R}" using that p(4) by (auto simp: blk_bytes_def)
      then show ?thesis using m(2) p(7) that by (simp add: s'_def s2_def)
    qed
    ultimately have kv: "kinv s'" and hf': "heap_free s' (F - blk_bytes ?b R)" and ms: "\<forall>x. unat x \<notin> F \<longrightarrow> mem s' x = mem s x" by blast+
    have "in_heap s ?b R" using p(3) by (simp add: in_heap_def)
    then have ex: "\<exists>b sp. in_heap s b R \<and> blk_bytes b R \<subseteq> F \<and> heap_free s' (F - blk_bytes b R) \<and>
         (\<forall>x. unat x \<notin> F \<longrightarrow> mem s' x = mem s x) \<and>
         thrtab s' = upd (thrtab s) i (\<lambda>e. (thread_entry console priority (b + R - 4) ?n nm (thrcurrent s) e)\<lparr>stkptr := sp\<rparr>)"
      using p(4) tt hf' ms by (intro exI [of _ ?b] exI [of _ sp]) simp
    moreover have "irq s' = irq s" "thrcount s' = thrcount s + 1" by (simp_all add: s'_def s2_def)
    ultimately show ?thesis using cr i(1,2) ine kv by (intro exI [of _ i] exI [of _ s']) simp
  qed
qed

section \<open>Termination\<close>

text \<open>What is left of the kernel state once thread \<open>t\<close> is gone.\<close>

definition gone :: "int \<Rightarrow> kstate \<Rightarrow> kstate \<Rightarrow> bool" where
  "gone t s s' \<longleftrightarrow> s'\<lparr>quetab := quetab s, thrtab := thrtab s, semtab := semtab s\<rparr> = s \<and> length (thrtab s') = length (thrtab s) \<and>
     state (thr s' t) = THRFREE \<and> (\<forall>u. inarr (thrtab s) u \<and> u \<noteq> t \<longrightarrow> thr s' u = thr s u)"

lemma kill_default_ok:
  assumes ok: "sched_ok {t} s qs" "qat s qs t None" "t \<noteq> NULLTHREAD" and rest: "sem_ok s qs" "sleep_ok s qs"
  shows "\<exists>s'. kill_default t s = Some s' \<and> kinv_qs s' qs \<and> s' = thr_upd t (state_update (\<lambda>_. THRFREE)) s"
proof -
  have t: "inarr (thrtab s) t" using sched_okD(13) [OF ok(1)] by simp
  have "sched_ok {} (thr_upd t (state_update (\<lambda>_. THRFREE)) s) qs" using sched_free [OF ok] by simp
  then have "kinv_qs (thr_upd t (state_update (\<lambda>_. THRFREE)) s) qs"
    using rest by (simp add: kinv_qs_def sem_ok_def sleep_ok_def delays_def)
  then show ?thesis using t by (simp add: kill_default_def)
qed

lemma gone_upd: "inarr (thrtab s) t \<Longrightarrow> gone t s (thr_upd t (state_update (\<lambda>_. THRFREE)) (s\<lparr>quetab := qt, semtab := sts\<rparr>))"
  by (simp add: gone_def at_upd)

lemma queue_split:
  assumes ok: "sched_ok {} s qs" and t: "inarr (thrtab s) t" "loc s t = Some q" "q \<in> kqueues s"
  obtains xs ys where "qs q = xs @ t # ys"
proof -
  have "qat s qs t (loc s t)" using sched_okD(12) [OF ok t(1)] by (simp add: thr_ok_def)
  then have "t \<in> set (qs q)" using t(2,3) by (simp add: qat_def)
  then show ?thesis using that by (auto simp: in_set_conv_decomp)
qed

lemma kill_ready_ok:
  assumes ok: "sched_ok {} s qs" and t: "inarr (thrtab s) t" "state (thr s t) = THRREADY" "t \<noteq> NULLTHREAD"
    and rest: "sem_ok s qs" "sleep_ok s qs"
  shows "\<exists>s' qs'. kill_ready t s = Some s' \<and> kinv_qs s' qs' \<and> gone t s s'"
proof -
  note D = sched_okD [OF ok]
  obtain xs ys where xs: "qs (readylist s) = xs @ t # ys" using queue_split [OF ok t(1) _ D(2)] t(2) by (auto simp: loc_def)
  obtain qt' where qt': "getitem t s = Some (t, s\<lparr>quetab := qt'\<rparr>)"
      "sched_ok {t} (s\<lparr>quetab := qt'\<rparr>) (qs(readylist s := xs @ ys))" "qat s (qs(readylist s := xs @ ys)) t None" "same_keys (quetab s) qt' {}"
    using sched_getitem [OF ok D(2) xs] by auto
  have "only_ready s qs (s\<lparr>quetab := qt'\<rparr>) (qs(readylist s := xs @ ys))"
    using qt'(4) key_in(1) [OF ok D(3)] by (simp add: only_ready_def same_keys_def)
  then have "sem_ok (s\<lparr>quetab := qt'\<rparr>) (qs(readylist s := xs @ ys))" "sleep_ok (s\<lparr>quetab := qt'\<rparr>) (qs(readylist s := xs @ ys))"
    using only_ready_sem_ok only_ready_sleep_ok ok rest by blast+
  from kill_default_ok [OF qt'(2) _ t(3) this] qt'(1,3) gone_upd [OF t(1), of "semtab s" qt']
  show ?thesis by (auto simp: kill_ready_def)
qed

lemma kill_sleep_ok:
  assumes ok: "sched_ok {} s qs" and t: "inarr (thrtab s) t" "state (thr s t) = THRSLEEP" "t \<noteq> NULLTHREAD"
    and rest: "sem_ok s qs" "sleep_ok s qs"
  shows "\<exists>s' qs'. do { (_, s) \<leftarrow> unsleep t s; kill_default t s } = Some s' \<and> kinv_qs s' qs' \<and> gone t s s'"
proof -
  obtain qt' xs ys where u: "unsleep t s = Some (OK, s\<lparr>quetab := qt'\<rparr>)"
      "sched_ok {t} (s\<lparr>quetab := qt'\<rparr>) (qs(sleepq s := xs @ ys))" "qat s (qs(sleepq s := xs @ ys)) t None"
      "sleep_ok (s\<lparr>quetab := qt'\<rparr>) (qs(sleepq s := xs @ ys))"
    using unsleep_ok [OF ok rest(2) t(1)] t(2) by auto
  have "sem_ok (s\<lparr>quetab := qt'\<rparr>) (qs(sleepq s := xs @ ys))"
    using rest(1) sched_okD(6) [OF ok] by (auto simp: sem_ok_def image_iff)
  from kill_default_ok [OF u(2) _ t(3) this u(4)] u(1,3) gone_upd [OF t(1), of "semtab s" qt']
  show ?thesis by auto
qed

lemma kill_wait_ok:
  assumes ok: "sched_ok {} s qs" and t: "inarr (thrtab s) t" "state (thr s t) = THRWAIT" "t \<noteq> NULLTHREAD"
    and rest: "sem_ok s qs" "sleep_ok s qs"
  shows "\<exists>s' qs'. kill_wait t s = Some s' \<and> kinv_qs s' qs' \<and> gone t s s'"
proof -
  note D = sched_okD [OF ok]
  let ?i = "uidx (sem (thr s t))"
  have i: "inarr (semtab s) ?i" using D(12) [OF t(1)] t(2) by (auto simp: thr_ok_def)
  define q where "q = squeue (at (semtab s) ?i)"
  have q: "q \<in> kqueues s" "q \<noteq> sleepq s" using D(6,14) at_in_set [OF i] by (auto simp: q_def image_iff)
  obtain xs ys where xs: "qs q = xs @ t # ys" using queue_split [OF ok t(1) _ q(1)] t(2) i by (auto simp: loc_def q_def)
  note b = sem_count_bound [OF ok rest(1) i, folded q_def]
  have neg: "count (at (semtab s) ?i) < 0" "sstate (at (semtab s) ?i) = SUSED"
    using b xs rest(1) at_in_set [OF i] by (auto simp: sem_ok_def) (cases "sstate (at (semtab s) ?i)"; force)+
  let ?s = "s\<lparr>semtab := upd (semtab s) ?i (count_update (\<lambda>c. c + 1))\<rparr>"
  have ok1: "sched_ok {} ?s qs" using ok i by (simp add: sched_semtab)
  have q1: "q \<in> kqueues ?s" using q(1) i by (simp add: kqueues_def)
  obtain qt' where qt': "getitem t ?s = Some (t, ?s\<lparr>quetab := qt'\<rparr>)"
      "sched_ok {t} (?s\<lparr>quetab := qt'\<rparr>) (qs(q := xs @ ys))" "qat ?s (qs(q := xs @ ys)) t None" "same_keys (quetab ?s) qt' {}"
    using sched_getitem [OF ok1 q1 xs] by auto
  have "sem_ok ?s (qs(q := xs @ ys))"
    by (rule sem_ok_upd [OF ok rest(1) i]) (use b neg xs in \<open>auto simp: q_def\<close>)
  moreover have "sleep_ok (?s\<lparr>quetab := qt'\<rparr>) (qs(q := xs @ ys))"
    using rest(2) q(2) qt'(4) key_in(1) [OF ok D(3)] by (simp add: sleep_ok_def delays_def same_keys_def cong: map_cong)
  ultimately have "\<exists>s'. kill_default t (?s\<lparr>quetab := qt'\<rparr>) = Some s' \<and> kinv_qs s' (qs(q := xs @ ys)) \<and>
      s' = thr_upd t (state_update (\<lambda>_. THRFREE)) (?s\<lparr>quetab := qt'\<rparr>)"
    using kill_default_ok [OF qt'(2) _ t(3)] qt'(3) by simp
  moreover have "gone t s (thr_upd t (state_update (\<lambda>_. THRFREE)) (?s\<lparr>quetab := qt'\<rparr>))"
    using t(1) by (simp add: gone_def at_upd)
  moreover have "kill_wait t s = kill_default t (?s\<lparr>quetab := qt'\<rparr>)"
    using t(1) i neg b qt'(1) upd_count [of "semtab s" ?i "\<lambda>c. c + 1"] by (simp add: kill_wait_def kill_ready_def c_consts)
  ultimately show ?thesis by metis
qed

text \<open>A thread that is neither running nor waiting with a timeout.\<close>

lemma kill_state_ok:
  assumes inv: "kinv s" and t: "inarr (thrtab s) t" "t \<noteq> NULLTHREAD"
    and st: "state (thr s t) \<notin> {THRFREE, THRCURR, THRTMOUT}"
  shows "\<exists>s'. kill_state t (state (thr s t)) s = Done () s' \<and> kinv s' \<and> gone t s s'"
proof -
  obtain qs where qs: "sched_ok {} s qs" "sem_ok s qs" "sleep_ok s qs" "running s" "inarr (thrtab s) (thrcurrent s)"
    using inv by (elim kinvE)
  have plain: "\<exists>s' qs'. kill_default t s = Some s' \<and> kinv_qs s' qs' \<and> gone t s s'" if "loc s t = None"
  proof -
    have x: "sched_ok {t} s qs" "qat s qs t None"
      using sched_exempt [OF qs(1), of t] st t(1) that by (auto simp: isbadtid_iff)
    from kill_default_ok [OF x t(2) qs(2,3)] t(1) show ?thesis by (auto simp: gone_def at_upd)
  qed
  have "\<exists>s' qs'. kill_state t (state (thr s t)) s = Done () s' \<and> kinv_qs s' qs' \<and> gone t s s'"
  proof -
    consider (THRSLEEP) "state (thr s t) = THRSLEEP" | (THRWAIT) "state (thr s t) = THRWAIT" | (THRREADY) "state (thr s t) = THRREADY"
      | (other) "state (thr s t) \<in> {THRSUSP, THRRECV, THRMIGRATE}"
      using st by (cases "state (thr s t)") simp_all
    then show ?thesis
  proof cases
    case THRSLEEP
    then show ?thesis using kill_sleep_ok [OF qs(1) t(1) THRSLEEP t(2) qs(2,3)] by (auto simp: kill_state_def)
  next
    case THRWAIT
    then show ?thesis using kill_wait_ok [OF qs(1) t(1) THRWAIT t(2) qs(2,3)] by (auto simp: kill_state_def)
  next
    case THRREADY
    then show ?thesis using kill_ready_ok [OF qs(1) t(1) THRREADY t(2) qs(2,3)] by (auto simp: kill_state_def)
  next
    case other
    then have "loc s t = None" "kill_state t (state (thr s t)) s = oget (kill_default t s) (Done ())"
      by (auto simp: loc_def kill_state_def)
    then show ?thesis using plain by auto
  qed
  qed
  then obtain s' qs' where s': "kill_state t (state (thr s t)) s = Done () s'" "kinv_qs s' qs'" "gone t s s'" by blast
  have "t \<noteq> thrcurrent s" using st qs(4) by (auto simp: running_def)
  moreover have "thrcurrent (s'\<lparr>quetab := quetab s, thrtab := thrtab s, semtab := semtab s\<rparr>) = thrcurrent s"
    using s'(3) by (simp only: gone_def)
  ultimately have "running s'" using s'(3) qs(4,5) by (simp add: gone_def running_def)
  then show ?thesis using s' kinvI by blast
qed

text \<open>The parent, if it is there and has no message yet, is told; it is not waiting for that.\<close>

definition tell :: "int \<Rightarrow> kstate \<Rightarrow> kstate" where
  "tell t s = (let p = parent (thr s t) in if isbadtid s p \<or> hasmsg (thr s p) then s else deposit p t s)"

definition parent_busy :: "int \<Rightarrow> kstate \<Rightarrow> bool" where
  "parent_busy t s \<longleftrightarrow> (let p = parent (thr s t) in
     isbadtid s p \<or> hasmsg (thr s p) \<or> state (thr s p) \<notin> {THRRECV, THRTMOUT})"

lemma send_tell:
  assumes "kinv s" "parent_busy t s" "\<not> irq s"
  shows "\<exists>v. send (parent (thr s t)) t s = Done v (tell t s)" "kinv (tell t s)"
proof -
  let ?p = "parent (thr s t)"
  have i: "irq s = False" "s\<lparr>irq := False\<rparr> = s"
  proof -
    show f: "irq s = False" using assms(3) by simp
    have "s\<lparr>irq := irq s\<rparr> = s" by simp
    then show "s\<lparr>irq := False\<rparr> = s" by (simp only: f)
  qed
  have d: "disable s = (False, s)" and r: "restore False s = s"
    unfolding disable_def restore_def i by (rule refl)+
  show "\<exists>v. send ?p t s = Done v (tell t s)"
  proof (cases "isbadtid s ?p \<or> hasmsg (thr s ?p)")
    case True
    then have "tell t s = s" by (simp add: tell_def Let_def)
    moreover have "send ?p t s = Done SYSERR s"
      using True by (cases "isbadtid s ?p") (simp_all add: send_def d r isbadtid_iff)
    ultimately show ?thesis by simp
  next
    case False
    then have "tell t s = deposit ?p t s" by (simp add: tell_def Let_def)
    moreover have "state (thr s ?p) \<noteq> THRRECV" "state (thr s ?p) \<noteq> THRTMOUT" using False assms(2) by (auto simp: parent_busy_def Let_def)
    moreover have "restore False (deposit ?p t s) = deposit ?p t (s\<lparr>irq := False\<rparr>)" by (simp add: restore_def deposit_def)
    then have "restore False (deposit ?p t s) = deposit ?p t s" unfolding i(2) .
    ultimately show ?thesis using send_eq [of s ?p t] False unfolding i by simp
  qed
  show "kinv (tell t s)"
  proof (cases "isbadtid s ?p \<or> hasmsg (thr s ?p)")
    case True
    then show ?thesis using assms(1) by (simp add: tell_def Let_def)
  next
    case False
    then have "tell t s = deposit ?p t s" "inarr (thrtab s) ?p" by (auto simp: tell_def Let_def isbadtid_iff)
    moreover from this have "kinv (deposit ?p t s)" unfolding deposit_def by (intro kinv_note) (use assms(1) in simp_all)
    ultimately show ?thesis by simp
  qed
qed

lemma tell_simps [simp]:
  assumes "inarr (thrtab s) u"
  shows "state (thr (tell t s) u) = state (thr s u)" "stkbase (thr (tell t s) u) = stkbase (thr s u)"
    "stklen (thr (tell t s) u) = stklen (thr s u)" "inarr (thrtab (tell t s)) v = inarr (thrtab s) v"
    "thrcurrent (tell t s) = thrcurrent s" "heap_free (tell t s) F = heap_free s F" "irq (tell t s) = irq s"
    "memheap (tell t s) = memheap s" "maxaddr (tell t s) = maxaddr s"
  using assms by (auto simp: tell_def Let_def deposit_def isbadtid_iff at_upd heap_free_def minv_def)

lemma kill_start:
  assumes inv: "kinv s" "heap_free s F" and t: "\<not> isbadtid s t" "t \<noteq> NULLTHREAD"
    and cnt: "2 < thrcount s" "thrcount s \<le> INT_MAX" and par: "parent_busy t s"
  defines "b \<equiv> stkbase (thr s t) - roundmb (stklen (thr s t)) + 4" and "R \<equiv> roundmb (stklen (thr s t))"
  assumes stk: "fair (stklen (thr s t))" "in_heap s b R" "blk_bytes b R \<inter> F = {}"
  shows "\<exists>s2. kill t s = obind (kill_state t (state (thr s t)) s2) (\<lambda>_ s'. Done OK (restore (irq s) s')) \<and> kinv s2 \<and>
    heap_free s2 (F \<union> blk_bytes b R) \<and> thrtab s2 = thrtab (tell t s) \<and> thrcount s2 = thrcount s - 1 \<and>
    thrcurrent s2 = thrcurrent s \<and> quetab s2 = quetab s"
proof -
  let ?s = "s\<lparr>irq := False, thrcount := thrcount s - 1\<rparr>"
  have tin: "inarr (thrtab s) t" using t(1) by (simp add: isbadtid_iff)
  have e: "parent_busy t ?s" "kinv ?s" "\<not> irq ?s" "\<not> isbadtid ?s t" "heap_free ?s F"
    using par inv t(1) by (simp_all add: parent_busy_def isbadtid_iff heap_free_def minv_def)
  obtain v where v: "send (parent (thr s t)) t ?s = Done v (tell t ?s)" and inv1: "kinv (tell t ?s)"
    using send_tell [OF e(2,1,3)] by auto
  have tt: "thrtab (tell t ?s) = thrtab (tell t s)"
    using tin by (auto simp: tell_def Let_def deposit_def isbadtid_iff)
  obtain s2 where s2: "stkfree (stkbase (thr s t)) (stklen (thr s t)) (tell t ?s) = Some (OK, s2)" "heap_free s2 (F \<union> blk_bytes b R)" "only_heap (tell t ?s) s2"
    using stack.release_law [of "tell t ?s" F "stklen (thr s t)" "stkbase (thr s t)"] e(5) stk tin
    by (auto simp: b_def R_def in_heap_def)
  have s2': "thrtab s2 = thrtab (tell t s)" "kinv s2" "thrcount s2 = thrcount s - 1" "thrcurrent s2 = thrcurrent s" "quetab s2 = quetab s"
    using s2(3) tt inv1 kinv_heap [OF s2(3)] tin by (auto simp: only_heap_def tell_def Let_def deposit_def)
  have "kill t s = obind (kill_state t (state (thr s t)) s2) (\<lambda>_ s'. Done OK (restore (irq s) s'))"
    using t(1,2) cnt tin v s2(1) s2'(1) tt by (simp add: kill_def disable_def Let_def c_consts)
  then show ?thesis using s2(2) s2' by blast
qed

lemma gone_fields:
  assumes "gone t s s'"
  shows "heap_free s' F = heap_free s F" "thrcount s' = thrcount s" "thrcurrent s' = thrcurrent s" "inarr (thrtab s') u = inarr (thrtab s) u"
proof -
  let ?s = "s'\<lparr>quetab := quetab s, thrtab := thrtab s, semtab := semtab s\<rparr>"
  have eq: "?s = s" using assms by (simp only: gone_def)
  have "heap_free ?s F = heap_free s' F" by (simp add: heap_free_def minv_def)
  then show "heap_free s' F = heap_free s F" unfolding eq by simp
  have "thrcount ?s = thrcount s'" "thrcurrent ?s = thrcurrent s'" by simp_all
  then show "thrcount s' = thrcount s" "thrcurrent s' = thrcurrent s" unfolding eq by simp_all
  show "inarr (thrtab s') u = inarr (thrtab s) u" using assms by (simp add: gone_def inarr_def)
qed

lemma free_unqueued:
  assumes "kinv_qs s qs" "inarr (thrtab s) t" "state (thr s t) = THRFREE"
  shows "\<forall>q \<in> kqueues s. t \<notin> set (qs q)"
  using sched_okD(12) [of "{}" s qs t] assms by (auto simp: kinv_qs_def thr_ok_def qat_def loc_def)

lemma kill_ok:
  assumes inv: "kinv s" "heap_free s F" and t: "\<not> isbadtid s t" "t \<noteq> NULLTHREAD"
    and cnt: "2 < thrcount s" "thrcount s \<le> INT_MAX" and par: "parent_busy t s" and st: "state (thr s t) \<noteq> THRTMOUT"
  defines "b \<equiv> stkbase (thr s t) - roundmb (stklen (thr s t)) + 4" and "R \<equiv> roundmb (stklen (thr s t))"
  assumes stk: "fair (stklen (thr s t))" "in_heap s b R" "blk_bytes b R \<inter> F = {}"
  shows "\<exists>s' qs. kinv_qs s' qs \<and> state (thr s' t) = THRFREE \<and> (\<forall>q \<in> kqueues s'. t \<notin> set (qs q)) \<and>
    heap_free s' (F \<union> blk_bytes b R) \<and> thrcount s' = thrcount s - 1 \<and>
    (if state (thr s t) = THRCURR then \<exists>k. kill t s = obind (resched s') k
     else kill t s = Done OK s' \<and> running s')"
proof -
  have tin: "inarr (thrtab s) t" "state (thr s t) \<noteq> THRFREE" using t(1) by (simp_all add: isbadtid_iff)
  obtain s2 where s2: "kill t s = obind (kill_state t (state (thr s t)) s2) (\<lambda>_ s'. Done OK (restore (irq s) s'))" "kinv s2"
      "heap_free s2 (F \<union> blk_bytes b R)" "thrtab s2 = thrtab (tell t s)" "thrcount s2 = thrcount s - 1"
    using kill_start [OF inv t cnt par stk [unfolded b_def R_def]] unfolding b_def R_def by blast
  have t2: "inarr (thrtab s2) t" "state (thr s2 t) = state (thr s t)" using tin(1) s2(4) by simp_all
  show ?thesis
  proof (cases "state (thr s t) = THRCURR")
    case True
    obtain qs where qs: "sched_ok {} s2 qs" "sem_ok s2 qs" "sleep_ok s2 qs" using s2(2) by (elim kinvE)
    have "sched_ok {t} s2 qs" "qat s2 qs t None" using sched_exempt [OF qs(1), of t] t2 True by (auto simp: isbadtid_iff loc_def)
    from kill_default_ok [OF this t(2) qs(2,3)] obtain s' where s': "kill_default t s2 = Some s'" "kinv_qs s' qs"
        "s' = thr_upd t (state_update (\<lambda>_. THRFREE)) s2" by blast
    have "kill t s = obind (resched s') (\<lambda>_ w. obind (oget (kill_wait t w) (Done ())) (\<lambda>_ s'. Done OK (restore (irq s) s')))"
      using s2(1) s'(1) True by (simp add: kill_state_def obind_assoc)
    moreover have e: "state (thr s' t) = THRFREE" "inarr (thrtab s') t" "thrcount s' = thrcount s - 1" "heap_free s' (F \<union> blk_bytes b R)"
      using s'(3) t2(1) s2(3,5) by (simp_all add: heap_free_def minv_def)
    ultimately show ?thesis using s'(2) free_unqueued [OF s'(2) e(2,1)] True by auto
  next
    case False
    obtain s3 where s3: "kill_state t (state (thr s2 t)) s2 = Done () s3" "kinv s3" "gone t s2 s3"
      using kill_state_ok [OF s2(2) t2(1) t(2)] st tin(2) False t2(2) by auto
    define s' where "s' = restore (irq s) s3"
    have kill: "kill t s = Done OK s'" using s2(1) s3(1) t2(2) by (simp add: s'_def)
    have "kinv s'" using s3(2) by (simp add: s'_def restore_def)
    then obtain qs where qs: "kinv_qs s' qs" "running s'" by (elim kinvE)
    have e: "state (thr s' t) = THRFREE" "inarr (thrtab s') t" "thrcount s' = thrcount s - 1"
      using s3(3) gone_fields(2,4) [OF s3(3)] t2(1) s2(5) by (simp_all add: s'_def restore_def gone_def)
    have "heap_free s' (F \<union> blk_bytes b R) = heap_free s3 (F \<union> blk_bytes b R)" by (simp add: s'_def restore_def heap_free_def minv_def)
    then have "heap_free s' (F \<union> blk_bytes b R)" using gone_fields(1) [OF s3(3)] s2(3) by simp
    then show ?thesis using kill qs e free_unqueued [OF qs(1) e(2,1)] False by auto
  qed
qed

end
