(* ===== verification/Lifecycle_Properties.thy ===== *)
theory Lifecycle_Properties
  imports Lifecycle_Calls Kernel_Properties
begin

text \<open>Creation and termination of threads, with concrete instances.\<close>

section \<open>Creation\<close>


text \<open>A state with a free thread slot and free memory, a stack in use at 12288, and no sleeper.\<close>

definition vacant :: kstate where
  "vacant = demo\<lparr>quetab := demo_quetab[3 := qe 20 EMPTY EMPTY, 6 := qe MAXKEY 7 EMPTY, 7 := qe MINKEY EMPTY 6],
     thrtab := [demo_thr THRREADY 0, demo_thr THRCURR 20, (demo_thr THRWAIT 20)\<lparr>stkbase := 12412\<rparr>, demo_thr THRFREE 20],
     mem := (\<lambda>_. 0)(8196 := 4096), memlist_length := 4096\<rparr>"

definition vacant_qs :: "int \<Rightarrow> int list" where
  "vacant_qs = (\<lambda>_. [])(4 := [0], 8 := [2])"

lemmas vacant_defs = vacant_def vacant_qs_def demo_defs

lemma vacant_kinv: "kinv vacant"
proof -
  have qsys: "qsys (quetab vacant) (NTHREAD vacant) (kqueues vacant) vacant_qs"
    by (auto simp: vacant_defs qsys_def qrep_def kqueues_def)
  have threads: "inarr (thrtab vacant) t \<longleftrightarrow> t \<in> {0, 1, 2, 3}" for t by (auto simp: vacant_defs inarr_def)
  have "thr_ok {} vacant vacant_qs t" if "t \<in> {0, 1, 2, 3}" for t
    using that by (auto simp: vacant_defs thr_ok_def qat_def loc_def kqueues_def c_consts uidx_def inarr_def)
  then have "sched_ok {} vacant vacant_qs"
    using qsys by (simp add: sched_ok_def threads) (simp add: vacant_defs c_consts)
  moreover have "sem_ok vacant vacant_qs" "sleep_ok vacant vacant_qs"
    by (simp_all add: sem_ok_def sleep_ok_def delays_def vacant_defs c_consts)
  ultimately have "kinv_qs vacant vacant_qs" by (simp add: kinv_qs_def)
  then show ?thesis by (rule kinvI) (simp add: running_def vacant_defs)
qed

lemma vacant_heap: "heap_free vacant (blk_bytes 8192 4096)"
  unfolding heap_free_def
  by (rule exI [of _ "[(8192, 4096)]"]) (simp add: minv_def vacant_defs mtotal_def)

lemma create_vacant: "map_option fst (create 0 4096 8192 512 20 ''main'' [1, 2] vacant) = Some 3"
  by code_simp


section \<open>Termination\<close>



text \<open>
  \<open>kill\<close> forgets a thread that waits in \<open>recvtime\<close>: its slot and its stack become free while it
  stays in the sleep queue, which is not changed at all. A thread created later in that slot
  is then in the sleep queue although it never slept.
\<close>

theorem kill_leaves_sleeper:
  assumes "kinv s" "heap_free s F" "\<not> isbadtid s t" "t \<noteq> NULLTHREAD" "2 < thrcount s" "thrcount s \<le> INT_MAX"
    and "parent_busy t s" "state (thr s t) = THRTMOUT" "fair (stklen (thr s t))"
    and "in_heap s (stkbase (thr s t) - roundmb (stklen (thr s t)) + 4) (roundmb (stklen (thr s t)))"
    and "blk_bytes (stkbase (thr s t) - roundmb (stklen (thr s t)) + 4) (roundmb (stklen (thr s t))) \<inter> F = {}"
  shows "\<exists>s'. kill t s = Done OK s' \<and> state (thr s' t) = THRFREE \<and> quetab s' = quetab s"
proof -
  obtain s2 where s2: "kill t s = obind (kill_state t (state (thr s t)) s2) (\<lambda>_ s'. Done OK (restore (irq s) s'))"
      "thrtab s2 = thrtab (tell t s)" "quetab s2 = quetab s"
    using kill_start [OF assms(1-7) assms(9-11)] by blast
  have "inarr (thrtab s2) t" using assms(3) s2(2) tell_simps(4) [of s t t t] by (simp add: isbadtid_iff)
  then show ?thesis using s2 assms(8) by (simp add: kill_state_def kill_default_def restore_def)
qed

text \<open>The witness: thread 1 of the state \<open>drift\<close>, with a stack of its own.\<close>

definition doomed :: kstate where
  "doomed = drift\<lparr>thrtab := (thrtab drift)[1 := (demo_thr THRTMOUT 20)\<lparr>stkbase := 12412\<rparr>],
     mem := (\<lambda>_. 0)(8196 := 4096), memlist_length := 4096\<rparr>"

lemma doomed_kinv: "kinv doomed"
proof -
  have "kinv_qs (thr_upd 1 (stkbase_update (\<lambda>_. 12412)) drift) drift_qs"
    by (rule kinv_qs_note [OF drift_kinv_qs]) (simp_all add: drift_defs inarr_def c_consts)
  moreover have "running (thr_upd 1 (stkbase_update (\<lambda>_. 12412)) drift)" by (simp add: running_def drift_defs upd_def)
  ultimately have "kinv (thr_upd 1 (stkbase_update (\<lambda>_. 12412)) drift)" by (rule kinvI)
  moreover have "same_core (thr_upd 1 (stkbase_update (\<lambda>_. 12412)) drift) doomed"
    by (simp add: same_core_def doomed_def drift_defs upd_def)
  ultimately show ?thesis using same_core_inv(6) by blast
qed

lemma doomed_heap: "heap_free doomed (blk_bytes 8192 4096)"
  unfolding heap_free_def
  by (rule exI [of _ "[(8192, 4096)]"]) (simp add: minv_def doomed_def drift_defs mtotal_def)

theorem kill_leaves_sleeper_witness:
  "\<exists>s'. kill 1 doomed = Done OK s' \<and> state (thr s' 1) = THRFREE \<and> quetab s' = quetab doomed"
proof -
  have R: "roundmb 128 = 128" by (simp add: roundmb_def)
  have "\<not> isbadtid doomed 1" "(1 :: int) \<noteq> NULLTHREAD" "2 < thrcount doomed" "thrcount doomed \<le> INT_MAX" "parent_busy 1 doomed"
    "state (thr doomed 1) = THRTMOUT" "fair (stklen (thr doomed 1))"
    "in_heap doomed (stkbase (thr doomed 1) - roundmb (stklen (thr doomed 1)) + 4) (roundmb (stklen (thr doomed 1)))"
    "blk_bytes (stkbase (thr doomed 1) - roundmb (stklen (thr doomed 1)) + 4) (roundmb (stklen (thr doomed 1))) \<inter> blk_bytes 8192 4096 = {}"
    by (auto simp: doomed_def drift_defs isbadtid_def c_consts parent_busy_def fair_def in_heap_def blk_bytes_def R)
  from kill_leaves_sleeper [OF doomed_kinv doomed_heap this] show ?thesis .
qed

end
