(* ===== verification/Initialize.thy ===== *)
theory Initialize
  imports Thread_Lifecycle Mailboxes
begin

text \<open>
  System start: \<open>initialize.c\<close> and \<open>clkinit.c\<close>. What \<open>sysinit\<close> does after the mailboxes, and
  \<open>platforminit\<close> before it, is the initialisation of buses, devices, USB, NVRAM and network
  interfaces, which is not part of the kernel state. \<open>end_addr\<close> is the linker symbol \<open>_end\<close>.
\<close>

definition INITSTK :: u32 where "INITSTK = 65536"
definition INITPRIO :: int where "INITPRIO = 20"

text \<open>The free list: one block that spans the heap.\<close>

definition init_memlist :: "kstate \<Rightarrow> kstate option" where
  "init_memlist s = do {
     let s = s\<lparr>memheap := roundmb (memheap s)\<rparr>;
     let s = s\<lparr>maxaddr := truncmb (maxaddr s)\<rparr>;
     let s = s\<lparr>memlist_next := memheap s, memlist_length := maxaddr s - memheap s\<rparr>;
     s \<leftarrow> st (memheap s) 0 s;
     st (memheap s + 4) (maxaddr s - memheap s) s }"

definition init_threads :: "u32 \<Rightarrow> kstate \<Rightarrow> kstate option" where
  "init_threads end_addr s = do {
     let s = s\<lparr>thrtab := map (state_update (\<lambda>_. THRFREE)) (thrtab s)\<rparr>;
     tt \<leftarrow> aupd (thrtab s) NULLTHREAD (\<lambda>e. e\<lparr>state := THRCURR, prio := 0,
       name := take (TNMLEN - 1) ''prnull'', stkbase := end_addr, stklen := memheap s - end_addr, stkptr := 0,
       tmem_next := 0, tmem_length := 0\<rparr>);
     Some (s\<lparr>thrtab := tt, thrcurrent := NULLTHREAD\<rparr>) }"

text \<open>The loop over the semaphores: \<open>n\<close> of them are left, \<open>i\<close> is the next one.\<close>

fun init_semaphores :: "nat \<Rightarrow> int \<Rightarrow> kstate \<Rightarrow> kstate option" where
  "init_semaphores 0 i s = Some s"
| "init_semaphores (Suc n) i s = do {
     sts \<leftarrow> aupd (semtab s) i (sstate_update (\<lambda>_. SFREE));
     (q, s) \<leftarrow> queinit (s\<lparr>semtab := sts\<rparr>);
     sts \<leftarrow> aupd (semtab s) i (squeue_update (\<lambda>_. q));
     init_semaphores n (i + 1) (s\<lparr>semtab := sts\<rparr>) }"

definition clkinit :: "kstate \<Rightarrow> kstate option" where
  "clkinit s = do {
     (q, s) \<leftarrow> queinit s;
     Some (s\<lparr>sleepq := q, clkticks := 0\<rparr>) }"

definition sysinit :: "u32 \<Rightarrow> kstate \<Rightarrow> (int \<times> kstate) option" where
  "sysinit end_addr s = do {
     let s = s\<lparr>thrcount := 1\<rparr>;
     s \<leftarrow> init_memlist s;
     s \<leftarrow> init_threads end_addr s;
     s \<leftarrow> init_semaphores (length (semtab s)) 0 s;
     let s = s\<lparr>montab := map (mstate_update (\<lambda>_. MFREE)) (montab s)\<rparr>;
     let s = s\<lparr>bfptab := map (bfpstate_update (\<lambda>_. BFPFREE)) (bfptab s)\<rparr>;
     (q, s) \<leftarrow> queinit s;
     let s = s\<lparr>readylist := q\<rparr>;
     s \<leftarrow> clkinit s;
     (_, s) \<leftarrow> mailboxInit s;
     Some (OK, s) }"

text \<open>The null thread, up to the point where it only pauses.\<close>

definition nulluser :: "int \<Rightarrow> u32 \<Rightarrow> u32 \<Rightarrow> u32 \<Rightarrow> kstate \<Rightarrow> int outcome" where
  "nulluser console initret main end_addr s =
     obind (olift (sysinit end_addr s)) (\<lambda>_ s.
     obind (olift (create console initret main INITSTK INITPRIO ''MAIN'' [] (s\<lparr>irq := True\<rparr>))) (\<lambda>tid s.
     ready tid RESCHED_YES s))"

end
