(* ===== verification/Initialize_Properties.thy ===== *)
theory Initialize_Properties
  imports Initialize Mailbox_Properties Lifecycle_Properties
begin

text \<open>The kernel invariant holds when the system has started.\<close>

section \<open>Empty queues\<close>

abbreviation no_threads :: "int \<Rightarrow> int list" where
  "no_threads \<equiv> \<lambda>_. []"

lemma queinit_eq:
  assumes "inarr (quetab s) (nextqid s)" "inarr (quetab s) (nextqid s + 1)" "nextqid s \<le> NQENT s"
  shows "queinit s = Some (nextqid s, s\<lparr>nextqid := nextqid s + 2,
    quetab := upd (upd (quetab s) (nextqid s) (\<lambda>e. e\<lparr>qnext := nextqid s + 1, qprev := EMPTY, qkey := MAXKEY\<rparr>)) (nextqid s + 1)
    (\<lambda>e. e\<lparr>qnext := EMPTY, qprev := nextqid s, qkey := MINKEY\<rparr>)\<rparr>)"
  using assms by (simp add: queinit_def quehead_def quetail_def Let_def)

lemma queinit_ok:
  assumes q: "q = nextqid s" "0 \<le> n" "n \<le> q" "q + 1 < NQENT s"
    and sys: "qsys (quetab s) n Q no_threads" and below: "\<And>r. r \<in> Q \<Longrightarrow> r + 2 \<le> q"
  shows "\<exists>qt. queinit s = Some (q, s\<lparr>nextqid := q + 2, quetab := qt\<rparr>) \<and> qsys qt n (insert q Q) no_threads \<and>
    length qt = length (quetab s)"
proof -
  have i: "inarr (quetab s) q" "inarr (quetab s) (q + 1)" using q by (auto simp: inarr_def)
  define qt where "qt = upd (upd (quetab s) q (\<lambda>e. e\<lparr>qnext := q + 1, qprev := EMPTY, qkey := MAXKEY\<rparr>)) (q + 1)
    (\<lambda>e. e\<lparr>qnext := EMPTY, qprev := q, qkey := MINKEY\<rparr>)"
  have eq: "queinit s = Some (q, s\<lparr>nextqid := q + 2, quetab := qt\<rparr>)"
    using queinit_eq [of s] i q(4) unfolding q(1) [symmetric] qt_def by simp
  have at: "at qt r = (if r = q + 1 then (at (quetab s) (q + 1))\<lparr>qnext := EMPTY, qprev := q, qkey := MINKEY\<rparr>
      else if r = q then (at (quetab s) q)\<lparr>qnext := q + 1, qprev := EMPTY, qkey := MAXKEY\<rparr> else at (quetab s) r)"
    if "inarr (quetab s) r" for r
    using that i by (auto simp: qt_def)
  have len: "length qt = length (quetab s)" by (simp add: qt_def)
  have new: "qrep qt n q []" using q(2-4) at i len by (simp add: qrep_def)
  have old: "qrep qt n r []" if "r \<in> Q" for r
  proof -
    have r: "qrep (quetab s) n r []" using sys that by (simp add: qsys_def)
    have "inarr (quetab s) r" "inarr (quetab s) (r + 1)" using r by (auto simp: qrep_def inarr_def)
    then show ?thesis using r at below [OF that] len by (simp add: qrep_def)
  qed
  have "b \<noteq> a + 1" if "a \<in> insert q Q" "b \<in> insert q Q" "a \<noteq> b" for a b
    using that sys below [of a] below [of b] by (cases "a = q"; cases "b = q") (auto simp: qsys_def)
  then have "qsys qt n (insert q Q) no_threads" unfolding qsys_def using new old by auto
  with eq len show ?thesis by blast
qed

section \<open>The tables\<close>

text \<open>The first \<open>i\<close> semaphores are initialised; their queues follow the thread entries.\<close>

definition sems_ready :: "int \<Rightarrow> kstate \<Rightarrow> bool" where
  "sems_ready i s \<longleftrightarrow> nextqid s = NTHREAD s + 2 * i \<and>
     qsys (quetab s) (NTHREAD s) ((\<lambda>k. NTHREAD s + 2 * k) ` {0..<i}) no_threads \<and>
     (\<forall>k. 0 \<le> k \<and> k < i \<longrightarrow> squeue (at (semtab s) k) = NTHREAD s + 2 * k \<and> sstate (at (semtab s) k) = SFREE) \<and>
     (\<forall>k. inarr (semtab s) k \<longrightarrow> count (at (semtab s) k) = 0)"

lemma init_semaphores_ok:
  assumes "sems_ready i s" "0 \<le> i" "i + int n = NSEM s" "NTHREAD s + 2 * NSEM s + 4 \<le> NQENT s"
  shows "\<exists>sts qt. init_semaphores n i s = Some (s\<lparr>semtab := sts, quetab := qt, nextqid := NTHREAD s + 2 * NSEM s\<rparr>) \<and>
    sems_ready (NSEM s) (s\<lparr>semtab := sts, quetab := qt, nextqid := NTHREAD s + 2 * NSEM s\<rparr>) \<and>
    length sts = length (semtab s) \<and> length qt = length (quetab s)"
  using assms
proof (induction n arbitrary: i s)
  case 0
  then have "s\<lparr>nextqid := NTHREAD s + 2 * NSEM s\<rparr> = s" by (simp add: sems_ready_def)
  then show ?case using 0 by (intro exI [of _ "semtab s"] exI [of _ "quetab s"]) simp
next
  case (Suc n)
  let ?N = "NTHREAD s" and ?Q = "(\<lambda>k. NTHREAD s + 2 * k) ` {0..<i}"
  have ii: "inarr (semtab s) i" using Suc.prems(2,3) by (simp add: inarr_def)
  let ?s1 = "s\<lparr>semtab := upd (semtab s) i (sstate_update (\<lambda>_. SFREE))\<rparr>"
  obtain qt where qt: "queinit ?s1 = Some (?N + 2 * i, ?s1\<lparr>nextqid := ?N + 2 * i + 2, quetab := qt\<rparr>)"
      "qsys qt ?N (insert (?N + 2 * i) ?Q) no_threads" "length qt = length (quetab s)"
  proof -
    have "r + 2 \<le> ?N + 2 * i" if "r \<in> ?Q" for r using that by auto
    then show ?thesis using that queinit_ok [of "?N + 2 * i" ?s1 ?N ?Q] Suc.prems by (auto simp: sems_ready_def)
  qed
  have Q: "insert (?N + 2 * i) ?Q = (\<lambda>k. ?N + 2 * k) ` {0..<i + 1}"
    using Suc.prems(2) by (auto simp: image_iff)
  let ?s2 = "s\<lparr>nextqid := ?N + 2 * i + 2, quetab := qt, semtab := upd (semtab s) i (\<lambda>e. e\<lparr>sstate := SFREE, squeue := ?N + 2 * i\<rparr>)\<rparr>"
  have "sems_ready (i + 1) ?s2"
    using Suc.prems qt(2) ii unfolding Q by (auto simp: sems_ready_def at_upd inarr_def)
  from Suc.IH [OF this] Suc.prems(2-4) qt(3)
  obtain sts qt' where "init_semaphores n (i + 1) ?s2 = Some (?s2\<lparr>semtab := sts, quetab := qt', nextqid := ?N + 2 * NSEM s\<rparr>)"
      "sems_ready (NSEM s) (?s2\<lparr>semtab := sts, quetab := qt', nextqid := ?N + 2 * NSEM s\<rparr>)"
      "length sts = length (semtab s)" "length qt' = length (quetab s)"
    by auto
  moreover have "init_semaphores (Suc n) i s = init_semaphores n (i + 1) ?s2"
    using ii qt(1) by simp
  ultimately show ?case by (intro exI [of _ sts] exI [of _ qt']) simp
qed

text \<open>
  What the loader and the configuration provide: zeroed tables of the configured sizes, enough
  queue entries, and a heap between \<open>memheap\<close> and \<open>maxaddr\<close> that holds at least one block.
\<close>

definition loaded :: "kstate \<Rightarrow> bool" where
  "loaded s \<longleftrightarrow> 0 < NTHREAD s \<and> NTHREAD s \<le> INT_MAX \<and> 0 < NSEM s \<and> NSEM s \<le> INT_MAX \<and> NMAILBOX s \<le> INT_MAX \<and>
     NTHREAD s + 2 * NSEM s + 4 \<le> NQENT s \<and> nextqid s = NTHREAD s \<and> resdefer s = 0 \<and>
     (\<forall>e \<in> set (semtab s). count e = 0) \<and> 0 < unat (memheap s) \<and> unat (memheap s) \<le> 4294967288 \<and>
     unat (roundmb (memheap s)) + 8 \<le> unat (truncmb (maxaddr s))"

lemma init_memlist_ok:
  assumes "0 < unat (memheap s)" "unat (memheap s) \<le> 4294967288" "unat (roundmb (memheap s)) + 8 \<le> unat (truncmb (maxaddr s))"
  defines "h \<equiv> roundmb (memheap s)" and "m \<equiv> truncmb (maxaddr s)"
  shows "\<exists>mm. init_memlist s = Some (s\<lparr>memheap := h, maxaddr := m, memlist_next := h, memlist_length := m - h, mem := mm\<rparr>) \<and>
    heap_free (s\<lparr>memheap := h, maxaddr := m, memlist_next := h, memlist_length := m - h, mem := mm\<rparr>) {unat h ..< unat m}"
proof -
  have a: "8 dvd unat h" "8 dvd unat m" "0 < unat h"
    using roundmb_aligned [of "memheap s"] roundmb_pos [of "memheap s"] assms(1,2) unat_and_not_7 [of "maxaddr s"]
    by (auto simp: h_def m_def truncmb_def unat_gt_0)
  have le: "unat h + 8 \<le> unat m" using assms(3) by (simp add: h_def m_def)
  have h4: "unat (h + 4) = unat h + 4" using le unat_lt32 [of m] by (intro unat_add32 [where b = 4, simplified]) linarith
  have len: "unat (m - h) = unat m - unat h" using le by (intro unat_sub32) simp
  have "4 dvd unat h" using a(1) by (auto elim!: dvdE)
  then have hw: "unat h < unat m \<and> 4 dvd unat h" "unat h + 4 < unat m \<and> 4 dvd unat h + 4" using le by auto
  have ne: "h + 4 \<noteq> h" using h4 by auto
  define mm where "mm = (mem s)(h := 0, h + 4 := m - h)"
  define s' where "s' = s\<lparr>memheap := h, maxaddr := m, memlist_next := h, memlist_length := m - h, mem := mm\<rparr>"
  have "init_memlist s = Some s'"
    using hw h4 by (simp add: init_memlist_def h_def [symmetric] m_def [symmetric] st_def heap_word_iff Let_def s'_def mm_def)
  moreover have "minv s' [(h, m - h)]" using a le len ne by (simp add: minv_def s'_def mtotal_def mm_def dvd_diff_nat)
  then have "heap_free s' (blk_bytes h (m - h))" by (auto simp: heap_free_def intro!: exI [of _ "[(h, m - h)]"])
  moreover have "blk_bytes h (m - h) = {unat h ..< unat m}" using len le by (simp add: blk_bytes_def)
  ultimately show ?thesis unfolding s'_def by auto
qed

lemma mailboxInit_loop_ok:
  assumes "unat i + n = length (mboxtab s)" "NMAILBOX s \<le> INT_MAX"
  shows "\<exists>mt. mailboxInit_loop n i s = Some (s\<lparr>mboxtab := mt\<rparr>) \<and> length mt = length (mboxtab s)"
  using assms
proof (induction n arbitrary: i s)
  case 0
  then show ?case by (intro exI [of _ "mboxtab s"]) simp
next
  case (Suc n)
  have i: "inarr (mboxtab s) (uidx i)" using Suc.prems(1) by (simp add: inarr_uidx)
  have "unat (i + 1) = unat i + 1" using Suc.prems using unat_add32 [of i 1] by (simp add: c_consts)
  then obtain mt where "mailboxInit_loop n (i + 1) (s\<lparr>mboxtab := upd (mboxtab s) (uidx i) (mbstate_update (\<lambda>_. MAILBOX_FREE))\<rparr>)
      = Some (s\<lparr>mboxtab := mt\<rparr>)" "length mt = length (mboxtab s)"
    using Suc.IH [of "i + 1" "s\<lparr>mboxtab := upd (mboxtab s) (uidx i) (mbstate_update (\<lambda>_. MAILBOX_FREE))\<rparr>"] Suc.prems by auto
  then show ?case using i by auto
qed

text \<open>A state with only the null thread and empty queues.\<close>

lemma fresh_kinv:
  assumes sizes: "0 < NTHREAD s" "NTHREAD s \<le> INT_MAX" "NSEM s \<le> INT_MAX" "resdefer s = 0"
    and sems: "\<And>k. inarr (semtab s) k \<Longrightarrow> squeue (at (semtab s) k) = NTHREAD s + 2 * k \<and> sstate (at (semtab s) k) = SFREE \<and> count (at (semtab s) k) = 0"
    and lists: "readylist s = NTHREAD s + 2 * NSEM s" "sleepq s = NTHREAD s + 2 * NSEM s + 2"
    and sys: "qsys (quetab s) (NTHREAD s) (insert (sleepq s) (insert (readylist s) ((\<lambda>k. NTHREAD s + 2 * k) ` {0..<NSEM s}))) no_threads"
    and thrs: "thrcurrent s = NULLTHREAD" "state (thr s NULLTHREAD) = THRCURR" "prio (thr s NULLTHREAD) = 0"
      "\<And>t. inarr (thrtab s) t \<Longrightarrow> t \<noteq> NULLTHREAD \<Longrightarrow> state (thr s t) = THRFREE"
  shows "kinv s"
proof -
  have sq: "map squeue (semtab s) = map (\<lambda>k. NTHREAD s + 2 * int k) [0..<length (semtab s)]"
  proof (rule nth_equalityI)
    fix i assume "i < length (map squeue (semtab s))"
    then show "map squeue (semtab s) ! i = map (\<lambda>k. NTHREAD s + 2 * int k) [0..<length (semtab s)] ! i"
      using sems [of "int i"] by (simp add: inarr_def at_def)
  qed simp
  have Q: "kqueues s = insert (sleepq s) (insert (readylist s) ((\<lambda>k. NTHREAD s + 2 * k) ` {0..<NSEM s}))"
  proof -
    have "(\<lambda>k. NTHREAD s + 2 * int k) ` {0..<length (semtab s)} = (\<lambda>k. NTHREAD s + 2 * k) ` {0..<NSEM s}"
      by (auto simp: image_iff) (metis atLeastLessThan_iff int_nat_eq nat_less_iff zero_le)
    then show ?thesis unfolding kqueues_def by (simp add: sq insert_commute)
  qed
  have "distinct (readylist s # sleepq s # map squeue (semtab s))"
    unfolding sq using lists by (auto simp: distinct_map inj_on_def)
  moreover have "thr_ok {} s no_threads t" if "inarr (thrtab s) t" for t
    using thrs(1-3) thrs(4) [OF that]
    by (cases "t = NULLTHREAD") (auto simp: thr_ok_def qat_def loc_def c_consts)
  ultimately have "sched_ok {} s no_threads"
    using sys sizes thrs(1) unfolding Q [symmetric] by (auto simp: sched_ok_def inarr_def c_consts)
  moreover have "sem_ok s no_threads" using sems by (auto simp: sem_ok_at c_consts)
  moreover have "sleep_ok s no_threads" by (simp add: sleep_ok_def delays_def c_consts)
  ultimately have "kinv_qs s no_threads" by (simp add: kinv_qs_def)
  then show ?thesis by (rule kinvI) (use thrs in \<open>simp add: running_def\<close>)
qed

text \<open>Both lists after the semaphores.\<close>

lemma init_lists:
  assumes "sems_ready (NSEM s) s" "NTHREAD s + 2 * NSEM s + 4 \<le> NQENT s"
  defines "r \<equiv> NTHREAD s + 2 * NSEM s"
  shows "\<exists>qt qt'. queinit s = Some (r, s\<lparr>nextqid := r + 2, quetab := qt\<rparr>) \<and>
    queinit (s\<lparr>nextqid := r + 2, quetab := qt, readylist := r\<rparr>) =
      Some (r + 2, s\<lparr>nextqid := r + 2 + 2, quetab := qt', readylist := r\<rparr>) \<and>
    qsys qt' (NTHREAD s) (insert (r + 2) (insert r ((\<lambda>k. NTHREAD s + 2 * k) ` {0..<NSEM s}))) no_threads"
proof -
  let ?Q = "(\<lambda>k. NTHREAD s + 2 * k) ` {0..<NSEM s}"
  have b: "q + 2 \<le> r" if "q \<in> ?Q" for q using that by (auto simp: r_def)
  obtain qt where qt: "queinit s = Some (r, s\<lparr>nextqid := r + 2, quetab := qt\<rparr>)" "qsys qt (NTHREAD s) (insert r ?Q) no_threads" "length qt = length (quetab s)"
    using queinit_ok [of r s "NTHREAD s" ?Q] b assms(1,2) by (auto simp: sems_ready_def r_def)
  let ?s = "s\<lparr>nextqid := r + 2, quetab := qt, readylist := r\<rparr>"
  have b': "q + 2 \<le> r + 2" if "q \<in> insert r ?Q" for q using that b [of q] by auto
  have p: "r + 2 = nextqid ?s" "0 \<le> NTHREAD s" "NTHREAD s \<le> r + 2" "r + 2 + 1 < NQENT ?s" "qsys (quetab ?s) (NTHREAD s) (insert r ?Q) no_threads"
    using qt assms(2) by (simp_all add: r_def)
  from queinit_ok [OF p b']
  obtain qt' where "queinit ?s = Some (r + 2, ?s\<lparr>nextqid := r + 2 + 2, quetab := qt'\<rparr>)"
    "qsys qt' (NTHREAD s) (insert (r + 2) (insert r ?Q)) no_threads" by blast
  then show ?thesis using qt(1) by (intro exI [of _ qt] exI [of _ qt']) simp
qed

lemma init_threads_eq:
  assumes "0 < NTHREAD s"
  obtains tt where "init_threads e s = Some (s\<lparr>thrtab := tt, thrcurrent := NULLTHREAD\<rparr>)" "length tt = length (thrtab s)"
    "state (at tt NULLTHREAD) = THRCURR" "prio (at tt NULLTHREAD) = 0"
    "\<And>t. inarr tt t \<Longrightarrow> t \<noteq> NULLTHREAD \<Longrightarrow> state (at tt t) = THRFREE"
proof -
  have i: "inarr (map (state_update (\<lambda>_. THRFREE)) (thrtab s)) NULLTHREAD" using assms by (simp add: inarr_def c_consts)
  define tt where "tt = upd (map (state_update (\<lambda>_. THRFREE)) (thrtab s)) NULLTHREAD (\<lambda>x. x\<lparr>state := THRCURR, prio := 0,
       name := take (TNMLEN - 1) ''prnull'', stkbase := e, stklen := memheap s - e, stkptr := 0, tmem_next := 0, tmem_length := 0\<rparr>)"
  have "state (at tt t) = THRFREE" if "inarr tt t" "t \<noteq> NULLTHREAD" for t
  proof -
    have t: "inarr (map (state_update (\<lambda>_. THRFREE)) (thrtab s)) t" using that(1) by (simp add: tt_def inarr_def)
    then have "at tt t = at (map (state_update (\<lambda>_. THRFREE)) (thrtab s)) t" using that(2) i by (simp add: tt_def at_upd)
    moreover have "nat t < length (thrtab s)" using t by (auto simp: inarr_def)
    ultimately show ?thesis by (simp add: at_def)
  qed
  moreover have "init_threads e s = Some (s\<lparr>thrtab := tt, thrcurrent := NULLTHREAD\<rparr>)"
    using i by (simp add: init_threads_def tt_def)
  ultimately show ?thesis using that [of tt] i by (simp add: tt_def)
qed

definition booted :: "u32 \<Rightarrow> kstate \<Rightarrow> (int \<times> kstate) option" where
  "booted e s = do {
     let s = s\<lparr>thrcount := 1\<rparr>;
     s \<leftarrow> init_memlist s;
     s \<leftarrow> init_threads e s;
     s \<leftarrow> init_semaphores (length (semtab s)) 0 s;
     let s = s\<lparr>montab := map (mstate_update (\<lambda>_. MFREE)) (montab s)\<rparr>;
     let s = s\<lparr>bfptab := map (bfpstate_update (\<lambda>_. BFPFREE)) (bfptab s)\<rparr>;
     (q, s) \<leftarrow> queinit s;
     let s = s\<lparr>readylist := q\<rparr>;
     s \<leftarrow> clkinit s;
     Some (OK, s) }"

lemma sysinit_booted: "sysinit e s = do { (_, s) \<leftarrow> booted e s; (_, s) \<leftarrow> mailboxInit s; Some (OK, s) }"
  by (simp add: sysinit_def booted_def Let_def split_def)

lemma booted_ok:
  assumes l: "loaded s"
  shows "\<exists>s'. booted e s = Some (OK, s') \<and> kinv s' \<and> thrcurrent s' = NULLTHREAD \<and> heap_free s' {unat (roundmb (memheap s)) ..< unat (truncmb (maxaddr s))} \<and>
    length (mboxtab s') = length (mboxtab s) \<and> NSEM s' = NSEM s \<and> (\<forall>k. inarr (semtab s') k \<longrightarrow> sstate (at (semtab s') k) = SFREE)"
proof -
  let ?s0 = "s\<lparr>thrcount := 1\<rparr>" and ?h = "roundmb (memheap s)" and ?m = "truncmb (maxaddr s)"
  obtain mm where mm: "init_memlist ?s0 = Some (?s0\<lparr>memheap := ?h, maxaddr := ?m, memlist_next := ?h, memlist_length := ?m - ?h, mem := mm\<rparr>)"
      "heap_free (?s0\<lparr>memheap := ?h, maxaddr := ?m, memlist_next := ?h, memlist_length := ?m - ?h, mem := mm\<rparr>) {unat ?h ..< unat ?m}"
    using init_memlist_ok [of ?s0] l by (auto simp: loaded_def)
  let ?s1 = "?s0\<lparr>memheap := ?h, maxaddr := ?m, memlist_next := ?h, memlist_length := ?m - ?h, mem := mm\<rparr>"
  obtain tt where tt: "init_threads e ?s1 = Some (?s1\<lparr>thrtab := tt, thrcurrent := NULLTHREAD\<rparr>)" "length tt = length (thrtab s)"
    "state (at tt NULLTHREAD) = THRCURR" "prio (at tt NULLTHREAD) = 0"
    "\<And>t. inarr tt t \<Longrightarrow> t \<noteq> NULLTHREAD \<Longrightarrow> state (at tt t) = THRFREE"
    using init_threads_eq [of ?s1 e] l by (auto simp: loaded_def)
  let ?s2 = "?s1\<lparr>thrtab := tt, thrcurrent := NULLTHREAD\<rparr>"
  have l': "NTHREAD s + 2 * NSEM s + 4 \<le> NQENT s" "nextqid s = NTHREAD s" "\<forall>e \<in> set (semtab s). count e = 0"
    using l by (auto simp: loaded_def)
  have "sems_ready 0 ?s2" using l'(2,3) tt(2) by (auto simp: sems_ready_def qsys_def at_def inarr_def)
  then obtain sts qt where sm: "init_semaphores (length (semtab ?s2)) 0 ?s2 = Some (?s2\<lparr>semtab := sts, quetab := qt, nextqid := NTHREAD s + 2 * NSEM s\<rparr>)"
      "sems_ready (NSEM s) (?s2\<lparr>semtab := sts, quetab := qt, nextqid := NTHREAD s + 2 * NSEM s\<rparr>)"
      "length sts = length (semtab s)" "length qt = length (quetab s)"
    using init_semaphores_ok [of 0 ?s2 "length (semtab ?s2)"] l'(1) tt(2) by auto
  let ?s3 = "?s2\<lparr>semtab := sts, quetab := qt, nextqid := NTHREAD s + 2 * NSEM s, montab := map (mstate_update (\<lambda>_. MFREE)) (montab s),
    bfptab := map (bfpstate_update (\<lambda>_. BFPFREE)) (bfptab s)\<rparr>" and ?r = "NTHREAD s + 2 * NSEM s"
  have "sems_ready (NSEM s) ?s3" using sm(2) by (simp add: sems_ready_def)
  then obtain qa qb where q: "queinit ?s3 = Some (?r, ?s3\<lparr>nextqid := ?r + 2, quetab := qa\<rparr>)"
    "queinit (?s3\<lparr>nextqid := ?r + 2, quetab := qa, readylist := ?r\<rparr>) = Some (?r + 2, ?s3\<lparr>nextqid := ?r + 2 + 2, quetab := qb, readylist := ?r\<rparr>)"
    "qsys qb (NTHREAD s) (insert (?r + 2) (insert ?r ((\<lambda>k. NTHREAD s + 2 * k) ` {0..<NSEM s}))) no_threads"
    using init_lists [of ?s3] l'(1) tt(2) sm(3,4) by auto
  define s' where "s' = ?s3\<lparr>nextqid := ?r + 2 + 2, quetab := qb, readylist := ?r, sleepq := ?r + 2, clkticks := 0\<rparr>"
  have "booted e s = Some (OK, s')"
    using mm(1) tt(1) sm(1) q(1,2) by (simp add: booted_def clkinit_def s'_def)
  moreover have "kinv s'"
    by (rule fresh_kinv) (use l tt sm(2,3) q(3) in \<open>auto simp: s'_def loaded_def sems_ready_def inarr_def\<close>)
  moreover have "heap_free s' {unat ?h ..< unat ?m}" using mm(2) by (simp add: s'_def heap_free_def minv_def)
  ultimately show ?thesis using sm(2,3) by (auto simp: s'_def sems_ready_def inarr_def)
qed

section \<open>System start\<close>

text \<open>
  C25. System start. From the zeroed tables of the image, \<open>sysinit\<close> returns OK: every table access is
  in bounds, the kernel invariant holds with the null thread running, the heap is one free block
  between the rounded limits, and the mailbox table has its semaphore, free for one client.
\<close>

theorem sysinit_boot:
  assumes "loaded s"
  shows "\<exists>s'. sysinit e s = Some (OK, s') \<and> kinv s' \<and> thrcurrent s' = NULLTHREAD \<and>
    heap_free s' {unat (roundmb (memheap s)) ..< unat (truncmb (maxaddr s))} \<and>
    \<not> isbadsem s' (mboxtabsem s') \<and> semcnt s' (mboxtabsem s') = 1"
proof -
  obtain s1 where s1: "booted e s = Some (OK, s1)" "kinv s1" "thrcurrent s1 = NULLTHREAD"
      "heap_free s1 {unat (roundmb (memheap s)) ..< unat (truncmb (maxaddr s))}"
      "length (mboxtab s1) = length (mboxtab s)" "NSEM s1 = NSEM s" "\<forall>k. inarr (semtab s1) k \<longrightarrow> sstate (at (semtab s1) k) = SFREE"
    using booted_ok [OF assms] by blast
  obtain mt where mt: "mailboxInit_loop (length (mboxtab s1)) 0 s1 = Some (s1\<lparr>mboxtab := mt\<rparr>)"
    using mailboxInit_loop_ok [of 0 "length (mboxtab s1)" s1] s1(5) assms by (auto simp: loaded_def)
  let ?s2 = "s1\<lparr>mboxtab := mt\<rparr>"
  have z: "inarr (semtab s1) 0" using assms s1(6) by (simp add: loaded_def inarr_def)
  obtain i where i: "inarr (semtab s1) i" "uidx (word_of_int i) = i" "USYSERR \<noteq> word_of_int i"
    "semcreate 1 ?s2 = Some (word_of_int i, ?s2\<lparr>nextsem := i, semtab := upd (semtab s1) i (\<lambda>e. e\<lparr>sstate := SUSED, count := 1\<rparr>)\<rparr>)"
    "kinv (?s2\<lparr>nextsem := i, semtab := upd (semtab s1) i (\<lambda>e. e\<lparr>sstate := SUSED, count := 1\<rparr>)\<rparr>)"
  proof -
    have "kinv ?s2" "sstate (at (semtab ?s2) 0) = SFREE" "inarr (semtab ?s2) 0" "1 \<le> INT_MAX" "0 \<le> (1 :: int)"
      using s1(2) s1(7) [rule_format, OF z] z by (simp_all add: c_consts)
    from semcreate_other [OF this(1,5,4,3,2)] show ?thesis using that by auto
  qed
  define s' where "s' = ?s2\<lparr>nextsem := i, semtab := upd (semtab s1) i (\<lambda>e. e\<lparr>sstate := SUSED, count := 1\<rparr>), mboxtabsem := word_of_int i\<rparr>"
  have "sysinit e s = Some (OK, s')"
    using s1(1) mt i(3,4) by (auto simp: sysinit_booted mailboxInit_def s'_def)
  moreover have "kinv s'" using i(5) same_core_inv(6) [of "?s2\<lparr>nextsem := i, semtab := upd (semtab s1) i (\<lambda>e. e\<lparr>sstate := SUSED, count := 1\<rparr>)\<rparr>" s']
    by (simp add: s'_def same_core_def)
  moreover have "heap_free s' {unat (roundmb (memheap s)) ..< unat (truncmb (maxaddr s))}"
    using s1(4) by (simp add: s'_def heap_free_def minv_def)
  ultimately show ?thesis using s1(3) i(1,2) by (auto simp: s'_def goodsem)
qed

text \<open>An image of twelve threads and four semaphores, with the heap between 5000 and 200003.\<close>

definition image :: kstate where
  "image = vacant\<lparr>thrtab := replicate 12 (thrtab vacant ! 0), semtab := replicate 4 \<lparr>sstate = SFREE, count = 0, squeue = 0\<rparr>,
     quetab := replicate 24 \<lparr>qkey = 0, qnext = 0, qprev = 0\<rparr>, nextqid := 12, memheap := 5000, maxaddr := 200003, mem := (\<lambda>_. 0)\<rparr>"

theorem sysinit_boot_witness:
  "\<exists>s'. sysinit 4096 image = Some (OK, s') \<and> kinv s' \<and> heap_free s' {5000 ..< 200000}"
proof -
  have "loaded image" by (simp add: loaded_def image_def vacant_defs c_consts roundmb_def truncmb_def)
  from sysinit_boot [OF this, of 4096] show ?thesis by (auto simp: image_def roundmb_def truncmb_def)
qed

text \<open>On this image \<open>nulluser\<close> gives the processor to the main thread.\<close>

lemma nulluser_starts_main:
  "(case nulluser 0 4096 8192 4096 image of Switch t s _ \<Rightarrow> Some (t, name (thr s (thrcurrent s)), state (thr s NULLTHREAD))
     | _ \<Rightarrow> None) = Some (NULLTHREAD, ''MAIN'', THRREADY)"
  by code_simp

end
