(* ===== verification/Bufpools.thy ===== *)
theory Bufpools
  imports Semaphores Memory
begin

text \<open>
  Buffer pools: \<open>bufpool.h\<close>, \<open>bfpalloc.c\<close>, \<open>bfpfree.c\<close>, \<open>bufget.c\<close> and \<open>buffree.c\<close>.
  A pool is one heap block cut into buffers of equal size; each buffer starts with a
  \<open>struct poolbuf\<close>, whose \<open>next\<close> is at offset 0 and whose \<open>poolid\<close> is at offset 4. The
  free buffers are linked, and a semaphore counts them.
\<close>

text \<open>The limits of \<open>xinu.conf\<close>, the same on every platform.\<close>

definition POOL_MAX_BUFSIZE :: u32 where "POOL_MAX_BUFSIZE = 2048"
definition POOL_MIN_BUFSIZE :: u32 where "POOL_MIN_BUFSIZE = 8"
definition POOL_MAX_NBUFS :: u32 where "POOL_MAX_NBUFS = 8192"

definition roundword :: "u32 \<Rightarrow> u32" where "roundword b = (3 + b) AND NOT 3"

definition isbadpool :: "kstate \<Rightarrow> int \<Rightarrow> bool" where
  "isbadpool s p \<longleftrightarrow> p \<ge> NPOOL s \<or> p < 0 \<or> bfpstate (at (bfptab s) p) = BFPFREE"

abbreviation bfp_upd :: "int \<Rightarrow> (bfpentry \<Rightarrow> bfpentry) \<Rightarrow> kstate \<Rightarrow> kstate option" where
  "bfp_upd pid f s \<equiv> do { bt \<leftarrow> aupd (bfptab s) pid f; Some (s\<lparr>bfptab := bt\<rparr>) }"

text \<open>The search of \<open>bfpalloc\<close> for a free entry, from \<open>pid\<close> on.\<close>

fun bfp_scan :: "nat \<Rightarrow> int \<Rightarrow> kstate \<Rightarrow> int option" where
  "bfp_scan 0 pid s = Some pid"
| "bfp_scan (Suc n) pid s = do {
     bfpptr \<leftarrow> aget (bfptab s) pid;
     if bfpstate bfpptr = BFPFREE then Some pid else bfp_scan n (pid + 1) s }"

text \<open>The loop that links \<open>n\<close> buffers, the next of which is at \<open>bufptr\<close>.\<close>

fun bfp_carve :: "nat \<Rightarrow> int \<Rightarrow> u32 \<Rightarrow> u32 \<Rightarrow> kstate \<Rightarrow> kstate option" where
  "bfp_carve 0 pid bufsz bufptr s = Some s"
| "bfp_carve (Suc n) pid bufsz bufptr s = do {
     s \<leftarrow> st (bufptr + 4) (word_of_int pid) s;
     s \<leftarrow> st bufptr (bufptr + bufsz) s;
     bufptr \<leftarrow> ld s bufptr;
     bfp_carve n pid bufsz bufptr s }"

text \<open>
  \<open>bfpalloc\<close> once the semaphore is there: the block, its buffers, and the semaphore's units;
  without memory the semaphore and the entry are released.
\<close>

definition bfpalloc_block :: "int \<Rightarrow> u32 \<Rightarrow> u32 \<Rightarrow> u32 \<Rightarrow> kstate \<Rightarrow> int outcome" where
  "bfpalloc_block pid sm bufsz nb s =
     oget (do {
       s \<leftarrow> bfp_upd pid (\<lambda>e. e\<lparr>nbuf := nb, bufsize := bufsz\<rparr>) s;
       (bufptr, s) \<leftarrow> memget (nb * bufsz) s;
       if bufptr = USYSERR
       then do {
         (_, s) \<leftarrow> semfree sm s;
         s \<leftarrow> bfp_upd pid (bfpstate_update (\<lambda>_. BFPFREE)) s;
         Some (False, s) }
       else do {
         s \<leftarrow> bfp_upd pid (\<lambda>e. e\<lparr>bfpnext := bufptr, bfphead := bufptr\<rparr>) s;
         s \<leftarrow> bfp_carve (unat nb) pid bufsz bufptr s;
         Some (True, s) } })
     (\<lambda>(ok, s). if ok then obind (signaln sm (sint nb) s) (\<lambda>_ s. Done pid s) else Done SYSERR s)"

definition bfpalloc_setup :: "int \<Rightarrow> u32 \<Rightarrow> u32 \<Rightarrow> kstate \<Rightarrow> int outcome" where
  "bfpalloc_setup pid bufsz nb s =
     oget (do {
       (sm, s) \<leftarrow> semcreate 0 s;
       s \<leftarrow> bfp_upd pid (freebuf_update (\<lambda>_. sm)) s;
       Some (sm, s) }) (\<lambda>(sm, s).
     if sm = USYSERR
     then oget (bfp_upd pid (bfpstate_update (\<lambda>_. BFPFREE)) s) (\<lambda>s. Done SYSERR s)
     else bfpalloc_block pid sm bufsz nb s)"

definition bfpalloc :: "u32 \<Rightarrow> u32 \<Rightarrow> kstate \<Rightarrow> int outcome" where
  "bfpalloc bufsz nb s = (
     let bufsz = roundword bufsz + 8 in
     if bufsz > POOL_MAX_BUFSIZE \<or> bufsz < POOL_MIN_BUFSIZE \<or> nb > POOL_MAX_NBUFS \<or> nb < 1
     then Done SYSERR s
     else let (im, s) = disable s in
       oget (bfp_scan (length (bfptab s)) 0 s) (\<lambda>pid.
       if NPOOL s = pid then Done SYSERR (restore im s)
       else oget (bfp_upd pid (bfpstate_update (\<lambda>_. BFPUSED)) s) (\<lambda>s.
         bfpalloc_setup pid bufsz nb (restore im s))))"

definition bfpfree :: "int \<Rightarrow> kstate \<Rightarrow> (int \<times> kstate) option" where
  "bfpfree poolid s = (
     if isbadpool s poolid then Some (SYSERR, s)
     else do {
       let (im, s) = disable s;
       s \<leftarrow> bfp_upd poolid (bfpstate_update (\<lambda>_. BFPFREE)) s;
       bfpptr \<leftarrow> aget (bfptab s) poolid;
       (r, s) \<leftarrow> memfree (bfphead bfpptr) (nbuf bfpptr * bufsize bfpptr) s;
       if r = SYSERR then Some (SYSERR, restore im s)
       else do {
         (r, s) \<leftarrow> semfree (freebuf bfpptr) s;
         if r = SYSERR then Some (SYSERR, restore im s) else Some (OK, restore im s) } })"

text \<open>A buffer is handed out by the address behind its \<open>struct poolbuf\<close>; its \<open>next\<close> is then itself.\<close>

definition bufget :: "int \<Rightarrow> kstate \<Rightarrow> u32 outcome" where
  "bufget poolid s = (
     if isbadpool s poolid then Done USYSERR s
     else let (im, s) = disable s in
       obind (wait (freebuf (at (bfptab s) poolid)) s) (\<lambda>_ s.
       olift (do {
         bfpptr \<leftarrow> aget (bfptab s) poolid;
         let bufptr = bfpnext bfpptr;
         nx \<leftarrow> ld s bufptr;
         s \<leftarrow> bfp_upd poolid (bfpnext_update (\<lambda>_. nx)) s;
         s \<leftarrow> st bufptr bufptr (restore im s);
         Some (bufptr + 8, s) })))"

definition buffree :: "u32 \<Rightarrow> kstate \<Rightarrow> int outcome" where
  "buffree buffer s = (let bufptr = buffer - 8 in
     oget (ld s (bufptr + 4)) (\<lambda>w. let poolid = sint w in
     if isbadpool s poolid then Done SYSERR s
     else oget (ld s bufptr) (\<lambda>nx.
       if nx \<noteq> bufptr then Done SYSERR s
       else let (im, s) = disable s in
         oget (do {
           bfpptr \<leftarrow> aget (bfptab s) poolid;
           s \<leftarrow> st bufptr (bfpnext bfpptr) s;
           s \<leftarrow> bfp_upd poolid (bfpnext_update (\<lambda>_. bufptr)) s;
           Some (restore im s) })
         (\<lambda>s. obind (signaln (freebuf (at (bfptab s) poolid)) 1 s) (\<lambda>_ s. Done OK s)))))"

end
