(* ===== verification/Bufpool_Properties.thy ===== *)
theory Bufpool_Properties
  imports Bufpools Mailbox_Properties Lifecycle_Properties
begin

text \<open>
  A buffer pool is a stack of free buffers: allocation cuts the block completely and without
  overlap, a buffer that was taken and given back leaves the stack as it was, and giving the
  same buffer back twice is refused.
\<close>

section \<open>The buffers of a pool\<close>

abbreviation bfp :: "int \<Rightarrow> kstate \<Rightarrow> bfpentry" where
  "bfp pid s \<equiv> at (bfptab s) pid"

text \<open>The address of buffer \<open>k\<close>.\<close>

definition buf :: "bfpentry \<Rightarrow> nat \<Rightarrow> u32" where
  "buf e k = bfphead e + word_of_nat k * bufsize e"

definition pool_fits :: "kstate \<Rightarrow> bfpentry \<Rightarrow> bool" where
  "pool_fits s e \<longleftrightarrow> unat (memheap s) \<le> unat (bfphead e) \<and> 4 dvd unat (bfphead e) \<and> 4 dvd unat (bufsize e) \<and>
     8 \<le> unat (bufsize e) \<and> unat (bfphead e) + unat (nbuf e) * unat (bufsize e) \<le> unat (maxaddr s)"

text \<open>The free buffers \<open>ks\<close> are linked in this order; the last link is the end of the block.\<close>

fun chain :: "(u32 \<Rightarrow> u32) \<Rightarrow> u32 \<Rightarrow> u32 list \<Rightarrow> u32 \<Rightarrow> bool" where
  "chain m p [] e = (p = e)"
| "chain m p (b # bs) e = (p = b \<and> chain m (m b) bs e)"

definition pool_inv :: "int \<Rightarrow> kstate \<Rightarrow> nat list \<Rightarrow> bool" where
  "pool_inv pid s ks \<longleftrightarrow> inarr (bfptab s) pid \<and> NPOOL s \<le> INT_MAX \<and> (let e = bfp pid s in
     bfpstate e = BFPUSED \<and> pool_fits s e \<and> distinct ks \<and> (\<forall>k \<in> set ks. k < unat (nbuf e)) \<and>
     chain (mem s) (bfpnext e) (map (buf e) ks) (buf e (unat (nbuf e))) \<and>
     (\<forall>k < unat (nbuf e). mem s (buf e k + 4) = word_of_int pid) \<and>
     (\<forall>k < unat (nbuf e). k \<notin> set ks \<longrightarrow> mem s (buf e k) = buf e k))"

lemma unat_buf:
  assumes "pool_fits s e" "k \<le> unat (nbuf e)"
  shows "unat (buf e k) = unat (bfphead e) + k * unat (bufsize e)"
proof -
  have b: "k * unat (bufsize e) \<le> unat (nbuf e) * unat (bufsize e)"
    "unat (bfphead e) + unat (nbuf e) * unat (bufsize e) < 4294967296"
    using assms unat_lt32 [of "maxaddr s"] unfolding pool_fits_def by (simp, linarith)
  have "unat (word_of_nat k :: u32) = k" using le_less_trans [OF assms(2) unat_lt32] by (simp add: unat_of_nat)
  then have "unat (word_of_nat k * bufsize e) = k * unat (bufsize e)"
    using le_less_trans [OF b(1), of 4294967296] b(2) by (simp add: unat_word_ariths)
  then show ?thesis unfolding buf_def using b by (subst unat_add32) linarith+
qed

lemma buf_in:
  assumes "pool_fits s e" "k < unat (nbuf e)"
  shows "unat (buf e k + 4) = unat (buf e k) + 4" "heap_word s (buf e k)" "heap_word s (buf e k + 4)"
    "unat (buf e k) + unat (bufsize e) \<le> unat (maxaddr s)"
proof -
  have le: "k * unat (bufsize e) + unat (bufsize e) \<le> unat (nbuf e) * unat (bufsize e)"
    using mult_le_mono1 [of "Suc k" "unat (nbuf e)" "unat (bufsize e)"] assms(2) by simp
  note f = assms(1) [unfolded pool_fits_def] and u = unat_buf [OF assms(1), of k]
  show t: "unat (buf e k) + unat (bufsize e) \<le> unat (maxaddr s)" using f u le assms(2) by simp
  then show v: "unat (buf e k + 4) = unat (buf e k) + 4"
    using f unat_lt32 [of "maxaddr s"] unat_4 by (subst unat_add32) linarith+
  have "4 dvd unat (buf e k)" using f u assms(2) by simp
  then show "heap_word s (buf e k)" "heap_word s (buf e k + 4)" using f t u v assms(2) by (auto simp: heap_word_iff)
qed

lemma buf_apart:
  assumes "pool_fits s e" "j \<le> unat (nbuf e)" "k \<le> unat (nbuf e)"
  shows "buf e j = buf e k \<longleftrightarrow> j = k" "j < unat (nbuf e) \<Longrightarrow> buf e j + 4 \<noteq> buf e k"
    "j < unat (nbuf e) \<Longrightarrow> k < unat (nbuf e) \<Longrightarrow> buf e j + 4 = buf e k + 4 \<longleftrightarrow> j = k"
proof -
  note u = unat_buf [OF assms(1,2)] unat_buf [OF assms(1,3)]
  have pos: "8 \<le> unat (bufsize e)" using assms(1) by (simp add: pool_fits_def)
  show i: "buf e j = buf e k \<longleftrightarrow> j = k" using u pos by (auto simp: word_unat_eq_iff)
  then show "buf e j + 4 = buf e k + 4 \<longleftrightarrow> j = k" if "j < unat (nbuf e)" "k < unat (nbuf e)" by simp
  show "buf e j + 4 \<noteq> buf e k" if j: "j < unat (nbuf e)"
  proof
    assume "buf e j + 4 = buf e k"
    then have e: "j * unat (bufsize e) + 4 = k * unat (bufsize e)"
      using u buf_in(1) [OF assms(1) j] by (auto simp: word_unat_eq_iff)
    then have "unat (bufsize e) dvd 4" by (metis dvd_add_right_iff dvd_triv_right)
    then show False using pos dvd_imp_le [of "unat (bufsize e)" 4] by simp
  qed
qed

lemma buf_notin:
  assumes "pool_fits s e" "k \<le> unat (nbuf e)" "\<And>j. j \<in> set ks \<Longrightarrow> j < unat (nbuf e)" "k \<notin> set ks"
  shows "buf e k \<notin> set (map (buf e) ks)"
proof
  assume "buf e k \<in> set (map (buf e) ks)"
  then obtain j where "j \<in> set ks" "buf e k = buf e j" by auto
  then show False using assms(3) [of j] assms(4) buf_apart(1) [OF assms(1,2), of j] by auto
qed

lemma chain_upd [simp]: "b \<notin> set bs \<Longrightarrow> chain (m(b := v)) p bs e = chain m p bs e"
  by (induction bs arbitrary: p) auto

lemma pool_invD:
  assumes "pool_inv pid s ks"
  shows "inarr (bfptab s) pid" "NPOOL s \<le> INT_MAX" "bfpstate (bfp pid s) = BFPUSED" "pool_fits s (bfp pid s)" "distinct ks"
    "\<And>k. k \<in> set ks \<Longrightarrow> k < unat (nbuf (bfp pid s))"
    "chain (mem s) (bfpnext (bfp pid s)) (map (buf (bfp pid s)) ks) (buf (bfp pid s) (unat (nbuf (bfp pid s))))"
    "\<And>k. k < unat (nbuf (bfp pid s)) \<Longrightarrow> mem s (buf (bfp pid s) k + 4) = word_of_int pid"
    "\<And>k. k < unat (nbuf (bfp pid s)) \<Longrightarrow> k \<notin> set ks \<Longrightarrow> mem s (buf (bfp pid s) k) = buf (bfp pid s) k"
    "\<not> isbadpool s pid"
  using assms by (auto simp: pool_inv_def Let_def isbadpool_def inarr_def)

text \<open>A free buffer does not point to itself.\<close>

lemma chain_next:
  assumes "chain m p bs e" "distinct bs" "b \<in> set bs" "e \<notin> set bs"
  shows "m b \<noteq> b"
  using assms
proof (induction bs arbitrary: p)
  case (Cons c cs)
  show ?case
  proof (cases "b = c")
    case True
    then show ?thesis using Cons.prems by (cases cs) auto
  qed (use Cons in auto)
qed simp

lemma buf_cong: "bfphead e' = bfphead e \<Longrightarrow> bufsize e' = bufsize e \<Longrightarrow> buf e' = buf e"
  by (simp add: buf_def fun_eq_iff)

lemma pool_next:
  assumes "pool_inv pid s ks" "k \<in> set ks"
  shows "mem s (buf (bfp pid s) k) \<noteq> buf (bfp pid s) k"
proof (rule chain_next [OF pool_invD(7) [OF assms(1)]])
  note D = pool_invD [OF assms(1)]
  have le: "j \<le> unat (nbuf (bfp pid s))" if "j \<in> set ks" for j using D(6) [OF that] by simp
  show "distinct (map (buf (bfp pid s)) ks)"
    using D(5) le buf_apart(1) [OF D(4)] unfolding distinct_map inj_on_def by blast
  show "buf (bfp pid s) (unat (nbuf (bfp pid s))) \<notin> set (map (buf (bfp pid s)) ks)"
    using D(6) by (intro buf_notin [OF D(4)]) auto
qed (use assms(2) in auto)

section \<open>Taking and giving back\<close>

definition popped :: "int \<Rightarrow> nat \<Rightarrow> kstate \<Rightarrow> kstate" where
  "popped pid k s = s\<lparr>bfptab := upd (bfptab s) pid (bfpnext_update (\<lambda>_. mem s (buf (bfp pid s) k))),
     mem := (mem s)(buf (bfp pid s) k := buf (bfp pid s) k)\<rparr>"

definition pushed :: "int \<Rightarrow> nat \<Rightarrow> kstate \<Rightarrow> kstate" where
  "pushed pid k s = s\<lparr>mem := (mem s)(buf (bfp pid s) k := bfpnext (bfp pid s)),
     bfptab := upd (bfptab s) pid (bfpnext_update (\<lambda>_. buf (bfp pid s) k))\<rparr>"

lemma pool_popped:
  assumes "pool_inv pid s (k # ks)"
  shows "pool_inv pid (popped pid k s) ks"
proof -
  note D = pool_invD [OF assms]
  let ?e = "bfp pid s" and ?n = "unat (nbuf (bfp pid s))"
  have k: "k < ?n" using D(6) by simp
  have e': "bfp pid (popped pid k s) = ?e\<lparr>bfpnext := mem s (buf ?e k)\<rparr>" using D(1) by (simp add: popped_def)
  have b: "buf (?e\<lparr>bfpnext := x\<rparr>) = buf ?e" for x by (rule buf_cong) simp_all
  have "buf ?e k \<notin> set (map (buf ?e) ks)" using D(5) D(6) [OF list.set_intros(2)] k
    by (intro buf_notin [OF D(4)]) auto
  moreover have "buf ?e j + 4 \<noteq> buf ?e k" if "j < ?n" for j using buf_apart(2) [OF D(4), of j k] that k by simp
  ultimately show ?thesis using D unfolding pool_inv_def Let_def e' b
    by (simp add: popped_def pool_fits_def) (metis D(4) buf_apart(1) k less_imp_le)
qed

lemma pool_pushed:
  assumes "pool_inv pid s ks" "k < unat (nbuf (bfp pid s))" "k \<notin> set ks"
  shows "pool_inv pid (pushed pid k s) (k # ks)"
proof -
  note D = pool_invD [OF assms(1)]
  let ?e = "bfp pid s" and ?n = "unat (nbuf (bfp pid s))"
  have e': "bfp pid (pushed pid k s) = ?e\<lparr>bfpnext := buf ?e k\<rparr>" using D(1) by (simp add: pushed_def)
  have b: "buf (?e\<lparr>bfpnext := x\<rparr>) = buf ?e" for x by (rule buf_cong) simp_all
  have "buf ?e k \<notin> set (map (buf ?e) ks)" using D(6) assms(2,3) by (intro buf_notin [OF D(4)]) auto
  moreover have "buf ?e j + 4 \<noteq> buf ?e k" if "j < ?n" for j using buf_apart(2) [OF D(4), of j k] that assms(2) by simp
  moreover have "mem s (buf ?e j) = buf ?e j \<and> buf ?e j \<noteq> buf ?e k" if "j < ?n" "j \<noteq> k" "j \<notin> set ks" for j
    using D(9) that buf_apart(1) [OF D(4), of j k] assms(2) by simp
  ultimately show ?thesis using D(1-8) assms(2,3) unfolding pool_inv_def Let_def e' b
    by (auto simp: pushed_def pool_fits_def)
qed

lemma bufget_pool:
  assumes "kinv s" "pool_inv pid s (k # ks)" "\<not> isbadsem s (freebuf (bfp pid s))" "0 < semcnt s (freebuf (bfp pid s))"
  defines "s1 \<equiv> s\<lparr>semtab := upd (semtab s) (uidx (freebuf (bfp pid s))) (count_update (\<lambda>c. c - 1))\<rparr>"
  shows "bufget pid s = Done (buf (bfp pid s) k + 8) (popped pid k s1)" "kinv s1" "pool_inv pid s1 (k # ks)"
proof -
  note D = pool_invD [OF assms(2)]
  let ?e = "bfp pid s"
  have w: "wait (freebuf ?e) (s\<lparr>irq := False\<rparr>) = Done OK (s1\<lparr>irq := False\<rparr>)" "kinv s1"
    using wait_pass [of "s\<lparr>irq := False\<rparr>" "freebuf ?e"] wait_pass [of s "freebuf ?e"] assms(1,3,4) by (simp_all add: s1_def)
  have k: "k < unat (nbuf ?e)" using D(6) by simp
  have nx: "bfpnext ?e = buf ?e k" using D(7) by simp
  have hw: "heap_word s (buf ?e k)" using buf_in(2) [OF D(4) k] .
  have f: "irq s1 = irq s" "bfptab s1 = bfptab s" "mem s1 = mem s" "memheap s1 = memheap s" "maxaddr s1 = maxaddr s"
    by (simp_all add: s1_def)
  have "bufget pid s = Done (buf ?e k + 8) (s1\<lparr>irq := False, bfptab := upd (bfptab s) pid (bfpnext_update (\<lambda>_. mem s (buf ?e k))),
      irq := irq s, mem := (mem s)(buf ?e k := buf ?e k)\<rparr>)"
    using D(1,10) w(1) nx hw f
    by (simp add: bufget_def disable_def restore_def ld_def st_def heap_word_def Let_def)
  then show "bufget pid s = Done (buf ?e k + 8) (popped pid k s1)"
    using f by (simp add: popped_def kstate.equality)
  show "kinv s1" by (rule w(2))
  show "pool_inv pid s1 (k # ks)" using assms(2) by (simp add: pool_inv_def s1_def pool_fits_def Let_def)
qed

lemma buffree_pool:
  assumes "pool_inv pid s ks" "k < unat (nbuf (bfp pid s))"
  shows "buffree (buf (bfp pid s) k + 8) s =
    (if k \<in> set ks then Done SYSERR s
     else obind (signaln (freebuf (bfp pid s)) 1 (pushed pid k s)) (\<lambda>_ s. Done OK s))"
proof -
  note D = pool_invD [OF assms(1)]
  let ?e = "bfp pid s"
  have hw: "heap_word s (buf ?e k)" "heap_word s (buf ?e k + 4)" using buf_in(2,3) [OF D(4) assms(2)] .
  have "sint (word_of_int pid :: u32) = pid"
    using D(1,2) by (intro sint_msg) (auto simp: is_msg_def inarr_def c_consts)
  then show ?thesis using D(1,8,9,10) hw assms(2) pool_next [OF assms(1), of k]
    by (simp add: buffree_def ld_def st_def disable_def restore_def pushed_def heap_word_def Let_def)
qed

text \<open>
  C27. A pool is a stack of buffers. \<open>bufget\<close> with a unit of the semaphore takes the first free
  buffer and only it; giving it back puts it on top again, so that the pool is as before; giving
  it back a second time is refused and changes nothing.
\<close>

theorem bufpool_roundtrip:
  assumes "kinv s" "pool_inv pid s (k # ks)" "\<not> isbadsem s (freebuf (bfp pid s))" "0 < semcnt s (freebuf (bfp pid s))"
  shows "\<exists>b s1 s2. bufget pid s = Done (b + 8) s1 \<and> b = buf (bfp pid s) k \<and> kinv s1 \<and> pool_inv pid s1 ks \<and>
    buffree (b + 8) s1 = obind (signaln (freebuf (bfp pid s)) 1 s2) (\<lambda>_ s. Done OK s) \<and> kinv s2 \<and> pool_inv pid s2 (k # ks) \<and>
    buffree (b + 8) s2 = Done SYSERR s2 \<and>
    bfptab s2 = bfptab s \<and> mem s2 = mem s"
proof -
  let ?e = "bfp pid s"
  define s0 where "s0 = s\<lparr>semtab := upd (semtab s) (uidx (freebuf ?e)) (count_update (\<lambda>c. c - 1))\<rparr>"
  note g = bufget_pool [OF assms, folded s0_def]
  let ?s1 = "popped pid k s0" and ?s2 = "pushed pid k (popped pid k s0)"
  note D = pool_invD [OF g(3)]
  have e: "bfp pid s0 = ?e" "bfp pid ?s1 = ?e\<lparr>bfpnext := mem s (buf ?e k)\<rparr>" using D(1) by (simp_all add: s0_def popped_def)
  have b: "buf (?e\<lparr>bfpnext := x\<rparr>) = buf ?e" for x by (rule buf_cong) simp_all
  have k: "k < unat (nbuf (bfp pid ?s1))" "k \<notin> set ks" using D(5,6) e by auto
  note p1 = pool_popped [OF g(3)] and p2 = pool_pushed [OF pool_popped [OF g(3)] k]
  have nx: "bfpnext ?e = buf ?e k" using pool_invD(7) [OF assms(2)] by simp
  have core: "kinv ?s1 = kinv s0" "kinv ?s2 = kinv s0"
    using same_core_inv(6) [of s0 ?s1] same_core_inv(6) [of s0 ?s2] by (simp_all add: same_core_def popped_def pushed_def)
  have "bfptab ?s2 = bfptab s" "mem ?s2 = mem s"
    using D(1) nx e b by (auto simp: pushed_def popped_def s0_def fun_eq_iff intro!: at_eqI simp: at_upd)
  moreover from this have "bfp pid ?s2 = ?e" by simp
  ultimately show ?thesis
    using g(1,2) p1 p2 core buffree_pool [OF p1 k(1)] buffree_pool [OF p2, of k] k e b by auto
qed

section \<open>Allocation\<close>

lemma bfp_scan_free:
  assumes "inarr (bfptab s) j" "bfpstate (bfp j s) = BFPFREE" "0 \<le> i" "i \<le> j" "i + int n = NPOOL s"
  shows "\<exists>pid. bfp_scan n i s = Some pid \<and> inarr (bfptab s) pid \<and> bfpstate (bfp pid s) = BFPFREE"
  using assms
proof (induction n arbitrary: i)
  case 0
  then show ?case by (simp add: inarr_def)
next
  case (Suc n)
  have i: "inarr (bfptab s) i" using Suc.prems by (simp add: inarr_def)
  show ?case
  proof (cases "bfpstate (bfp i s) = BFPFREE")
    case False
    then have "i + 1 \<le> j" using Suc.prems by (cases "i = j") auto
    then show ?thesis using Suc.IH [of "i + 1"] Suc.prems i False by auto
  qed (use i in auto)
qed

lemma buf_Suc: "buf e (Suc k) = buf e k + bufsize e"
  by (simp add: buf_def algebra_simps)

lemma bfp_carve_ok:
  assumes "pool_fits s e" "k + n = unat (nbuf e)"
  shows "\<exists>m. bfp_carve n pid (bufsize e) (buf e k) s = Some (s\<lparr>mem := m\<rparr>) \<and>
    chain m (buf e k) (map (buf e) [k..<unat (nbuf e)]) (buf e (unat (nbuf e))) \<and>
    (\<forall>j. k \<le> j \<and> j < unat (nbuf e) \<longrightarrow> m (buf e j + 4) = word_of_int pid) \<and>
    (\<forall>x. unat x < unat (buf e k) \<or> unat (buf e (unat (nbuf e))) \<le> unat x \<longrightarrow> m x = mem s x)"
  using assms
proof (induction n arbitrary: k s)
  case 0
  then show ?case by (intro exI [of _ "mem s"]) auto
next
  case (Suc n)
  let ?n = "unat (nbuf e)"
  have k: "k < ?n" using Suc.prems(2) by simp
  note b = buf_in [OF Suc.prems(1) k]
  define s1 where "s1 = s\<lparr>mem := (mem s)(buf e k + 4 := word_of_int pid, buf e k := buf e (Suc k))\<rparr>"
  have f: "pool_fits s1 e" using Suc.prems(1) by (simp add: s1_def pool_fits_def)
  obtain m where m: "bfp_carve n pid (bufsize e) (buf e (Suc k)) s1 = Some (s1\<lparr>mem := m\<rparr>)"
      "chain m (buf e (Suc k)) (map (buf e) [Suc k..<?n]) (buf e ?n)"
      "\<forall>j. Suc k \<le> j \<and> j < ?n \<longrightarrow> m (buf e j + 4) = word_of_int pid"
      "\<forall>x. unat x < unat (buf e (Suc k)) \<or> unat (buf e ?n) \<le> unat x \<longrightarrow> m x = mem s1 x"
    using Suc.IH [OF f, of "Suc k"] Suc.prems(2) by auto
  have u: "unat (buf e (Suc k)) = unat (buf e k) + unat (bufsize e)" "unat (buf e (Suc k)) \<le> unat (buf e ?n)" "8 \<le> unat (bufsize e)"
    using unat_buf [OF Suc.prems(1)] k f mult_le_mono1 [of "Suc k" ?n "unat (bufsize e)"] by (auto simp: pool_fits_def)
  have at_k: "m (buf e k) = buf e (Suc k)" "m (buf e k + 4) = word_of_int pid"
    using m(4) u b(1) by (auto simp: s1_def)
  have "bfp_carve (Suc n) pid (bufsize e) (buf e k) s = Some (s\<lparr>mem := m\<rparr>)"
    using b(2,3) m(1) by (simp add: st_def ld_def heap_word_def buf_Suc [symmetric] s1_def)
  moreover have "[k..<?n] = k # [Suc k..<?n]" using k by (rule upt_conv_Cons)
  then have "chain m (buf e k) (map (buf e) [k..<?n]) (buf e ?n)" using at_k(1) m(2) by simp
  moreover have "m (buf e j + 4) = word_of_int pid" if "k \<le> j" "j < ?n" for j
    using that m(3) at_k(2) by (cases "j = k") auto
  moreover have "m x = mem s x" if "unat x < unat (buf e k) \<or> unat (buf e ?n) \<le> unat x" for x
    using m(4) u that b(1) by (auto simp: s1_def)
  ultimately show ?case by blast
qed

lemma dvd4_wrap: "4 dvd unat (a :: u32) \<Longrightarrow> 4 dvd unat b \<Longrightarrow> 4 dvd unat (a + b)"
  by (simp add: unat_word_ariths dvd_mod)

lemma roundword_aligned: "4 dvd unat (roundword b)"
  by (simp add: roundword_def and_3_eq_0 [symmetric] and.assoc)

text \<open>The sizes that \<open>bfpalloc\<close> accepts, for the rounded size with the header.\<close>

lemma pool_sizes:
  assumes "\<not> z > POOL_MAX_BUFSIZE" "\<not> z < POOL_MIN_BUFSIZE" "\<not> nb > POOL_MAX_NBUFS" "\<not> nb < 1"
  shows "8 \<le> unat z" "unat z \<le> 2048" "0 < unat nb" "unat nb \<le> 8192" "unat (nb * z) = unat nb * unat z" "fair (nb * z)"
    "sint nb = int (unat nb)" "unat nb * unat z \<le> unat (roundmb (nb * z))"
proof -
  show a: "8 \<le> unat z" "unat z \<le> 2048" "0 < unat nb" "unat nb \<le> 8192"
    using assms by (auto simp: POOL_MAX_BUFSIZE_def POOL_MIN_BUFSIZE_def POOL_MAX_NBUFS_def word_less_nat_alt word_le_nat_alt not_less)
  have le: "unat nb * unat z \<le> 8192 * 2048" using mult_le_mono [OF a(4,2)] .
  then show u: "unat (nb * z) = unat nb * unat z" by (simp add: unat_word_ariths)
  have "0 < unat nb * unat z" using a by simp
  then show "fair (nb * z)" using u le by (auto simp: fair_def unat_eq_0 [symmetric])
  show "sint nb = int (unat nb)" using a by (intro sint_small) simp
  show "unat nb * unat z \<le> unat (roundmb (nb * z))" using unat_roundmb [of "nb * z"] u le by simp
qed

text \<open>The new pool, once the block is there.\<close>

lemma new_pool:
  assumes fits: "inarr (bfptab s) pid" "NPOOL s \<le> INT_MAX" "bfpstate (bfp pid s) = BFPUSED" "pool_fits s (bfp pid s)"
    and head: "bfpnext (bfp pid s) = bfphead (bfp pid s)"
  shows "\<exists>m. bfp_carve (unat (nbuf (bfp pid s))) pid (bufsize (bfp pid s)) (bfphead (bfp pid s)) s = Some (s\<lparr>mem := m\<rparr>) \<and>
    pool_inv pid (s\<lparr>mem := m\<rparr>) [0..<unat (nbuf (bfp pid s))] \<and>
    (\<forall>x. unat x < unat (bfphead (bfp pid s)) \<or> unat (bfphead (bfp pid s)) + unat (nbuf (bfp pid s)) * unat (bufsize (bfp pid s)) \<le> unat x
       \<longrightarrow> m x = mem s x)"
proof -
  let ?e = "bfp pid s"
  have h: "buf ?e 0 = bfphead ?e" by (simp add: buf_def)
  from bfp_carve_ok [OF fits(4), of 0 "unat (nbuf ?e)" pid]
  obtain m where "bfp_carve (unat (nbuf ?e)) pid (bufsize ?e) (bfphead ?e) s = Some (s\<lparr>mem := m\<rparr>)"
    "chain m (bfphead ?e) (map (buf ?e) [0..<unat (nbuf ?e)]) (buf ?e (unat (nbuf ?e)))"
    "\<forall>j. 0 \<le> j \<and> j < unat (nbuf ?e) \<longrightarrow> m (buf ?e j + 4) = word_of_int pid"
    "\<forall>x. unat x < unat (bfphead ?e) \<or> unat (buf ?e (unat (nbuf ?e))) \<le> unat x \<longrightarrow> m x = mem s x"
    unfolding h by auto
  then show ?thesis using fits head unat_buf [OF fits(4), of "unat (nbuf ?e)"]
    by (intro exI [of _ m]) (auto simp: pool_inv_def Let_def pool_fits_def)
qed

lemma bfpalloc_block_ok:
  fixes z nb :: u32
  assumes sz: "\<not> z > POOL_MAX_BUFSIZE" "\<not> z < POOL_MIN_BUFSIZE" "\<not> nb > POOL_MAX_NBUFS" "\<not> nb < 1" "4 dvd unat z"
    and s: "kinv s" "heap_free s F" "inarr (bfptab s) pid" "NPOOL s \<le> INT_MAX" "bfpstate (bfp pid s) = BFPUSED" "\<not> isbadsem s sm"
  defines "R \<equiv> roundmb (nb * z)"
  shows "(\<exists>s'. bfpalloc_block pid sm z nb s = Done SYSERR s' \<and> kinv s' \<and> heap_free s' F \<and> mem s' = mem s) \<or>
    (\<exists>s1. bfpalloc_block pid sm z nb s = obind (signaln sm (int (unat nb)) s1) (\<lambda>_ s. Done pid s) \<and>
      kinv s1 \<and> pool_inv pid s1 [0..<unat nb] \<and> bufsize (bfp pid s1) = z \<and> nbuf (bfp pid s1) = nb \<and> freebuf (bfp pid s1) = freebuf (bfp pid s) \<and>
      blk_bytes (bfphead (bfp pid s1)) R \<subseteq> F \<and> heap_free s1 (F - blk_bytes (bfphead (bfp pid s1)) R) \<and>
      (\<forall>x. unat x \<notin> F \<longrightarrow> mem s1 x = mem s x) \<and> semtab s1 = semtab s)"
proof -
  note z = pool_sizes [OF sz(1-4)]
  let ?f = "\<lambda>e. e\<lparr>nbuf := nb, bufsize := z\<rparr>"
  define s1 where "s1 = s\<lparr>bfptab := upd (bfptab s) pid ?f\<rparr>"
  have k1: "kinv s1" using s(1) same_core_inv(6) [of s s1] by (simp add: s1_def same_core_def)
  have h1: "heap_free s1 F" using s(2) by (simp add: s1_def heap_free_def minv_def)
  have g1: "\<not> isbadsem s1 sm" using s(6) by (simp add: goodsem s1_def)
  from memget_alloc [OF h1 z(6), folded R_def] show ?thesis
  proof (elim disjE exE conjE)
    assume none: "memget (nb * z) s1 = Some (USYSERR, s1)"
    obtain qs where "kinv_qs s1 qs" "running s1" using k1 by (elim kinvE)
    from semfree_ok [OF this g1] obtain s2 qs2 where s2: "semfree sm s1 = Some (OK, s2)" "kinv_qs s2 qs2" "running s2"
        "\<exists>qt tt st. s2 = s1\<lparr>quetab := qt, thrtab := tt, semtab := st\<rparr>"
      by blast
    then have f: "bfptab s2 = bfptab s1" "mem s2 = mem s" "heap_free s2 F" using h1 by (auto simp: s1_def heap_free_def minv_def)
    let ?s3 = "s2\<lparr>bfptab := upd (bfptab s1) pid (bfpstate_update (\<lambda>_. BFPFREE))\<rparr>"
    have "bfpalloc_block pid sm z nb s = Done SYSERR ?s3"
      using s(3) none s2(1) f(1) by (simp add: bfpalloc_block_def s1_def)
    moreover have "kinv ?s3" using kinvI [OF s2(2,3)] same_core_inv(6) [of s2 ?s3] by (simp add: same_core_def)
    moreover have "heap_free ?s3 F" using f(3) by (simp add: heap_free_def minv_def)
    ultimately show ?thesis using f(2) by auto
  next
    fix p s2
    assume p: "memget (nb * z) s1 = Some (p, s2)" "p \<noteq> USYSERR" "in_heap s1 p R" "blk_bytes p R \<subseteq> F"
      "heap_free s2 (F - blk_bytes p R)" "only_heap s1 s2" "\<forall>x. unat x \<notin> F \<longrightarrow> mem s2 x = mem s1 x"
    have e2: "bfptab s2 = bfptab s1" "semtab s2 = semtab s" "memheap s2 = memheap s" "maxaddr s2 = maxaddr s"
      using p(6) by (auto simp: only_heap_def s1_def)
    define s3 where "s3 = s2\<lparr>bfptab := upd (bfptab s) pid (\<lambda>e. (?f e)\<lparr>bfpnext := p, bfphead := p\<rparr>)\<rparr>"
    have e3: "bfp pid s3 = (?f (bfp pid s))\<lparr>bfpnext := p, bfphead := p\<rparr>" using s(3) by (simp add: s3_def)
    have Rz: "unat nb * unat z \<le> unat R" using z(8) by (simp add: R_def)
    have "4 dvd unat p" using p(3) by (auto simp: in_heap_def elim!: dvdE)
    then have "pool_fits s3 (bfp pid s3)"
      using p(3) z(1,5) Rz sz(5) e2 unfolding e3 by (auto simp: pool_fits_def in_heap_def s3_def s1_def)
    from new_pool [OF _ _ _ this] obtain m where m: "bfp_carve (unat nb) pid z p s3 = Some (s3\<lparr>mem := m\<rparr>)"
        "pool_inv pid (s3\<lparr>mem := m\<rparr>) [0..<unat nb]" "\<forall>x. unat x < unat p \<or> unat p + unat nb * unat z \<le> unat x \<longrightarrow> m x = mem s2 x"
      using s(3-5) e3 by (auto simp: s3_def)
    define s4 where "s4 = s3\<lparr>mem := m\<rparr>"
    have "bfpalloc_block pid sm z nb s = obind (signaln sm (int (unat nb)) s4) (\<lambda>_ s. Done pid s)"
      using s(3) p(1,2) m(1) e2(1) z(7) by (simp add: bfpalloc_block_def s1_def s3_def s4_def)
    moreover have "kinv s4" using kinv_only_heap [OF p(6) k1] same_core_inv(6) [of s2 s4] by (simp add: same_core_def s4_def s3_def)
    moreover have out: "m x = mem s2 x" if "unat x \<notin> blk_bytes p R" for x
      using m(3) that Rz by (auto simp: blk_bytes_def)
    then have "heap_free s4 (F - blk_bytes p R)"
      by (intro heap_free_outside [OF p(5)]) (auto simp: s4_def s3_def)
    moreover have "mem s4 x = mem s x" if "unat x \<notin> F" for x using out [of x] p(4,7) that by (auto simp: s4_def s1_def)
    moreover have "bfp pid s4 = bfp pid s3" "semtab s4 = semtab s" "pool_inv pid s4 [0..<unat nb]"
      using m(2) e2(2) by (simp_all add: s4_def s3_def)
    ultimately show ?thesis using p(4) by (intro disjI2 exI [of _ s4]) (simp add: e3)
  qed
qed

text \<open>
  C26. \<open>bfpalloc\<close> with an acceptable size, a free entry and a free semaphore either finds no memory
  and leaves the heap as it was, or returns a pool whose buffers are all free: they lie in one
  block that was free before, do not overlap, and carry the pool's identifier. The
  semaphore then gets one unit for each buffer.
\<close>

theorem bfpalloc_correct:
  fixes bufsz nb :: u32
  assumes inv: "kinv s" "heap_free s F" "inarr (bfptab s) j" "bfpstate (bfp j s) = BFPFREE" "NPOOL s \<le> INT_MAX"
    and sm: "inarr (semtab s) i" "sstate (at (semtab s) i) = SFREE"
    and sz: "\<not> z > POOL_MAX_BUFSIZE" "\<not> z < POOL_MIN_BUFSIZE" "\<not> nb > POOL_MAX_NBUFS" "\<not> nb < 1" "z = roundword bufsz + 8"
  shows "(\<exists>s'. bfpalloc bufsz nb s = Done SYSERR s' \<and> kinv s' \<and> heap_free s' F \<and> mem s' = mem s) \<or>
    (\<exists>pid s1. bfpalloc bufsz nb s = obind (signaln (freebuf (bfp pid s1)) (int (unat nb)) s1) (\<lambda>_ s. Done pid s) \<and>
      inarr (bfptab s) pid \<and> bfpstate (bfp pid s) = BFPFREE \<and> kinv s1 \<and> pool_inv pid s1 [0..<unat nb] \<and> bufsize (bfp pid s1) = z \<and> nbuf (bfp pid s1) = nb \<and>
      blk_bytes (bfphead (bfp pid s1)) (roundmb (nb * z)) \<subseteq> F \<and> heap_free s1 (F - blk_bytes (bfphead (bfp pid s1)) (roundmb (nb * z))) \<and>
      (\<forall>x. unat x \<notin> F \<longrightarrow> mem s1 x = mem s x) \<and>
      \<not> isbadsem s1 (freebuf (bfp pid s1)) \<and> semcnt s1 (freebuf (bfp pid s1)) = 0)"
proof -
  obtain pid where pid: "bfp_scan (length (bfptab s)) 0 s = Some pid" "inarr (bfptab s) pid" "bfpstate (bfp pid s) = BFPFREE"
    using bfp_scan_free [OF inv(3,4), of 0 "length (bfptab s)"] inv(3) by (auto simp: inarr_def)
  let ?s0 = "s\<lparr>bfptab := upd (bfptab s) pid (bfpstate_update (\<lambda>_. BFPUSED))\<rparr>"
  have irq: "bfp_scan n k (s\<lparr>irq := b\<rparr>) = bfp_scan n k s" for n k b
    by (induction n arbitrary: k) (auto cong: if_cong)
  have bfp: "bfpalloc bufsz nb s = bfpalloc_setup pid z nb ?s0"
    using sz pid irq by (auto simp: bfpalloc_def disable_def restore_def inarr_def)
  have k0: "kinv ?s0" using inv(1) same_core_inv(6) [of s ?s0] by (simp add: same_core_def)
  obtain c where c: "inarr (semtab s) c" "uidx (word_of_int c) = c" "USYSERR \<noteq> word_of_int c"
      "semcreate 0 ?s0 = Some (word_of_int c, ?s0\<lparr>nextsem := c, semtab := upd (semtab s) c (\<lambda>e. e\<lparr>sstate := SUSED, count := 0\<rparr>)\<rparr>)"
      "kinv (?s0\<lparr>nextsem := c, semtab := upd (semtab s) c (\<lambda>e. e\<lparr>sstate := SUSED, count := 0\<rparr>)\<rparr>)"
    using semcreate_other [OF k0, of 0 i] sm by (auto simp: c_consts)
  define s1 where "s1 = s\<lparr>nextsem := c, semtab := upd (semtab s) c (\<lambda>e. e\<lparr>sstate := SUSED, count := 0\<rparr>),
    bfptab := upd (bfptab s) pid (\<lambda>e. e\<lparr>bfpstate := BFPUSED, freebuf := word_of_int c\<rparr>)\<rparr>"
  have k1: "kinv s1" using c(5) same_core_inv(6) [of "?s0\<lparr>nextsem := c, semtab := upd (semtab s) c (\<lambda>e. e\<lparr>sstate := SUSED, count := 0\<rparr>)\<rparr>" s1]
    by (simp add: s1_def same_core_def)
  have eq: "bfpalloc bufsz nb s = bfpalloc_block pid (word_of_int c) z nb s1"
    using pid(2) c unfolding bfp by (auto simp: bfpalloc_setup_def s1_def)
  have "heap_free s1 F" "inarr (bfptab s1) pid" "NPOOL s1 \<le> INT_MAX" "bfpstate (bfp pid s1) = BFPUSED" "\<not> isbadsem s1 (word_of_int c)"
    using inv(2,5) pid(2) c(1,2) by (simp_all add: s1_def heap_free_def minv_def goodsem)
  moreover have "4 dvd unat z" unfolding sz(5) by (rule dvd4_wrap [OF roundword_aligned]) simp
  ultimately have "heap_free s1 F" "inarr (bfptab s1) pid" "NPOOL s1 \<le> INT_MAX" "bfpstate (bfp pid s1) = BFPUSED"
    "\<not> isbadsem s1 (word_of_int c)" "4 dvd unat z" by simp_all
  from bfpalloc_block_ok [OF sz(1-4) this(6) k1 this(1-5)]
  show ?thesis
  proof (elim disjE exE conjE)
    fix s2
    assume s2: "bfpalloc_block pid (word_of_int c) z nb s1 = obind (signaln (word_of_int c) (int (unat nb)) s2) (\<lambda>_ s. Done pid s)"
      "kinv s2" "pool_inv pid s2 [0..<unat nb]" "bufsize (bfp pid s2) = z" "nbuf (bfp pid s2) = nb" "freebuf (bfp pid s2) = freebuf (bfp pid s1)"
      "blk_bytes (bfphead (bfp pid s2)) (roundmb (nb * z)) \<subseteq> F" "heap_free s2 (F - blk_bytes (bfphead (bfp pid s2)) (roundmb (nb * z)))"
      "\<forall>x. unat x \<notin> F \<longrightarrow> mem s2 x = mem s1 x" "semtab s2 = semtab s1"
    have "freebuf (bfp pid s1) = word_of_int c" "mem s1 = mem s" "semtab s1 = upd (semtab s) c (\<lambda>e. e\<lparr>sstate := SUSED, count := 0\<rparr>)"
      using pid(2) by (simp_all add: s1_def)
    with s2 show ?thesis using pid(2,3) c(1,2) unfolding eq
      by (intro disjI2 exI [of _ pid] exI [of _ s2]) (simp add: goodsem)
  qed (auto simp: eq s1_def)
qed

theorem bfpalloc_correct_witness:
  "\<exists>s1. bfpalloc 6 3 roomy = obind (signaln (freebuf (bfp 0 s1)) 3 s1) (\<lambda>_ s. Done 0 s) \<and> kinv s1 \<and> pool_inv 0 s1 [0, 1, 2]"
proof -
  have "inarr (bfptab roomy) 0" "bfpstate (bfp 0 roomy) = BFPFREE" "NPOOL roomy \<le> INT_MAX" "inarr (semtab roomy) 1"
    "sstate (at (semtab roomy) 1) = SFREE" "\<not> (16 :: u32) > POOL_MAX_BUFSIZE" "\<not> (16 :: u32) < POOL_MIN_BUFSIZE"
    "\<not> (3 :: u32) > POOL_MAX_NBUFS" "\<not> (3 :: u32) < 1" "16 = roundword 6 + 8"
    by (simp_all add: roomy_defs inarr_def c_consts POOL_MAX_BUFSIZE_def POOL_MIN_BUFSIZE_def POOL_MAX_NBUFS_def roundword_def)
  note r = bfpalloc_correct [OF roomy_kinv roomy_heap this]
  have "case bfpalloc 6 3 roomy of Done v _ \<Rightarrow> v \<noteq> SYSERR | _ \<Rightarrow> True" by code_simp
  then have n: "bfpalloc 6 3 roomy \<noteq> Done SYSERR s'" for s' by auto
  have i: "inarr (bfptab roomy) pid \<Longrightarrow> pid = 0" for pid by (auto simp: inarr_def roomy_defs)
  have "int (unat (3 :: u32)) = 3" "[0..<unat (3 :: u32)] = [0, 1, 2]" by (simp_all add: upt_rec)
  with r show ?thesis
    by (elim disjE exE conjE) (use n in blast, use i in metis)
qed

section \<open>A concrete pool\<close>

text \<open>A pool of three buffers of 16 bytes, of which the second is in use.\<close>

definition pooled :: kstate where
  "pooled = roomy\<lparr>bfptab := [\<lparr>bfpstate = BFPUSED, bufsize = 16, nbuf = 3, bfphead = 8200, bfpnext = 8200, freebuf = 0\<rparr>],
     mem := (mem roomy)(8200 := 8232, 8216 := 8216, 8232 := 8248)\<rparr>"

lemma all_less_3: "(\<forall>k < (3 :: nat). P k) \<longleftrightarrow> P 0 \<and> P 1 \<and> P 2"
  by (auto simp: less_Suc_eq eval_nat_numeral)

lemma pooled_inv: "kinv pooled" "pool_inv 0 pooled [0, 2]"
proof -
  show "kinv pooled" using roomy_kinv same_core_inv(6) [of roomy pooled] by (simp add: pooled_def same_core_def)
  show "pool_inv 0 pooled [0, 2]"
    by (simp add: pool_inv_def Let_def pooled_def roomy_defs inarr_def c_consts pool_fits_def buf_def all_less_3)
qed

theorem bufpool_roundtrip_witness:
  "\<exists>s1 s2. bufget 0 pooled = Done 8208 s1 \<and> pool_inv 0 s1 [2] \<and> buffree 8208 s1 = obind (signaln 0 1 s2) (\<lambda>_ s. Done OK s) \<and>
    pool_inv 0 s2 [0, 2] \<and> buffree 8208 s2 = Done SYSERR s2"
proof -
  have "\<not> isbadsem pooled (freebuf (bfp 0 pooled))" "0 < semcnt pooled (freebuf (bfp 0 pooled))"
    "buf (bfp 0 pooled) 0 = 8200" "freebuf (bfp 0 pooled) = 0"
    by (simp_all add: pooled_def roomy_defs isbadsem_def uidx_def buf_def)
  with bufpool_roundtrip [OF pooled_inv] show ?thesis by auto
qed

end
