(* ===== verification/Futures.thy ===== *)
theory Futures
  imports Threads Memory
begin

text \<open>
  Futures: \<open>future.h\<close> and \<open>future_alloc.c\<close>, \<open>future_free.c\<close>, \<open>future_wait.c\<close>,
  \<open>future_signal.c\<close>, \<open>future_set.c\<close> and \<open>future_get.c\<close>. A \<open>struct futent\<close> is a heap
  block; its fields are the words \<open>value\<close>, \<open>flag\<close>, \<open>state\<close>, \<open>tid\<close>, \<open>set_queue\<close> and
  \<open>get_queue\<close>, in this order. The diagnostics printed by \<open>future_alloc\<close> are console output.

  Two of the operations repeat work after other threads have run: the loop of a shared future's
  signal, and the recursion of \<open>future_get\<close> on a queued one. Whether they end depends on those
  threads, so both take fuel, and running out of it is \<open>Fault\<close>.
\<close>

definition FUTURE_EMPTY :: int where "FUTURE_EMPTY = 0"
definition FUTURE_WAITING :: int where "FUTURE_WAITING = 1"
definition FUTURE_VALID :: int where "FUTURE_VALID = 2"
definition FUTURE_EXCLUSIVE :: int where "FUTURE_EXCLUSIVE = 1"
definition FUTURE_SHARED :: int where "FUTURE_SHARED = 2"
definition FUTURE_QUEUE :: int where "FUTURE_QUEUE = 3"

lemmas [c_consts] = FUTURE_EMPTY_def FUTURE_WAITING_def FUTURE_VALID_def
  FUTURE_EXCLUSIVE_def FUTURE_SHARED_def FUTURE_QUEUE_def

text \<open>Addresses of the fields behind the first one, and reading and writing an \<open>int\<close> in memory.\<close>

abbreviation fut_flag :: "u32 \<Rightarrow> u32" where "fut_flag f \<equiv> f + 4"
abbreviation fut_state :: "u32 \<Rightarrow> u32" where "fut_state f \<equiv> f + 8"
abbreviation fut_tid :: "u32 \<Rightarrow> u32" where "fut_tid f \<equiv> f + 12"
abbreviation fut_set_queue :: "u32 \<Rightarrow> u32" where "fut_set_queue f \<equiv> f + 16"
abbreviation fut_get_queue :: "u32 \<Rightarrow> u32" where "fut_get_queue f \<equiv> f + 20"

definition ldi :: "kstate \<Rightarrow> u32 \<Rightarrow> int option" where
  "ldi s a = map_option sint (ld s a)"

definition sti :: "u32 \<Rightarrow> int \<Rightarrow> kstate \<Rightarrow> kstate option" where
  "sti a v s = st a (word_of_int v) s"

definition future_alloc :: "int \<Rightarrow> kstate \<Rightarrow> (u32 \<times> kstate) option" where
  "future_alloc future_flag s =
     (if future_flag \<noteq> FUTURE_EXCLUSIVE \<and> future_flag \<noteq> FUTURE_SHARED \<and> future_flag \<noteq> FUTURE_QUEUE then Some (0, s)
      else do {
        (fut, s) \<leftarrow> memget 24 s;
        if fut = USYSERR then Some (0, s)
        else do {
          s \<leftarrow> sti fut 0 s;
          s \<leftarrow> sti (fut_state fut) FUTURE_EMPTY s;
          s \<leftarrow> sti (fut_flag fut) future_flag s;
          s \<leftarrow> sti (fut_tid fut) (- 1) s;
          s \<leftarrow> sti (fut_get_queue fut) (- 1) s;
          s \<leftarrow> sti (fut_set_queue fut) (- 1) s;
          s \<leftarrow> (if future_flag = FUTURE_SHARED \<or> future_flag = FUTURE_QUEUE
               then do { (q, s) \<leftarrow> queinit s; sti (fut_get_queue fut) q s } else Some s);
          s \<leftarrow> (if future_flag = FUTURE_QUEUE
               then do { (q, s) \<leftarrow> queinit s; sti (fut_set_queue fut) q s } else Some s);
          Some (fut, s) } })"

definition future_free :: "u32 \<Rightarrow> kstate \<Rightarrow> (int \<times> kstate) option" where
  "future_free f s = memfree f 24 s"

text \<open>The condition \<open>fut->tid = -1\<close> of the source assigns, and is always true.\<close>

definition future_wait :: "u32 \<Rightarrow> kstate \<Rightarrow> int outcome" where
  "future_wait fut s = (let (im, s) = disable s in
     oget (ldi s (fut_state fut)) (\<lambda>fstate.
     oget (ldi s (fut_flag fut)) (\<lambda>flag.
     if fstate = FUTURE_EMPTY \<or> fstate = FUTURE_WAITING
     then
       if flag = FUTURE_EXCLUSIVE
       then oget (do {
              tt \<leftarrow> aupd (thrtab s) (thrcurrent s) (state_update (\<lambda>_. THRWAIT));
              s \<leftarrow> sti (fut_tid fut) (- 1) (s\<lparr>thrtab := tt\<rparr>);
              sti (fut_tid fut) (thrcurrent s) s })
            (\<lambda>s. obind (resched s) (\<lambda>_ s. Done OK (restore im s)))
       else if flag = FUTURE_SHARED \<or> flag = FUTURE_QUEUE
       then oget (aupd (thrtab s) (thrcurrent s) (state_update (\<lambda>_. THRWAIT)))
            (\<lambda>tt. obind (resched (s\<lparr>thrtab := tt\<rparr>)) (\<lambda>_ s. Done OK (restore im s)))
       else Done SYSERR s
     else Done OK (restore im s))))"

text \<open>The loop over the threads that wait for a shared future.\<close>

fun future_wakeall :: "nat \<Rightarrow> u32 \<Rightarrow> kstate \<Rightarrow> int outcome" where
  "future_wakeall 0 fut s = Fault"
| "future_wakeall (Suc n) fut s =
     oget (do { q \<leftarrow> ldi s (fut_get_queue fut); e \<leftarrow> isempty s q; Some (q, e) }) (\<lambda>(q, e).
     if e then Done OK s
     else oget (dequeue q s) (\<lambda>(tid, s). obind (ready tid RESCHED_YES s) (\<lambda>_ s. future_wakeall n fut s)))"

definition future_signal :: "nat \<Rightarrow> u32 \<Rightarrow> kstate \<Rightarrow> int outcome" where
  "future_signal n fut s = (let (im, s) = disable s in
     oget (ldi s (fut_state fut)) (\<lambda>fstate.
     oget (ldi s (fut_flag fut)) (\<lambda>flag.
     if fstate = FUTURE_VALID
     then
       if flag = FUTURE_EXCLUSIVE
       then oget (ldi s (fut_tid fut)) (\<lambda>tid. obind (ready tid RESCHED_YES s) (\<lambda>_ s. Done OK (restore im s)))
       else if flag = FUTURE_SHARED
       then obind (future_wakeall n fut s) (\<lambda>_ s. Done OK (restore im s))
       else if flag = FUTURE_QUEUE
       then oget (do { q \<leftarrow> ldi s (fut_get_queue fut); dequeue q s })
            (\<lambda>(tid, s). obind (ready tid RESCHED_YES s) (\<lambda>_ s. Done OK (restore im s)))
       else Done SYSERR s
     else if fstate = FUTURE_EMPTY
     then
       if flag = FUTURE_EXCLUSIVE \<or> flag = FUTURE_SHARED then Done OK (restore im s)
       else if flag = FUTURE_QUEUE
       then oget (do { q \<leftarrow> ldi s (fut_set_queue fut); dequeue q s })
            (\<lambda>(tid, s). obind (ready tid RESCHED_YES s) (\<lambda>_ s. Done OK (restore im s)))
       else Done SYSERR s
     else Done OK (restore im s))))"

text \<open>\<open>f->value = value; f->state = FUTURE_VALID; future_signal(f);\<close>\<close>

definition future_publish :: "nat \<Rightarrow> u32 \<Rightarrow> int \<Rightarrow> kstate \<Rightarrow> int outcome" where
  "future_publish n f v s =
     oget (do { s \<leftarrow> sti f v s; sti (fut_state f) FUTURE_VALID s }) (\<lambda>s.
     obind (future_signal n f s) (\<lambda>_ s. Done OK s))"

definition future_set :: "nat \<Rightarrow> u32 \<Rightarrow> int \<Rightarrow> kstate \<Rightarrow> int outcome" where
  "future_set n f v s =
     oget (ldi s (fut_state f)) (\<lambda>fstate.
     oget (ldi s (fut_flag f)) (\<lambda>flag.
     if fstate = FUTURE_EMPTY \<or> fstate = FUTURE_WAITING
     then
       if flag = FUTURE_EXCLUSIVE \<or> flag = FUTURE_SHARED then future_publish n f v s
       else if flag = FUTURE_QUEUE
       then oget (do { q \<leftarrow> ldi s (fut_get_queue f); isempty s q }) (\<lambda>e.
         if e
         then oget (do { q \<leftarrow> ldi s (fut_set_queue f); enqueue (gettid s) q s }) (\<lambda>(_, s).
           obind (future_wait f s) (\<lambda>_ s. future_publish n f v s))
         else future_publish n f v s)
       else Done SYSERR s
     else Done SYSERR s))"

text \<open>\<open>*value = f->value\<close>, and the state afterwards when the value is consumed.\<close>

definition future_take :: "u32 \<Rightarrow> u32 \<Rightarrow> kstate \<Rightarrow> int outcome" where
  "future_take f p s = oget (do {
     v \<leftarrow> ldi s f;
     s \<leftarrow> sti p v s;
     sti (fut_state f) FUTURE_EMPTY s }) (\<lambda>s. Done OK s)"

definition future_take_shared :: "u32 \<Rightarrow> u32 \<Rightarrow> kstate \<Rightarrow> int outcome" where
  "future_take_shared f p s = oget (do {
     v \<leftarrow> ldi s f;
     s \<leftarrow> sti p v s;
     q \<leftarrow> ldi s (fut_get_queue f);
     e \<leftarrow> isempty s q;
     if e then sti (fut_state f) FUTURE_EMPTY s else Some s }) (\<lambda>s. Done OK s)"

definition future_join :: "u32 \<Rightarrow> kstate \<Rightarrow> (int \<times> kstate) option" where
  "future_join f s = do { q \<leftarrow> ldi s (fut_get_queue f); enqueue (gettid s) q s }"

fun future_get :: "nat \<Rightarrow> u32 \<Rightarrow> u32 \<Rightarrow> kstate \<Rightarrow> int outcome" where
  "future_get 0 f p s = Fault"
| "future_get (Suc n) f p s =
     oget (ldi s (fut_state f)) (\<lambda>fstate.
     oget (ldi s (fut_flag f)) (\<lambda>flag.
     if fstate = FUTURE_EMPTY
     then
       if flag = FUTURE_EXCLUSIVE
       then oget (sti (fut_state f) FUTURE_WAITING s) (\<lambda>s.
         obind (future_wait f s) (\<lambda>_ s. future_take f p s))
       else if flag = FUTURE_SHARED
       then oget (do { s \<leftarrow> sti (fut_state f) FUTURE_WAITING s; future_join f s }) (\<lambda>(_, s).
         obind (future_wait f s) (\<lambda>_ s. future_take_shared f p s))
       else if flag = FUTURE_QUEUE
       then oget (do { q \<leftarrow> ldi s (fut_set_queue f); isempty s q }) (\<lambda>e.
         oget (future_join f s) (\<lambda>(_, s).
         if e
         then obind (future_wait f s) (\<lambda>_ s. obind (future_get n f p s) (\<lambda>_ s. Done OK s))
         else obind (future_signal n f s) (\<lambda>_ s.
           obind (future_wait f s) (\<lambda>_ s. obind (future_get n f p s) (\<lambda>_ s. Done OK s)))))
       else Done SYSERR s
     else if fstate = FUTURE_WAITING
     then
       if flag = FUTURE_EXCLUSIVE then Done SYSERR s
       else if flag = FUTURE_SHARED
       then oget (future_join f s) (\<lambda>(_, s). obind (future_wait f s) (\<lambda>_ s. future_take_shared f p s))
       else if flag = FUTURE_QUEUE then Done OK s
       else Done SYSERR s
     else if fstate = FUTURE_VALID
     then
       if flag = FUTURE_EXCLUSIVE \<or> flag = FUTURE_QUEUE then future_take f p s
       else if flag = FUTURE_SHARED then future_take_shared f p s
       else Done SYSERR s
     else Done SYSERR s))"

end
