(* ===== verification/Future_Properties.thy ===== *)
theory Future_Properties
  imports Futures Mailbox_Properties
begin

text \<open>
  Exclusive futures: a value that is set is the value that is got, whichever side comes first;
  and the two defects of the implementation, a stale thread id and a path that leaves
  interrupts disabled.
\<close>

text \<open>The words of an exclusive future.\<close>

definition fut_words :: "u32 \<Rightarrow> u32 set" where
  "fut_words f = {f, f + 4, f + 8, f + 12, f + 16, f + 20}"

definition exclusive :: "u32 \<Rightarrow> int \<Rightarrow> int \<Rightarrow> kstate \<Rightarrow> bool" where
  "exclusive f fs t s \<longleftrightarrow> (\<forall>a \<in> fut_words f. heap_word s a) \<and>
     sint (mem s (f + 4)) = FUTURE_EXCLUSIVE \<and> sint (mem s (f + 8)) = fs \<and> sint (mem s (f + 12)) = t"

lemma fut_distinct:
  "f + 4 \<noteq> f" "f + 8 \<noteq> f" "f + 12 \<noteq> f" "f + 8 \<noteq> f + 4" "f + 12 \<noteq> f + 4" "f + 12 \<noteq> f + 8" for f :: u32
  by simp_all

lemma sti_ok: "heap_word s a \<Longrightarrow> sti a v s = Some (s\<lparr>mem := (mem s)(a := word_of_int v)\<rparr>)"
  by (simp add: sti_def st_def)

lemma ldi_ok: "heap_word s a \<Longrightarrow> ldi s a = Some (sint (mem s a))"
  by (simp add: ldi_def ld_def)

lemma heap_word_frame [simp]:
  "heap_word (s\<lparr>mem := m\<rparr>) a = heap_word s a" "heap_word (s\<lparr>irq := b\<rparr>) a = heap_word s a"
  "heap_word (s\<lparr>thrtab := tt\<rparr>) a = heap_word s a"
  by (simp_all add: heap_word_def)

lemma exclusiveD:
  assumes "exclusive f fs t s"
  shows "heap_word s f" "heap_word s (f + 4)" "heap_word s (f + 8)" "heap_word s (f + 12)"
    "ldi s (f + 4) = Some FUTURE_EXCLUSIVE" "ldi s (f + 8) = Some fs" "ldi s (f + 12) = Some t"
    "sint (mem s (f + 4)) = FUTURE_EXCLUSIVE" "sint (mem s (f + 8)) = fs" "sint (mem s (f + 12)) = t"
  using assms by (simp_all add: exclusive_def fut_words_def ldi_ok)

definition published :: "u32 \<Rightarrow> int \<Rightarrow> kstate \<Rightarrow> kstate" where
  "published f v s = s\<lparr>mem := (mem s)(f := word_of_int v, f + 8 := word_of_int FUTURE_VALID)\<rparr>"

lemma exclusive_published:
  assumes "exclusive f fs t s"
  shows "exclusive f FUTURE_VALID t (published f v s)"
  using assms fut_distinct [of f] by (simp add: exclusive_def published_def fut_words_def c_consts)

lemma future_set_exclusive:
  assumes "exclusive f fs t s" "fs = FUTURE_EMPTY \<or> fs = FUTURE_WAITING"
  shows "future_set n f v s = obind (ready t RESCHED_YES ((published f v s)\<lparr>irq := False\<rparr>)) (\<lambda>_ s'. Done OK (restore (irq s) s'))"
proof -
  note D = exclusiveD [OF assms(1)]
  have "exclusive f FUTURE_VALID t ((published f v s)\<lparr>irq := False\<rparr>)"
    using exclusive_published [OF assms(1), of v] by (simp add: exclusive_def)
  note E = exclusiveD [OF this]
  have "do { s \<leftarrow> sti f v s; sti (f + 8) FUTURE_VALID s } = Some (published f v s)"
    using D(1,3) by (simp add: sti_ok published_def)
  then have "future_publish n f v s = obind (future_signal n f (published f v s)) (\<lambda>_ s. Done OK s)"
    by (simp add: future_publish_def)
  then show ?thesis using D(5,6) E(5-7) assms(2)
    by (simp add: future_set_def future_signal_def disable_def obind_assoc published_def)
qed

text \<open>
  C28. An exclusive future hands over one value. On a fresh future \<open>future_set\<close> returns OK at once, a
  second \<open>future_set\<close> is refused, \<open>future_get\<close> delivers exactly the value that was set and
  empties the future. Nothing but the future and the receiver's variable changes.
\<close>

theorem future_roundtrip:
  assumes "exclusive f FUTURE_EMPTY (- 1) s" "is_msg v" "heap_word s p" "p \<notin> fut_words f"
  shows "\<exists>s1 s2. future_set n f v s = Done OK s1 \<and> future_set n f w s1 = Done SYSERR s1 \<and>
    future_get (Suc n) f p s1 = Done OK s2 \<and> sint (mem s2 p) = v \<and> exclusive f FUTURE_EMPTY (- 1) s2 \<and>
    (\<exists>m. s2 = s\<lparr>mem := m\<rparr> \<and> (\<forall>a. a \<noteq> p \<and> a \<notin> fut_words f \<longrightarrow> m a = mem s a))"
proof -
  let ?s1 = "published f v s"
  have "isbadtid (?s1\<lparr>irq := False\<rparr>) (- 1)" by (simp add: isbadtid_def)
  then have set: "future_set n f v s = Done OK ?s1"
    using future_set_exclusive [OF assms(1)] by (simp add: ready_def restore_def published_def)
  note E = exclusiveD [OF exclusive_published [OF assms(1)]]
  have "future_set n f w ?s1 = Done SYSERR ?s1" using E(5,6) by (simp add: future_set_def c_consts)
  moreover have p: "heap_word ?s1 p" "p \<noteq> f" "p \<noteq> f + 4" "p \<noteq> f + 8" "p \<noteq> f + 12" using assms(3,4) by (auto simp: published_def fut_words_def)
  moreover define m where "m = (mem ?s1)(p := word_of_int v, f + 8 := word_of_int FUTURE_EMPTY)"
  have "mem ?s1 f = word_of_int v" by (simp add: published_def)
  then have "future_get (Suc n) f p ?s1 = Done OK (?s1\<lparr>mem := m\<rparr>)"
    using E(1,3,5,6) p by (simp add: future_take_def c_consts ldi_ok sti_ok m_def sint_msg [OF assms(2)])
  moreover have "?s1\<lparr>mem := m\<rparr> = s\<lparr>mem := m\<rparr>" by (simp add: published_def)
  moreover have "sint (m p) = v" using p sint_msg [OF assms(2)] by (simp add: m_def)
  moreover have "exclusive f FUTURE_EMPTY (- 1) (s\<lparr>mem := m\<rparr>)"
    using assms(1) p fut_distinct [of f] by (simp add: exclusive_def m_def published_def fut_words_def c_consts)
  moreover have "m a = mem s a" if "a \<noteq> p" "a \<notin> fut_words f" for a
    using that by (simp add: m_def published_def fut_words_def)
  ultimately show ?thesis using set by (intro exI [of _ ?s1] exI [of _ "s\<lparr>mem := m\<rparr>"]) auto
qed

text \<open>The demonstration state with a fresh exclusive future at address 8200.\<close>

definition promised :: "int \<Rightarrow> int \<Rightarrow> kstate" where
  "promised fs t = demo\<lparr>mem := (mem demo)(8204 := 1, 8208 := word_of_int fs, 8212 := word_of_int t)\<rparr>"

theorem future_roundtrip_witness:
  "\<exists>s1 s2. future_set 0 8200 42 (promised 0 (- 1)) = Done OK s1 \<and> future_set 0 8200 7 s1 = Done SYSERR s1 \<and>
    future_get 1 8200 8300 s1 = Done OK s2 \<and> sint (mem s2 8300) = 42"
proof -
  have "exclusive 8200 FUTURE_EMPTY (- 1) (promised 0 (- 1))" "is_msg 42" "heap_word (promised 0 (- 1)) 8300" "8300 \<notin> fut_words 8200"
    by (simp_all add: exclusive_def promised_def demo_defs fut_words_def heap_word_def is_msg_def c_consts)
  from future_roundtrip [OF this, of 0 7] show ?thesis by auto
qed

text \<open>
  C29. A receiver that came first is woken. When thread \<open>t\<close> waits for an exclusive future,
  \<open>future_set\<close> by the running thread stores the value and puts \<open>t\<close> into the ready list, after which
  the kernel invariant holds again and the scheduler decides who runs; \<open>t\<close>, resumed while the future
  is untouched, reads the value.
\<close>

theorem future_handoff:
  assumes "exclusive f FUTURE_WAITING t s" "is_msg v" "heap_word s p" "p \<notin> fut_words f"
    and "sched_ok {t} s qs" "qat s qs t None" "sem_ok s qs" "sleep_ok s qs"
  shows "\<exists>s2 qs2. future_set n f v s = obind (resched s2) (\<lambda>_ s'. Done OK (restore (irq s) s')) \<and> kinv_qs s2 qs2 \<and>
    state (thr s2 t) = THRREADY \<and> t \<in> set (qs2 (readylist s)) \<and>
    (\<forall>u. mem u = mem s2 \<and> memheap u = memheap s2 \<and> maxaddr u = maxaddr s2 \<longrightarrow>
      (\<exists>u'. future_take f p u = Done OK u' \<and> sint (mem u' p) = v \<and> exclusive f FUTURE_EMPTY t u'))"
proof -
  let ?s1 = "(published f v s)\<lparr>irq := False\<rparr>"
  have "same_core s ?s1" by (simp add: same_core_def published_def)
  note c = same_core_inv [OF this]
  have "qat ?s1 qs t None" using assms(6) by (simp add: qat_def published_def kqueues_def)
  from ready_waking [OF _ this, unfolded c, OF assms(5,7,8)]
  obtain s2 qs2 where s2: "ready t RESCHED_YES ?s1 = obind (resched s2) (\<lambda>_ s. Done OK s)" "kinv_qs s2 qs2"
    "sched_frame ?s1 s2" "state (thr s2 t) = THRREADY" "t \<in> set (qs2 (readylist ?s1))"
    by blast
  have m: "mem s2 = mem (published f v s)" "memheap s2 = memheap s" "maxaddr s2 = maxaddr s"
    using s2(3) by (auto simp: sched_frame_def published_def)
  have take: "\<exists>u'. future_take f p u = Done OK u' \<and> sint (mem u' p) = v \<and> exclusive f FUTURE_EMPTY t u'"
    if u: "mem u = mem s2 \<and> memheap u = memheap s2 \<and> maxaddr u = maxaddr s2" for u
  proof -
    have hw: "heap_word u a = heap_word s a" for a using u m by (simp add: heap_word_def)
    have p: "heap_word s p" "p \<noteq> f" "p \<noteq> f + 4" "p \<noteq> f + 8" "p \<noteq> f + 12" using assms(3,4) by (auto simp: fut_words_def)
    define w where "w = (mem (published f v s))(p := word_of_int v, f + 8 := word_of_int FUTURE_EMPTY)"
    have "future_take f p u = Done OK (u\<lparr>mem := w\<rparr>)"
      using exclusiveD(1,3) [OF assms(1)] p hw u m
      by (simp add: future_take_def ldi_ok sti_ok w_def published_def sint_msg [OF assms(2)])
    moreover have "sint (w p) = v" using p sint_msg [OF assms(2)] by (simp add: w_def)
    moreover have "exclusive f FUTURE_EMPTY t (u\<lparr>mem := w\<rparr>)"
      using assms(1) p fut_distinct [of f] hw by (simp add: exclusive_def w_def published_def fut_words_def c_consts)
    ultimately show ?thesis by auto
  qed
  show ?thesis using future_set_exclusive [OF assms(1)] s2 take
    by (intro exI [of _ s2] exI [of _ qs2]) (simp add: obind_assoc published_def)
qed

text \<open>Thread 2 waits for the future at 8200.\<close>

definition awaited :: kstate where
  "awaited = roomy\<lparr>thrtab := [demo_thr THRREADY 0, demo_thr THRCURR 20, demo_thr THRWAIT 20, demo_thr THRSLEEP 20],
     mem := (mem demo)(8204 := 1, 8208 := 1, 8212 := 2)\<rparr>"

lemmas awaited_defs = awaited_def roomy_defs

lemma awaited_ok: "sched_ok {2} awaited roomy_qs" "qat awaited roomy_qs 2 None" "sem_ok awaited roomy_qs" "sleep_ok awaited roomy_qs"
proof -
  have qsys: "qsys (quetab awaited) (NTHREAD awaited) (kqueues awaited) roomy_qs"
    by (auto simp: awaited_defs qsys_def qrep_def kqueues_def)
  have threads: "inarr (thrtab awaited) t \<longleftrightarrow> t \<in> {0, 1, 2, 3}" for t by (auto simp: awaited_defs inarr_def)
  have "thr_ok {2} awaited roomy_qs t" if "t \<in> {0, 1, 2, 3}" for t
    using that by (auto simp: awaited_defs thr_ok_def qat_def loc_def kqueues_def c_consts uidx_def inarr_def)
  then show "sched_ok {2} awaited roomy_qs"
    using qsys by (simp add: sched_ok_def threads) (simp add: awaited_defs c_consts)
  show "qat awaited roomy_qs 2 None" by (auto simp: awaited_defs qat_def loc_def kqueues_def)
  show "sem_ok awaited roomy_qs" "sleep_ok awaited roomy_qs"
    by (simp_all add: sem_ok_def sleep_ok_def delays_def awaited_defs c_consts)
qed

theorem future_handoff_witness:
  "\<exists>s2 qs2. future_set 0 8200 42 awaited = obind (resched s2) (\<lambda>_ s'. Done OK (restore True s')) \<and> kinv_qs s2 qs2 \<and> 2 \<in> set (qs2 4) \<and>
    (\<exists>u'. future_take 8200 8300 s2 = Done OK u' \<and> sint (mem u' 8300) = 42)"
proof -
  have "exclusive 8200 FUTURE_WAITING 2 awaited" "is_msg 42" "heap_word awaited 8300" "8300 \<notin> fut_words 8200" "irq awaited" "readylist awaited = 4"
    by (simp_all add: exclusive_def awaited_defs fut_words_def heap_word_def is_msg_def c_consts)
  note h = this
  obtain s2 qs2 where s2: "future_set 0 8200 42 awaited = obind (resched s2) (\<lambda>_ s'. Done OK (restore True s'))" "kinv_qs s2 qs2"
      "2 \<in> set (qs2 4)" "\<exists>u'. future_take 8200 8300 s2 = Done OK u' \<and> sint (mem u' 8300) = 42"
    using future_handoff [OF h(1-4) awaited_ok, of 0] h(5,6) by auto
  then show ?thesis by blast
qed

section \<open>Defects\<close>

text \<open>
  The thread id in an exclusive future is never cleared. Here thread 2 got a value earlier and is
  ready again; the kernel invariant holds.
\<close>

definition stale :: kstate where
  "stale = demo\<lparr>quetab := demo_quetab[0 := qe 0 5 2, 2 := qe 20 0 4, 4 := qe MAXKEY 2 EMPTY, 8 := qe MAXKEY 9 EMPTY, 9 := qe MINKEY EMPTY 8],
     thrtab := [demo_thr THRREADY 0, demo_thr THRCURR 25, demo_thr THRREADY 20, demo_thr THRSLEEP 20],
     semtab := [\<lparr>sstate = SUSED, count = 0, squeue = 8\<rparr>, \<lparr>sstate = SUSED, count = 1, squeue = 10\<rparr>],
     mem := (mem demo)(8204 := 1, 8208 := 0, 8212 := 2)\<rparr>"

definition stale_qs :: "int \<Rightarrow> int list" where
  "stale_qs = (\<lambda>_. [])(4 := [2, 0], 6 := [3])"

lemmas stale_defs = stale_def stale_qs_def demo_defs

lemma stale_kinv: "kinv stale"
proof -
  have qsys: "qsys (quetab stale) (NTHREAD stale) (kqueues stale) stale_qs"
    by (auto simp: stale_defs qsys_def qrep_def kqueues_def)
  have threads: "inarr (thrtab stale) t \<longleftrightarrow> t \<in> {0, 1, 2, 3}" for t by (auto simp: stale_defs inarr_def)
  have "thr_ok {} stale stale_qs t" if "t \<in> {0, 1, 2, 3}" for t
    using that by (auto simp: stale_defs thr_ok_def qat_def loc_def kqueues_def c_consts uidx_def inarr_def)
  then have "sched_ok {} stale stale_qs"
    using qsys by (simp add: sched_ok_def threads) (simp add: stale_defs c_consts)
  moreover have "sem_ok stale stale_qs" "sleep_ok stale stale_qs"
    by (simp_all add: sem_ok_def sleep_ok_def delays_def stale_defs c_consts)
  ultimately have "kinv_qs stale stale_qs" by (simp add: kinv_qs_def)
  then show ?thesis by (rule kinvI) (simp add: running_def stale_defs)
qed

text \<open>
  Setting a future that nobody waits for readies the thread that waited last, which corrupts the
  ready list: from a state that satisfies the invariant, \<open>future_set\<close> returns OK and the ready list
  leads from its head to thread 2 and from there to thread 2 forever, without the null thread.
\<close>

theorem future_stale_tid:
  "kinv stale \<and> exclusive 8200 FUTURE_EMPTY 2 stale \<and>
    (\<exists>s'. future_set 0 8200 7 stale = Done OK s' \<and>
      qnext (at (quetab s') (readylist s')) = 2 \<and> qnext (at (quetab s') 2) = 2)"
proof -
  have "exclusive 8200 FUTURE_EMPTY 2 stale"
    by (simp add: exclusive_def stale_defs fut_words_def heap_word_def c_consts)
  moreover have "case future_set 0 8200 7 stale of
      Done v s' \<Rightarrow> v = OK \<and> qnext (at (quetab s') (readylist s')) = 2 \<and> qnext (at (quetab s') 2) = 2 | _ \<Rightarrow> False"
    by code_simp
  then have "\<exists>s'. future_set 0 8200 7 stale = Done OK s' \<and> qnext (at (quetab s') (readylist s')) = 2 \<and> qnext (at (quetab s') 2) = 2"
    by (cases "future_set 0 8200 7 stale") simp_all
  ultimately show ?thesis using stale_kinv by simp
qed

text \<open>A future with an unknown flag makes \<open>future_signal\<close> return with interrupts disabled.\<close>

lemma future_signal_irq:
  assumes "heap_word s (f + 4)" "heap_word s (f + 8)" "sint (mem s (f + 8)) = FUTURE_VALID" "sint (mem s (f + 4)) \<notin> {FUTURE_EXCLUSIVE, FUTURE_SHARED, FUTURE_QUEUE}"
  shows "future_signal n f s = Done SYSERR (s\<lparr>irq := False\<rparr>)"
  using assms by (simp add: future_signal_def disable_def ldi_ok)

end
