(* ===== verification/Tcp_State.thy ===== *)
theory Tcp_State
  imports C_Prelude
begin

unbundle bit_operations_syntax

text \<open>
  The data of the TCP implementation (\<open>tcp.h\<close>): segments, transmission control blocks, timer
  events, and the arithmetic of sequence numbers.

  Every TCP operation works on one control block, \<open>cb\<close>, whose mutex its caller holds; the pair
  \<open>wait(mutex)\<close>, \<open>signal(mutex)\<close> around an operation is the atomicity of the definitions. The
  other semaphores of a connection are their counts: \<open>signal\<close> adds one, whichever thread becomes
  ready by it. A segment handed to \<open>ipv4Send\<close> is appended to \<open>sent\<close>.
\<close>

type_synonym u8 = "8 word"
type_synonym u16 = "16 word"

section \<open>Constants\<close>

definition TCP_HDR_LEN :: nat where "TCP_HDR_LEN = 20"
definition TCP_MAXSEQ :: u32 where "TCP_MAXSEQ = 0xFFFFFFFF"

definition TCP_CTRL_URG :: u8 where "TCP_CTRL_URG = 0x20"
definition TCP_CTRL_ACK :: u8 where "TCP_CTRL_ACK = 0x10"
definition TCP_CTRL_PSH :: u8 where "TCP_CTRL_PSH = 0x08"
definition TCP_CTRL_RST :: u8 where "TCP_CTRL_RST = 0x04"
definition TCP_CTRL_SYN :: u8 where "TCP_CTRL_SYN = 0x02"
definition TCP_CTRL_FIN :: u8 where "TCP_CTRL_FIN = 0x01"

definition TCP_FLG_SYN :: u8 where "TCP_FLG_SYN = 0x01"
definition TCP_FLG_FIN :: u8 where "TCP_FLG_FIN = 0x02"
definition TCP_FLG_SNDACK :: u8 where "TCP_FLG_SNDACK = 0x04"
definition TCP_FLG_SNDDATA :: u8 where "TCP_FLG_SNDDATA = 0x08"
definition TCP_FLG_SNDRST :: u8 where "TCP_FLG_SNDRST = 0x10"
definition TCP_FLG_PERSIST :: u8 where "TCP_FLG_PERSIST = 0x20"

definition TCP_OPT_END :: u8 where "TCP_OPT_END = 0"
definition TCP_OPT_NOP :: u8 where "TCP_OPT_NOP = 1"
definition TCP_OPT_MSS :: u8 where "TCP_OPT_MSS = 2"
definition TCP_OPT_MSS_SIZE :: nat where "TCP_OPT_MSS_SIZE = 6"

definition TCP_IBLEN :: nat where "TCP_IBLEN = 16384"
definition TCP_OBLEN :: nat where "TCP_OBLEN = 16384"
definition TCP_INIT_MSS :: u16 where "TCP_INIT_MSS = 1460"
definition TCP_INIT_WND :: u32 where "TCP_INIT_WND = 1460"
definition TCP_MAX_WND :: u32 where "TCP_MAX_WND = 65535"
definition NET_MAX_PKTLEN :: nat where "NET_MAX_PKTLEN = 1598"

definition TCP_ERR_RESET :: int where "TCP_ERR_RESET = - 2"
definition TCP_ERR_CLOSING :: int where "TCP_ERR_CLOSING = - 4"
definition TCP_ERR_NOCONN :: int where "TCP_ERR_NOCONN = - 5"
definition TCP_ERR_NOSPEC :: int where "TCP_ERR_NOSPEC = - 6"

definition TCP_TWOMSL :: int where "TCP_TWOMSL = 5 * 1000"
definition TCP_PST_INITTIME :: int where "TCP_PST_INITTIME = 3 * 1000"
definition TCP_PST_MAXTIME :: int where "TCP_PST_MAXTIME = 64 * 1000"
definition TCP_RXT_MAXCOUNT :: u32 where "TCP_RXT_MAXCOUNT = 10"
definition TCP_RXT_INITTIME :: int where "TCP_RXT_INITTIME = 500"
definition TCP_RXT_MINTIME :: int where "TCP_RXT_MINTIME = 100"
definition TCP_RXT_MAXTIME :: int where "TCP_RXT_MAXTIME = 32 * 1000"
definition TCP_SEQINCR :: int where "TCP_SEQINCR = 904"

named_theorems tcp_consts \<open>numeric values of the TCP constants\<close>

lemmas [tcp_consts] = TCP_HDR_LEN_def TCP_MAXSEQ_def TCP_CTRL_URG_def TCP_CTRL_ACK_def TCP_CTRL_PSH_def
  TCP_CTRL_RST_def TCP_CTRL_SYN_def TCP_CTRL_FIN_def TCP_FLG_SYN_def TCP_FLG_FIN_def TCP_FLG_SNDACK_def
  TCP_FLG_SNDDATA_def TCP_FLG_SNDRST_def TCP_FLG_PERSIST_def TCP_OPT_END_def TCP_OPT_NOP_def TCP_OPT_MSS_def
  TCP_OPT_MSS_SIZE_def TCP_IBLEN_def TCP_OBLEN_def TCP_INIT_MSS_def TCP_INIT_WND_def TCP_MAX_WND_def NET_MAX_PKTLEN_def
  TCP_ERR_RESET_def TCP_ERR_CLOSING_def TCP_ERR_NOCONN_def TCP_ERR_NOSPEC_def TCP_TWOMSL_def TCP_PST_INITTIME_def
  TCP_PST_MAXTIME_def TCP_RXT_MAXCOUNT_def TCP_RXT_INITTIME_def TCP_RXT_MINTIME_def TCP_RXT_MAXTIME_def TCP_SEQINCR_def

section \<open>Types\<close>

datatype tcpstate = TCP_CLOSED | TCP_LISTEN | TCP_SYNSENT | TCP_SYNRECV | TCP_ESTAB | TCP_FINWT1
  | TCP_FINWT2 | TCP_CLOSEWT | TCP_CLOSING | TCP_LASTACK | TCP_TIMEWT

datatype tcpdevstate = TCP_FREE | TCP_ALLOC
datatype tcpopen = TCP_PASSIVE | TCP_ACTIVE

text \<open>\<open>struct netaddr\<close>; type 0 is no address.\<close>

record netaddr =
  na_type :: u16
  na_len :: u8
  na_addr :: "u8 list"

text \<open>
  A received segment: the header fields in host order, the octets of the segment from the start of
  its header on as they lie in the packet buffer, and \<open>tcplen\<close>, the difference
  \<open>pkt->len - (pkt->curr - pkt->linkhdr)\<close> that every function computes first.
\<close>

record tcppkt =
  srcpt :: u16
  dstpt :: u16
  seqnum :: u32
  acknum :: u32
  offset :: u8
  control :: u8
  window :: u16
  tcplen :: u16
  octets :: "u8 list"

text \<open>A segment given to \<open>ipv4Send\<close>.\<close>

record segment =
  sg_srcpt :: u16
  sg_dstpt :: u16
  sg_seqnum :: u32
  sg_acknum :: u32
  sg_offset :: u8
  sg_control :: u8
  sg_window :: u16
  sg_mss :: "u16 option"
  sg_data :: "u8 list"

text \<open>\<open>struct tcb\<close>; the three arrays are functions on the indices below their length.\<close>

record tcb =
  tstate :: tcpstate
  devstate :: tcpdevstate
  mutex :: u32
  localpt :: u16
  remotept :: u16
  localip :: netaddr
  remoteip :: netaddr
  opentype :: tcpopen
  openclose :: u32
  rcvnxt :: u32
  rcvwnd :: u32
  rcvfin :: u32
  rcvmss :: u16
  rcvflg :: u8
  readers :: u32
  istart :: u32
  icount :: u32
  inxt :: u32
  ibuf :: "nat \<Rightarrow> u8"
  imark :: "nat \<Rightarrow> bool"
  ibytes :: u32
  snduna :: u32
  sndnxt :: u32
  sndwnd :: u32
  sndcwn :: u32
  sndsst :: u32
  sndwl1 :: u32
  sndwl2 :: u32
  iss :: u32
  sndfin :: u32
  sndmss :: u16
  sndflg :: u8
  sndrtt :: int
  sndrtd :: int
  rxttime :: int
  rxtcount :: u32
  psttime :: int
  writers :: u32
  ostart :: u32
  ocount :: u32
  obuf :: "nat \<Rightarrow> u8"
  obytes :: u32

text \<open>\<open>struct tcpEvent\<close>; pointers to events are indices into \<open>tcptimertab\<close>.\<close>

datatype evttype = TCP_EVT_TIMEWT | TCP_EVT_RXT | TCP_EVT_PERSIST

record tcpEvent =
  used :: bool
  etime :: int
  remain :: int
  etype :: evttype
  etcb :: nat
  enext :: "int option"

definition TCP_EVT_HEAD :: int where "TCP_EVT_HEAD = 0"

text \<open>
  The state an operation works on: the received segment \<open>pkt\<close>, which some operations change in its
  buffer, the control block \<open>cb\<close> with its index, the timer table, the
  counts of the semaphores, the segments sent so far, and whether \<open>netGetbuf\<close> and \<open>ipv4Send\<close>
  succeed.
\<close>

record tcpst =
  pkt :: tcppkt
  cb :: tcb
  cbid :: nat
  tcptimertab :: "tcpEvent list"
  nextevt :: int
  semcnts :: "u32 \<Rightarrow> int"
  sent :: "segment list"
  netok :: bool
  ipok :: bool

abbreviation set_control :: "u8 \<Rightarrow> tcpst \<Rightarrow> tcpst" where
  "set_control c s \<equiv> s\<lparr>pkt := (pkt s)\<lparr>control := c\<rparr>\<rparr>"

abbreviation cbu :: "(tcb \<Rightarrow> tcb) \<Rightarrow> tcpst \<Rightarrow> tcpst" where
  "cbu f s \<equiv> s\<lparr>cb := f (cb s)\<rparr>"

definition tsignal :: "u32 \<Rightarrow> tcpst \<Rightarrow> tcpst" where
  "tsignal sm s = s\<lparr>semcnts := (semcnts s)(sm := semcnts s sm + 1)\<rparr>"

definition tsignaln :: "u32 \<Rightarrow> int \<Rightarrow> tcpst \<Rightarrow> tcpst" where
  "tsignaln sm n s = (if n \<le> 0 then s else s\<lparr>semcnts := (semcnts s)(sm := semcnts s sm + n)\<rparr>)"

text \<open>A flag is set, and setting and clearing it.\<close>

definition has :: "u8 \<Rightarrow> u8 \<Rightarrow> bool" where "has w f \<longleftrightarrow> w AND f \<noteq> 0"

abbreviation set_sndflg :: "u8 \<Rightarrow> tcpst \<Rightarrow> tcpst" where
  "set_sndflg f s \<equiv> cbu (\<lambda>t. t\<lparr>sndflg := sndflg t OR f\<rparr>) s"

abbreviation clear_sndflg :: "u8 \<Rightarrow> tcpst \<Rightarrow> tcpst" where
  "clear_sndflg f s \<equiv> cbu (\<lambda>t. t\<lparr>sndflg := sndflg t AND NOT f\<rparr>) s"

section \<open>Sequence numbers\<close>

text \<open>The comparisons subtract signed integers, which is undefined when the difference overflows.\<close>

definition seqlt :: "u32 \<Rightarrow> u32 \<Rightarrow> bool option" where
  "seqlt a b = do { d \<leftarrow> c_int (sint a - sint b); Some (d < 0) }"

definition seqlte :: "u32 \<Rightarrow> u32 \<Rightarrow> bool option" where
  "seqlte a b = do { d \<leftarrow> c_int (sint a - sint b); Some (d \<le> 0) }"

definition seqadd :: "u32 \<Rightarrow> u32 \<Rightarrow> u32" where
  "seqadd a b = (a + b) mod TCP_MAXSEQ"

definition tcpSeqdiff :: "u32 \<Rightarrow> u32 \<Rightarrow> u32" where
  "tcpSeqdiff first second =
     (if first < TCP_MAXSEQ div 2 \<and> second > TCP_MAXSEQ div 2 then (TCP_MAXSEQ - first) + second
      else if second < TCP_MAXSEQ div 2 \<and> first > TCP_MAXSEQ div 2 then (TCP_MAXSEQ - first) + second
      else first - second)"

text \<open>\<open>&&\<close> and \<open>||\<close> of conditions that may be undefined evaluate from left to right.\<close>

definition c_and :: "bool option \<Rightarrow> bool option \<Rightarrow> bool option" where
  "c_and a b = do { x \<leftarrow> a; if x then b else Some False }"

definition c_or :: "bool option \<Rightarrow> bool option \<Rightarrow> bool option" where
  "c_or a b = do { x \<leftarrow> a; if x then Some True else b }"

text \<open>\<open>offset2octets\<close>, \<open>octets2offset\<close> and the length of the data of a segment.\<close>

definition offset2octets :: "u8 \<Rightarrow> nat" where
  "offset2octets x = (unat x div 16) * 4"

definition octets2offset :: "nat \<Rightarrow> u8" where
  "octets2offset x = word_of_nat ((x div 4) * 16)"

definition tcpSeglen :: "tcppkt \<Rightarrow> u16" where
  "tcpSeglen p = tcplen p - word_of_nat (offset2octets (offset p))"

text \<open>The length of a segment with its SYN and FIN, as \<open>tcpRecvValid\<close> and \<open>tcpSendRst\<close> count it.\<close>

definition seglen_ctl :: "tcppkt \<Rightarrow> u16" where
  "seglen_ctl p = (
     let n = tcpSeglen p;
         n = (if has (control p) TCP_CTRL_SYN then n + 1 else n)
     in if has (control p) TCP_CTRL_FIN then n + 1 else n)"

end
