(* ===== verification/Tcp_Timers.thy ===== *)
theory Tcp_Timers
  imports Tcp_State
begin

text \<open>
  The timer events of TCP, a delta queue in \<open>tcptimertab\<close>: \<open>tcpTimerSched.c\<close>,
  \<open>tcpTimerPurge.c\<close> and \<open>tcpTimerRemain.c\<close>. Entry 0 is the dummy head of the list. The mutex
  \<open>tcpmutex\<close> makes each operation atomic.
\<close>

abbreviation evt_upd :: "int \<Rightarrow> (tcpEvent \<Rightarrow> tcpEvent) \<Rightarrow> tcpst \<Rightarrow> tcpst option" where
  "evt_upd i f s \<equiv> do { tt \<leftarrow> aupd (tcptimertab s) i f; Some (s\<lparr>tcptimertab := tt\<rparr>) }"

text \<open>\<open>allocEvent\<close>: \<open>n\<close> more slots are tried.\<close>

fun allocEvent_loop :: "nat \<Rightarrow> tcpst \<Rightarrow> (int \<times> tcpst) option" where
  "allocEvent_loop 0 s = Some (SYSERR, s)"
| "allocEvent_loop (Suc n) s = do {
     s \<leftarrow> Some (s\<lparr>nextevt := (nextevt s + 1) mod int (length (tcptimertab s))\<rparr>);
     if TCP_EVT_HEAD = nextevt s then allocEvent_loop n s
     else do {
       e \<leftarrow> aget (tcptimertab s) (nextevt s);
       if \<not> used e
       then do { s \<leftarrow> evt_upd (nextevt s) (used_update (\<lambda>_. True)) s; Some (nextevt s, s) }
       else allocEvent_loop n s } }"

definition allocEvent :: "tcpst \<Rightarrow> (int \<times> tcpst) option" where
  "allocEvent s = allocEvent_loop (length (tcptimertab s)) s"

text \<open>The search for the place of the new event: the remaining time, the event before it and the one behind it.\<close>

partial_function (option) sched_loop :: "tcpEvent list \<Rightarrow> int \<Rightarrow> int \<Rightarrow> int option \<Rightarrow> (int \<times> int \<times> int option) option" where
  "sched_loop tt time prev nxt = (case nxt of
       None \<Rightarrow> Some (time, prev, nxt)
     | Some n \<Rightarrow> do {
         e \<leftarrow> aget tt n;
         if remain e \<le> time
         then do { time \<leftarrow> c_int (time - remain e); sched_loop tt time n (enext e) }
         else Some (time, prev, nxt) })"

declare sched_loop.simps [code]

definition tcpTimerSched :: "int \<Rightarrow> evttype \<Rightarrow> tcpst \<Rightarrow> (int \<times> tcpst) option" where
  "tcpTimerSched time typ s =
     (if time < 0 then Some (SYSERR, s)
      else do {
        (evt, s) \<leftarrow> allocEvent s;
        if evt = SYSERR then Some (SYSERR, s)
        else do {
          s \<leftarrow> evt_upd evt (\<lambda>e. e\<lparr>etime := time, etype := typ, etcb := cbid s\<rparr>) s;
          h \<leftarrow> aget (tcptimertab s) TCP_EVT_HEAD;
          (time, prev, nxt) \<leftarrow> sched_loop (tcptimertab s) time TCP_EVT_HEAD (enext h);
          s \<leftarrow> evt_upd evt (enext_update (\<lambda>_. nxt)) s;
          s \<leftarrow> evt_upd prev (enext_update (\<lambda>_. Some evt)) s;
          s \<leftarrow> evt_upd evt (remain_update (\<lambda>_. time)) s;
          s \<leftarrow> (case nxt of
                 None \<Rightarrow> Some s
               | Some n \<Rightarrow> do {
                   e \<leftarrow> aget (tcptimertab s) n;
                   r \<leftarrow> c_int (remain e - time);
                   evt_upd n (remain_update (\<lambda>_. r)) s });
          Some (OK, s) } })"

text \<open>
  \<open>tcpTimerPurge\<close>: \<open>typ = None\<close> stands for the argument \<open>NULL\<close>, every type. The loop
  goes on from a removed event as if it were still in the list.
\<close>

partial_function (option) purge_loop :: "evttype option \<Rightarrow> int \<Rightarrow> int option \<Rightarrow> int \<Rightarrow> tcpst \<Rightarrow> (int \<times> tcpst) option" where
  "purge_loop typ prev cur result s = (case cur of
       None \<Rightarrow> Some (result, s)
     | Some c \<Rightarrow> do {
         e \<leftarrow> aget (tcptimertab s) c;
         (result, s) \<leftarrow>
           (if etcb e = cbid s \<and> (typ = None \<or> typ = Some (etype e))
            then do {
              result \<leftarrow> (if result = SYSERR then c_int (etime e - remain e) else Some result);
              s \<leftarrow> (case enext e of
                     None \<Rightarrow> Some s
                   | Some n \<Rightarrow> do {
                       e' \<leftarrow> aget (tcptimertab s) n;
                       r \<leftarrow> c_int (remain e' + remain e);
                       evt_upd n (remain_update (\<lambda>_. r)) s });
              s \<leftarrow> evt_upd prev (enext_update (\<lambda>_. enext e)) s;
              s \<leftarrow> evt_upd c (used_update (\<lambda>_. False)) s;
              Some (result, s) }
            else Some (result, s));
         e \<leftarrow> aget (tcptimertab s) c;
         purge_loop typ c (enext e) result s })"

declare purge_loop.simps [code]

definition tcpTimerPurge :: "evttype option \<Rightarrow> tcpst \<Rightarrow> (int \<times> tcpst) option" where
  "tcpTimerPurge typ s = do {
     h \<leftarrow> aget (tcptimertab s) TCP_EVT_HEAD;
     purge_loop typ TCP_EVT_HEAD (enext h) SYSERR s }"

partial_function (option) remain_loop :: "evttype \<Rightarrow> int option \<Rightarrow> int \<Rightarrow> tcpst \<Rightarrow> int option" where
  "remain_loop typ cur time s = (case cur of
       None \<Rightarrow> Some 0
     | Some c \<Rightarrow> do {
         e \<leftarrow> aget (tcptimertab s) c;
         time \<leftarrow> c_int (time + remain e);
         if etcb e = cbid s \<and> etype e = typ then Some time
         else remain_loop typ (enext e) time s })"

declare remain_loop.simps [code]

definition tcpTimerRemain :: "evttype \<Rightarrow> tcpst \<Rightarrow> int option" where
  "tcpTimerRemain typ s = do {
     h \<leftarrow> aget (tcptimertab s) TCP_EVT_HEAD;
     remain_loop typ (enext h) 0 s }"

end
