(* ===== verification/Tcp_Output.thy ===== *)
theory Tcp_Output
  imports Tcp_Timers
begin

text \<open>
  Sending: \<open>tcpSendWindow.c\<close>, \<open>tcpSend.c\<close>, \<open>tcpSendAck.c\<close>, \<open>tcpSendSyn.c\<close>,
  \<open>tcpSendData.c\<close>, \<open>tcpSendPersist.c\<close>, \<open>tcpSendRxt.c\<close>, \<open>tcpSendRst.c\<close>, and the end of a
  connection in \<open>tcpFree.c\<close> and \<open>tcpTimerTrigger.c\<close>.
\<close>

section \<open>Segments\<close>

text \<open>The window to advertise, which also moves the right edge \<open>rcvwnd\<close>.\<close>

definition tcpSendWindow :: "tcpst \<Rightarrow> u16 \<times> tcpst" where
  "tcpSendWindow s = (
     let wnd = ucast (word_of_nat TCP_IBLEN - icount (cb s) :: u32) :: u16 in
     if tstate (cb s) = TCP_CLOSED then (0, s)
     else if tstate (cb s) = TCP_LISTEN \<or> tstate (cb s) = TCP_SYNSENT \<or> tstate (cb s) = TCP_SYNRECV
     then (wnd, cbu (\<lambda>t. t\<lparr>rcvwnd := seqadd (rcvnxt t) (ucast wnd)\<rparr>) s)
     else
       let unused = ucast (tcpSeqdiff (rcvwnd (cb s)) (rcvnxt (cb s))) :: u16;
           wnd = (if unat wnd * 4 < TCP_IBLEN \<or> wnd < rcvmss (cb s) then 0 else wnd)
       in if wnd > unused then (wnd, cbu (\<lambda>t. t\<lparr>rcvwnd := seqadd (rcvnxt t) (ucast wnd)\<rparr>) s)
          else (unused, s))"

text \<open>
  \<open>tcpSend\<close>: a SYN or FIN counts in \<open>datalen\<close> and is not data; a SYN carries the maximum
  segment size. Octets are copied into a packet buffer of \<open>NET_MAX_PKTLEN\<close> octets.
\<close>

definition tcpSend :: "u8 \<Rightarrow> u32 \<Rightarrow> u32 \<Rightarrow> u32 \<Rightarrow> u16 \<Rightarrow> tcpst \<Rightarrow> (int \<times> tcpst) option" where
  "tcpSend ctrl sq ack datastart datalen s = (
     let datalen = (if has ctrl TCP_CTRL_SYN then datalen - 1 else datalen);
         msslen = (if has ctrl TCP_CTRL_SYN then 8 else 0);
         datalen = (if has ctrl TCP_CTRL_FIN then datalen - 1 else datalen);
         len = word_of_nat (TCP_HDR_LEN + unat datalen + msslen) :: u16
     in if unat len > NET_MAX_PKTLEN then Some (SYSERR, s)
        else if \<not> netok s then Some (SYSERR, s)
        else do {
          let (wnd, s) = tcpSendWindow s;
          _ \<leftarrow> c_guard (TCP_HDR_LEN + msslen + unat datalen \<le> NET_MAX_PKTLEN);
          let sg = \<lparr>sg_srcpt = localpt (cb s), sg_dstpt = remotept (cb s), sg_seqnum = sq, sg_acknum = ack,
            sg_offset = octets2offset (TCP_HDR_LEN + msslen), sg_control = ctrl, sg_window = wnd,
            sg_mss = (if has ctrl TCP_CTRL_SYN then Some (rcvmss (cb s) + word_of_nat TCP_HDR_LEN) else None),
            sg_data = map (\<lambda>i. obuf (cb s) (unat (datastart + word_of_nat i) mod TCP_OBLEN)) [0..<unat datalen]\<rparr>;
          Some (if ipok s then OK else SYSERR, s\<lparr>sent := sent s @ [sg]\<rparr>) })"

definition tcpSendAck :: "tcpst \<Rightarrow> (int \<times> tcpst) option" where
  "tcpSendAck s = (let s = clear_sndflg TCP_FLG_SNDACK s in
     tcpSend TCP_CTRL_ACK (sndnxt (cb s)) (rcvnxt (cb s)) 0 0 s)"

definition tcpSendSyn :: "tcpst \<Rightarrow> (int \<times> tcpst) option" where
  "tcpSendSyn s = do {
     let (ctl, s) = (if has (sndflg (cb s)) TCP_FLG_SNDACK
                     then (TCP_CTRL_SYN OR TCP_CTRL_ACK, clear_sndflg TCP_FLG_SNDACK s) else (TCP_CTRL_SYN, s));
     (r, s) \<leftarrow> tcpSend ctl (sndnxt (cb s)) (rcvnxt (cb s)) 0 1 s;
     if r = SYSERR then Some (SYSERR, s)
     else do {
       let s = cbu (\<lambda>t. t\<lparr>sndnxt := sndnxt t + 1, sndflg := sndflg t OR TCP_FLG_SYN\<rparr>) s;
       (r, s) \<leftarrow> tcpTimerSched (rxttime (cb s)) TCP_EVT_RXT s;
       if r = SYSERR then Some (SYSERR, s) else Some (OK, s) } }"

section \<open>Data\<close>

text \<open>The loop that sends segments of the maximum size.\<close>

partial_function (option) senddata_loop :: "u32 \<Rightarrow> u32 \<Rightarrow> u32 \<Rightarrow> tcpst \<Rightarrow> (u32 \<times> u32 \<times> u32 \<times> tcpst) option" where
  "senddata_loop tosend snt wndused s =
     (if tosend > ucast (sndmss (cb s))
      then do {
        (_, s) \<leftarrow> tcpSend TCP_CTRL_ACK (sndnxt (cb s)) (rcvnxt (cb s))
          ((ostart (cb s) + wndused) mod word_of_nat TCP_OBLEN) (sndmss (cb s)) s;
        let mss = (ucast (sndmss (cb s)) :: u32);
        senddata_loop (tosend - mss) (snt + mss) (wndused + mss)
          (cbu (\<lambda>t. t\<lparr>sndnxt := seqadd (sndnxt t) (ucast (sndmss t))\<rparr>) s) }
      else Some (tosend, snt, wndused, s))"

declare senddata_loop.simps [code]

text \<open>\<open>if (tcpTimerRemain(tcbptr, TCP_EVT_RXT) <= 0) tcpTimerSched(tcbptr->rxttime, tcbptr, TCP_EVT_RXT);\<close>\<close>

definition rxt_ensure :: "tcpst \<Rightarrow> tcpst option" where
  "rxt_ensure s = do {
     r \<leftarrow> tcpTimerRemain TCP_EVT_RXT s;
     if r \<le> 0 then do { (_, s) \<leftarrow> tcpTimerSched (rxttime (cb s)) TCP_EVT_RXT s; Some s } else Some s }"

text \<open>The amount of data still to be acknowledged or sent, with the FIN.\<close>

definition out_pending :: "tcb \<Rightarrow> u32" where
  "out_pending t = (if has (sndflg t) TCP_FLG_FIN then ocount t + 1 else ocount t)"

text \<open>The part of \<open>tcpSendData\<close> behind its checks: there is data, and room in the window.\<close>

definition tcpSendData_go :: "tcpst \<Rightarrow> (int \<times> tcpst) option" where
  "tcpSendData_go s = do {
     let pending = out_pending (cb s);
     let wndused = tcpSeqdiff (sndnxt (cb s)) (snduna (cb s));
     let (tosend, ctrl) =
       (if pending > sndwnd (cb s) then (sndwnd (cb s) - wndused, TCP_CTRL_ACK)
        else (pending - wndused, if has (sndflg (cb s)) TCP_FLG_FIN then TCP_CTRL_ACK OR TCP_CTRL_FIN else TCP_CTRL_ACK));
     (tosend, snt, wndused, s) \<leftarrow> senddata_loop tosend 0 wndused s;
     (_, s) \<leftarrow> tcpSend ctrl (sndnxt (cb s)) (rcvnxt (cb s))
       ((ostart (cb s) + wndused) mod word_of_nat TCP_OBLEN) (ucast tosend) s;
     let snt = snt + tosend;
     let s = cbu (\<lambda>t. t\<lparr>sndnxt := seqadd (sndnxt t) tosend\<rparr>) s;
     s \<leftarrow> rxt_ensure s;
     let s = (if snt > 0 then clear_sndflg TCP_FLG_SNDACK s else s);
     Some (sint snt, clear_sndflg TCP_FLG_SNDDATA s) }"

definition tcpSendData :: "tcpst \<Rightarrow> (int \<times> tcpst) option" where
  "tcpSendData s =
     (if sndmss (cb s) = 0 then Some (SYSERR, s)
      else do {
        fin \<leftarrow> c_and (Some (has (sndflg (cb s)) TCP_FLG_FIN)) (seqlt (sndfin (cb s)) (sndnxt (cb s)));
        if fin then Some (SYSERR, s)
        else if rxtcount (cb s) > 0 \<or> has (sndflg (cb s)) TCP_FLG_PERSIST then Some (0, s)
        else if sndwnd (cb s) = 0
        then do {
          let s = set_sndflg TCP_FLG_PERSIST s;
          let s = cbu (\<lambda>t. t\<lparr>psttime := TCP_PST_INITTIME\<rparr>) s;
          (_, s) \<leftarrow> tcpTimerSched (psttime (cb s)) TCP_EVT_PERSIST s;
          Some (0, s) }
        else do {
          full \<leftarrow> seqlte (seqadd (snduna (cb s)) (sndwnd (cb s))) (sndnxt (cb s));
          if full then Some (0, s)
          else if out_pending (cb s) = tcpSeqdiff (sndnxt (cb s)) (snduna (cb s))
          then do {
            b \<leftarrow> seqlt (snduna (cb s)) (sndnxt (cb s));
            s \<leftarrow> (if b then rxt_ensure s else Some s);
            Some (0, s) }
          else tcpSendData_go s } })"

section \<open>Timer events\<close>

definition zero_addr :: netaddr where
  "zero_addr = \<lparr>na_type = 0, na_len = 0, na_addr = replicate 6 0\<rparr>"

text \<open>A control block after \<open>bzero\<close>.\<close>

definition zero_tcb :: tcb where
  "zero_tcb = \<lparr>tstate = TCP_CLOSED, devstate = TCP_FREE, mutex = 0, localpt = 0, remotept = 0, localip = zero_addr,
     remoteip = zero_addr, opentype = TCP_PASSIVE, openclose = 0, rcvnxt = 0, rcvwnd = 0, rcvfin = 0, rcvmss = 0, rcvflg = 0,
     readers = 0, istart = 0, icount = 0, inxt = 0, ibuf = (\<lambda>_. 0), imark = (\<lambda>_. False), ibytes = 0, snduna = 0, sndnxt = 0,
     sndwnd = 0, sndcwn = 0, sndsst = 0, sndwl1 = 0, sndwl2 = 0, iss = 0, sndfin = 0, sndmss = 0, sndflg = 0, sndrtt = 0,
     sndrtd = 0, rxttime = 0, rxtcount = 0, psttime = 0, writers = 0, ostart = 0, ocount = 0, obuf = (\<lambda>_. 0), obytes = 0\<rparr>"

definition tsemfree :: "u32 \<Rightarrow> tcpst \<Rightarrow> tcpst" where
  "tsemfree sm s = s\<lparr>semcnts := (semcnts s)(sm := 0)\<rparr>"

definition tcpFree :: "tcpst \<Rightarrow> (int \<times> tcpst) option" where
  "tcpFree s =
     (if tstate (cb s) = TCP_CLOSED then Some (SYSERR, s)
      else do {
        let temp = mutex (cb s);
        let s = tsemfree (openclose (cb s)) s;
        let s = tsemfree (readers (cb s)) s;
        let s = tsemfree (writers (cb s)) s;
        (_, s) \<leftarrow> tcpTimerPurge None s;
        let s = s\<lparr>cb := zero_tcb\<rparr>;
        Some (OK, cbu (\<lambda>t. t\<lparr>tstate := TCP_CLOSED, devstate := TCP_FREE, mutex := temp\<rparr>) s) })"

definition tcpSendPersist :: "tcpst \<Rightarrow> (int \<times> tcpst) option" where
  "tcpSendPersist s =
     (if ocount (cb s) \<le> 0 then Some (SYSERR, clear_sndflg TCP_FLG_PERSIST s)
      else do {
        _ \<leftarrow> c_guard (psttime (cb s) \<ge> 0);
        p \<leftarrow> c_int (psttime (cb s) * 2);
        let s = cbu (\<lambda>t. t\<lparr>psttime := (if p > TCP_PST_MAXTIME then TCP_PST_MAXTIME else p)\<rparr>) s;
        (_, s) \<leftarrow> tcpTimerSched (psttime (cb s)) TCP_EVT_PERSIST s;
        let tosend = (if ocount (cb s) > ucast (sndmss (cb s)) then ucast (sndmss (cb s)) else ocount (cb s));
        (_, s) \<leftarrow> tcpSend TCP_CTRL_ACK (snduna (cb s)) (rcvnxt (cb s)) (ostart (cb s)) (ucast tosend) s;
        Some (sint tosend, s) })"

text \<open>The congestion window after a retransmission.\<close>

definition rxt_backoff :: "bool \<Rightarrow> tcb \<Rightarrow> tcb" where
  "rxt_backoff first t = (
     let t = (if first then t\<lparr>sndsst := sndcwn t\<rparr> else t);
         t = (if sndwnd t < sndsst t then t\<lparr>sndsst := sndwnd t div 2\<rparr> else t\<lparr>sndsst := sndsst t div 2\<rparr>);
         t = (if sndsst t < ucast (sndmss t) then t\<lparr>sndsst := ucast (sndmss t)\<rparr> else t)
     in t\<lparr>sndcwn := ucast (sndmss t)\<rparr>)"

definition tcpSendRxt_data :: "bool \<Rightarrow> tcpst \<Rightarrow> (int \<times> tcpst) option" where
  "tcpSendRxt_data first s = do {
     let pending = tcpSeqdiff (sndnxt (cb s)) (snduna (cb s));
     fin \<leftarrow> c_and (Some (has (sndflg (cb s)) TCP_FLG_FIN))
       (c_and (seqlte (snduna (cb s)) (sndfin (cb s))) (seqlt (sndfin (cb s)) (sndnxt (cb s))));
     let ctl = (if fin then TCP_CTRL_ACK OR TCP_CTRL_FIN else TCP_CTRL_ACK);
     let (tosend, ctl) = (if pending > ucast (sndmss (cb s)) then (ucast (sndmss (cb s)), ctl AND NOT TCP_CTRL_FIN) else (pending, ctl));
     (_, s) \<leftarrow> tcpSend ctl (snduna (cb s)) (rcvnxt (cb s)) (ostart (cb s)) (ucast tosend) s;
     Some (sint tosend, cbu (rxt_backoff first) s) }"

definition tcpSendRxt :: "tcpst \<Rightarrow> (int \<times> tcpst) option" where
  "tcpSendRxt s = do {
     b \<leftarrow> seqlt (snduna (cb s)) (sndnxt (cb s));
     if \<not> b \<or> has (sndflg (cb s)) TCP_FLG_PERSIST then Some (SYSERR, s)
     else do {
       let first = (rxtcount (cb s) = 0);
       let s = cbu (\<lambda>t. t\<lparr>rxtcount := rxtcount t + 1\<rparr>) s;
       if rxtcount (cb s) > TCP_RXT_MAXCOUNT then do { (_, s) \<leftarrow> tcpFree s; Some (0, s) }
       else do {
         _ \<leftarrow> c_guard (rxttime (cb s) \<ge> 0);
         time \<leftarrow> c_int (rxttime (cb s) * 2 ^ unat (rxtcount (cb s)));
         let time = (if time > TCP_RXT_MAXTIME then TCP_RXT_MAXTIME else time);
         (_, s) \<leftarrow> tcpTimerSched time TCP_EVT_RXT s;
         if has (sndflg (cb s)) TCP_FLG_SYN \<and> snduna (cb s) = iss (cb s)
         then do {
           let ctl = (if has (rcvflg (cb s)) TCP_FLG_SYN then TCP_CTRL_SYN OR TCP_CTRL_ACK else TCP_CTRL_SYN);
           (_, s) \<leftarrow> tcpSend ctl (snduna (cb s)) (rcvnxt (cb s)) 0 1 s;
           Some (1, s) }
         else tcpSendRxt_data first s } } }"

definition tcpTimerTrigger :: "evttype \<Rightarrow> tcpst \<Rightarrow> tcpst option" where
  "tcpTimerTrigger typ s = (case typ of
       TCP_EVT_TIMEWT \<Rightarrow> do { (_, s) \<leftarrow> tcpFree s; Some s }
     | TCP_EVT_RXT \<Rightarrow> do { (_, s) \<leftarrow> tcpSendRxt s; Some s }
     | TCP_EVT_PERSIST \<Rightarrow> do { (_, s) \<leftarrow> tcpSendPersist s; Some s })"

section \<open>Resets\<close>

text \<open>
  A reset in reply to the segment. The window field of the reply is not written; \<open>junk\<close> is what
  the packet buffer held.
\<close>

definition tcpSendRst :: "u16 \<Rightarrow> tcpst \<Rightarrow> (int \<times> tcpst) option" where
  "tcpSendRst junk s = (let p = pkt s in
     if has (control p) TCP_CTRL_RST then Some (OK, s)
      else if \<not> netok s then Some (SYSERR, s)
      else do {
        let (sq, ctl) = (if has (control p) TCP_CTRL_ACK then (acknum p, TCP_CTRL_RST) else (0, TCP_CTRL_RST OR TCP_CTRL_ACK));
        let datalen = seglen_ctl p;
        let sg = \<lparr>sg_srcpt = dstpt p, sg_dstpt = srcpt p, sg_seqnum = sq, sg_acknum = seqnum p + ucast datalen,
          sg_offset = octets2offset TCP_HDR_LEN, sg_control = ctl, sg_window = junk, sg_mss = None, sg_data = []\<rparr>;
        Some (if ipok s then OK else SYSERR, s\<lparr>sent := sent s @ [sg]\<rparr>) })"

end
