(* ===== verification/Tcp_Input.thy ===== *)
theory Tcp_Input
  imports Tcp_Output
begin

text \<open>
  Receiving: \<open>tcpRecvOpts.c\<close>, \<open>tcpRecvValid.c\<close>, \<open>tcpRecvRtt.c\<close>, \<open>tcpRecvAck.c\<close>,
  \<open>tcpRecvData.c\<close>, \<open>tcpRecvListen.c\<close>, \<open>tcpRecvSynsent.c\<close>, \<open>tcpRecvOther.c\<close> and
  \<open>tcpRecv.c\<close>.
\<close>

section \<open>Options and acceptability\<close>

partial_function (option) opts_loop :: "u8 list \<Rightarrow> int \<Rightarrow> int \<Rightarrow> tcpst \<Rightarrow> tcpst option" where
  "opts_loop xs endopt i s = do {
     o1 \<leftarrow> aget xs i;
     if o1 \<noteq> TCP_OPT_END \<and> i < endopt
     then if o1 = TCP_OPT_MSS
       then do {
         lo \<leftarrow> aget xs (i + 2);
         hi \<leftarrow> aget xs (i + 3);
         opts_loop xs endopt (i + 4)
           (cbu (\<lambda>t. t\<lparr>sndmss := ucast lo + push_bit 8 (ucast hi) - word_of_nat TCP_HDR_LEN\<rparr>) s) }
       else opts_loop xs endopt (i + 1) s
     else Some s }"

declare opts_loop.simps [code]

definition tcpRecvOpts :: "tcpst \<Rightarrow> tcpst option" where
  "tcpRecvOpts s =
     (if offset2octets (offset (pkt s)) = TCP_HDR_LEN then Some s
      else opts_loop (octets (pkt s)) (int (offset2octets (offset (pkt s)))) (int TCP_HDR_LEN) s)"

text \<open>The checks of RFC 793; with a closed window the segment is cut down to its ACK, URG and RST.\<close>

definition tcpRecvValid :: "tcpst \<Rightarrow> (bool \<times> tcpst) option" where
  "tcpRecvValid s = do {
     let p = pkt s;
     let t = cb s;
     let seglen = seglen_ctl p;
     let availwnd = tcpSeqdiff (rcvwnd t) (rcvnxt t);
     result \<leftarrow>
       (if seglen = 0 \<and> availwnd = 0 then Some (seqnum p = rcvnxt t)
        else if seglen = 0 \<and> availwnd > 0
        then do { a \<leftarrow> seqlte (rcvnxt t) (seqnum p); b \<leftarrow> seqlt (seqnum p) (rcvwnd t); Some (a \<and> b) }
        else if availwnd = 0 then Some False
        else do {
          a \<leftarrow> seqlte (rcvnxt t) (seqnum p);
          b \<leftarrow> seqlt (seqnum p) (rcvwnd t);
          let temp = seqadd (seqnum p) (ucast seglen - 1);
          c \<leftarrow> seqlte (rcvnxt t) temp;
          d \<leftarrow> seqlt temp (rcvwnd t);
          Some (a \<and> b \<or> c \<and> d) });
     let p = (if availwnd = 0
              then p\<lparr>control := control p AND NOT (TCP_CTRL_PSH OR TCP_CTRL_SYN OR TCP_CTRL_FIN), tcplen := tcplen p - seglen\<rparr>
              else p);
     Some (result, s\<lparr>pkt := p\<rparr>) }"

section \<open>Acknowledgements\<close>

text \<open>The estimate of the round trip time from one measurement.\<close>

definition rtt_update :: "int \<Rightarrow> tcb \<Rightarrow> tcb option" where
  "rtt_update rtt t = do {
     t \<leftarrow> (if sndrtt t = 0
          then do { _ \<leftarrow> c_guard (rtt \<ge> 0); r \<leftarrow> c_int (rtt * 8); Some (t\<lparr>sndrtt := r\<rparr>) } else Some t);
     delta \<leftarrow> c_int (rtt - sndrtt t div 8);
     r \<leftarrow> c_int (sndrtt t + delta);
     let t = t\<lparr>sndrtt := r\<rparr>;
     delta \<leftarrow> c_int \<bar>delta\<bar>;
     d \<leftarrow> c_int (delta - sndrtd t div 4);
     d \<leftarrow> c_int (sndrtd t + d);
     let t = t\<lparr>sndrtd := d\<rparr>;
     x \<leftarrow> c_int (sndrtt t div 4 + sndrtd t);
     Some (t\<lparr>rxttime := (if x div 2 < TCP_RXT_MINTIME then TCP_RXT_MINTIME else x div 2)\<rparr>) }"

definition tcpRecvRtt :: "tcpst \<Rightarrow> tcpst option" where
  "tcpRecvRtt s = do {
     (rtt, s) \<leftarrow> tcpTimerPurge (Some TCP_EVT_RXT) s;
     t \<leftarrow> (if rtt \<noteq> SYSERR \<and> rxtcount (cb s) = 0 then rtt_update rtt (cb s) else Some (cb s));
     if sndcwn t < sndsst t
     then Some (s\<lparr>cb := t\<lparr>sndcwn := sndcwn t + ucast (sndmss t)\<rparr>\<rparr>)
     else do {
       q \<leftarrow> c_int (uint (sndmss t) * uint (sndmss t));
       _ \<leftarrow> c_guard (sndcwn t \<noteq> 0);
       Some (s\<lparr>cb := t\<lparr>sndcwn := sndcwn t + word_of_int q div sndcwn t\<rparr>\<rparr>) } }"

text \<open>New data is acknowledged: it leaves the output buffer.\<close>

definition ack_new :: "tcpst \<Rightarrow> tcpst option" where
  "ack_new s = do {
     let t = cb s;
     let amt = tcpSeqdiff (acknum (pkt s)) (snduna t);
     let amt = (if has (sndflg t) TCP_FLG_SYN \<and> snduna t = iss t then amt - 1 else amt);
     fin \<leftarrow> c_and (Some (has (sndflg t) TCP_FLG_FIN)) (seqlt (sndfin t) (acknum (pkt s)));
     let amt = (if fin then amt - 1 else amt);
     let s = s\<lparr>cb := t\<lparr>ostart := (ostart t + amt) mod word_of_nat TCP_OBLEN, ocount := ocount t - amt, obytes := obytes t + amt\<rparr>\<rparr>;
     let s = (if ocount (cb s) < word_of_nat TCP_OBLEN then tsignal (writers (cb s)) s else s);
     let s = cbu (\<lambda>t. t\<lparr>snduna := acknum (pkt s), rxtcount := 0\<rparr>) s;
     s \<leftarrow> tcpRecvRtt s;
     b \<leftarrow> seqlt (snduna (cb s)) (sndnxt (cb s));
     s \<leftarrow> (if b then do { (_, s) \<leftarrow> tcpTimerSched (rxttime (cb s)) TCP_EVT_RXT s; Some s } else Some s);
     Some (set_sndflg TCP_FLG_SNDDATA s) }"

text \<open>The peer's window.\<close>

definition ack_window :: "tcpst \<Rightarrow> tcpst option" where
  "ack_window s = do {
     let oldend = seqadd (sndwl2 (cb s)) (sndwnd (cb s));
     let newend = seqadd (acknum (pkt s)) (ucast (window (pkt s)));
     let s = cbu (\<lambda>t. t\<lparr>sndwnd := ucast (window (pkt s)), sndwl1 := seqnum (pkt s), sndwl2 := acknum (pkt s)\<rparr>) s;
     b \<leftarrow> seqlte newend oldend;
     if \<not> b
     then do {
       (_, s) \<leftarrow> tcpTimerPurge (Some TCP_EVT_PERSIST) s;
       Some (set_sndflg TCP_FLG_SNDDATA (clear_sndflg TCP_FLG_PERSIST s)) }
     else Some s }"

definition tcpRecvAck :: "tcpst \<Rightarrow> tcpst option" where
  "tcpRecvAck s = do {
     new \<leftarrow> c_and (seqlt (snduna (cb s)) (acknum (pkt s))) (seqlte (acknum (pkt s)) (sndnxt (cb s)));
     s \<leftarrow> (if new then ack_new s else Some s);
     upd \<leftarrow> c_or (seqlt (sndwl1 (cb s)) (seqnum (pkt s)))
       (c_and (Some (sndwl1 (cb s) = seqnum (pkt s))) (seqlte (sndwl2 (cb s)) (acknum (pkt s))));
     s \<leftarrow> (if upd then ack_window s else Some s);
     b \<leftarrow> seqlt (sndnxt (cb s)) (acknum (pkt s));
     Some (if b then set_sndflg TCP_FLG_SNDACK s else s) }"

section \<open>Data\<close>

text \<open>Octets go into the input buffer from index \<open>i\<close> on.\<close>

fun store_octets :: "u32 \<Rightarrow> u8 list \<Rightarrow> tcb \<Rightarrow> tcb" where
  "store_octets i [] t = t"
| "store_octets i (x # xs) t = store_octets (i + 1) xs
     (t\<lparr>ibuf := (ibuf t)(unat i mod TCP_IBLEN := x), imark := (imark t)(unat i mod TCP_IBLEN := True)\<rparr>)"

text \<open>One octet more is available to the reader.\<close>

definition take_octet :: "tcb \<Rightarrow> tcb" where
  "take_octet t = t\<lparr>icount := icount t + 1, ibytes := ibytes t + 1, inxt := (inxt t + 1) mod word_of_nat TCP_IBLEN,
     rcvnxt := seqadd (rcvnxt t) 1\<rparr>"

text \<open>The loop over octets that had arrived early; \<open>True\<close> when it reaches the FIN.\<close>

lemma catch_up_decreases:
  assumes "icount t < word_of_nat TCP_IBLEN"
  shows "TCP_IBLEN - unat (icount (take_octet t)) < TCP_IBLEN - unat (icount t)"
proof -
  have lt: "unat (icount t) < TCP_IBLEN" using assms by (simp add: TCP_IBLEN_def word_less_nat_alt)
  then have "unat (icount t + 1) = unat (icount t) + 1"
    using unat_add32 [of "icount t" 1] by (simp add: TCP_IBLEN_def)
  with lt show ?thesis by (simp add: take_octet_def)
qed

function catch_up :: "tcb \<Rightarrow> bool \<times> tcb" where
  "catch_up t =
     (if icount t < word_of_nat TCP_IBLEN \<and> imark t (unat (inxt t))
      then let t = take_octet t in
        if has (rcvflg t) TCP_FLG_FIN \<and> rcvnxt t = rcvfin t then (True, t) else catch_up t
      else (False, t))"
  by pat_completeness auto
termination
  by (relation "measure (\<lambda>t. TCP_IBLEN - unat (icount t))") (auto intro: catch_up_decreases)

declare catch_up.simps [simp del]

text \<open>The octets up to \<open>n\<close> of a segment that starts at \<open>inxt\<close> become available.\<close>

definition take_segment :: "u16 \<Rightarrow> tcb \<Rightarrow> tcb" where
  "take_segment n t = t\<lparr>icount := icount t + ucast n, ibytes := ibytes t + ucast n,
     inxt := (inxt t + ucast n) mod word_of_nat TCP_IBLEN, rcvnxt := seqadd (rcvnxt t) (ucast n)\<rparr>"

text \<open>Where a segment starts, in its octets and in the input buffer, and how much of it fits.\<close>

definition place_segment :: "tcpst \<Rightarrow> (u32 \<times> nat \<times> u16 \<times> tcpst) option" where
  "place_segment s = do {
     let p = pkt s;
     let t = cb s;
     old \<leftarrow> seqlt (seqnum p) (rcvnxt t);
     let ofs = (if old then tcpSeqdiff (rcvnxt t) (seqnum p) else tcpSeqdiff (seqnum p) (rcvnxt t));
     let data = offset2octets (offset p) + (if old then unat ofs else 0);
     let seglen = (if old then tcpSeglen p - ucast ofs else tcpSeglen p);
     let start = (if old then inxt t else (inxt t + ofs) mod word_of_nat TCP_IBLEN);
     let wnd = tcpSeqdiff (rcvwnd t) (rcvnxt t) - ofs;
     if ucast seglen > wnd
     then Some (start, data, ucast wnd, set_control (control p AND NOT TCP_CTRL_FIN) s)
     else Some (start, data, seglen, s) }"

definition recv_store :: "tcpst \<Rightarrow> (u16 \<times> tcpst) option" where
  "recv_store s =
     (if tcpSeglen (pkt s) > 0 \<and> tstate (cb s) \<in> {TCP_ESTAB, TCP_FINWT1, TCP_FINWT2}
      then do {
        (start, data, seglen, s) \<leftarrow> place_segment s;
        _ \<leftarrow> c_guard (seglen = 0 \<or> data + unat seglen \<le> length (octets (pkt s)));
        let s = cbu (store_octets start (take (unat seglen) (drop data (octets (pkt s))))) s;
        if start = inxt (cb s)
        then do {
          let (fin, t) = catch_up (take_segment seglen (cb s));
          let s = (if fin then set_control (control (pkt s) OR TCP_CTRL_FIN) s else s);
          let s = s\<lparr>cb := t\<rparr>;
          let s = (if semcnts s (readers t) < 1 then tsignal (readers t) s else s);
          Some (seglen, set_sndflg TCP_FLG_SNDACK s) }
        else Some (seglen, s) }
      else Some (tcpSeglen (pkt s), s))"

text \<open>The FIN is the next thing expected.\<close>

definition fin_next :: "tcpst \<Rightarrow> tcpst option" where
  "fin_next s = do {
     let s = (if semcnts s (readers (cb s)) < 0 then tsignaln (readers (cb s)) (semcnts s (readers (cb s)) * - 1) s else s);
     s \<leftarrow> (case tstate (cb s) of
         TCP_SYNRECV \<Rightarrow> Some (cbu (\<lambda>t. t\<lparr>rcvnxt := seqadd (rcvnxt t) 1, tstate := TCP_CLOSEWT\<rparr>) s)
       | TCP_ESTAB \<Rightarrow> Some (cbu (\<lambda>t. t\<lparr>rcvnxt := seqadd (rcvnxt t) 1, tstate := TCP_CLOSEWT\<rparr>) s)
       | TCP_FINWT1 \<Rightarrow> do {
           let s = cbu (\<lambda>t. t\<lparr>rcvnxt := seqadd (rcvnxt t) 1\<rparr>) s;
           b \<leftarrow> seqlt (sndfin (cb s)) (snduna (cb s));
           if b
           then do {
             (_, s) \<leftarrow> tcpTimerSched TCP_TWOMSL TCP_EVT_TIMEWT s;
             (_, s) \<leftarrow> tcpTimerPurge None s;
             Some (cbu (\<lambda>t. t\<lparr>tstate := TCP_TIMEWT\<rparr>) s) }
           else Some (cbu (\<lambda>t. t\<lparr>tstate := TCP_CLOSING\<rparr>) s) }
       | TCP_FINWT2 \<Rightarrow> do {
           let s = cbu (\<lambda>t. t\<lparr>rcvnxt := seqadd (rcvnxt t) 1\<rparr>) s;
           (_, s) \<leftarrow> tcpTimerPurge None s;
           (_, s) \<leftarrow> tcpTimerSched TCP_TWOMSL TCP_EVT_TIMEWT s;
           Some s }
       | TCP_TIMEWT \<Rightarrow> do {
           (_, s) \<leftarrow> tcpTimerPurge None s;
           (_, s) \<leftarrow> tcpTimerSched TCP_TWOMSL TCP_EVT_TIMEWT s;
           Some (set_sndflg TCP_FLG_SNDACK s) }
       | TCP_CLOSEWT \<Rightarrow> Some (set_sndflg TCP_FLG_SNDACK s)
       | TCP_CLOSING \<Rightarrow> Some (set_sndflg TCP_FLG_SNDACK s)
       | TCP_LASTACK \<Rightarrow> Some (set_sndflg TCP_FLG_SNDACK s)
       | _ \<Rightarrow> Some s);
     Some (set_sndflg TCP_FLG_SNDACK s) }"

definition recv_fin :: "u16 \<Rightarrow> tcpst \<Rightarrow> tcpst option" where
  "recv_fin seglen s =
     (if has (control (pkt s)) TCP_CTRL_FIN
      then do {
        let s = (if \<not> has (rcvflg (cb s)) TCP_FLG_FIN
                 then cbu (\<lambda>t. t\<lparr>rcvfin := seqadd (seqnum (pkt s)) (ucast seglen), rcvflg := rcvflg t OR TCP_FLG_FIN\<rparr>) s else s);
        if rcvnxt (cb s) = rcvfin (cb s) then fin_next s else Some s }
      else Some s)"

definition tcpRecvData :: "tcpst \<Rightarrow> (int \<times> tcpst) option" where
  "tcpRecvData s = do {
     (seglen, s) \<leftarrow> recv_store s;
     s \<leftarrow> recv_fin seglen s;
     s \<leftarrow> (if has (sndflg (cb s)) TCP_FLG_SNDDATA then do { (_, s) \<leftarrow> tcpSendData s; Some s } else Some s);
     s \<leftarrow> (if has (sndflg (cb s)) TCP_FLG_SNDACK then do { (_, s) \<leftarrow> tcpSendAck s; Some s } else Some s);
     Some (OK, s) }"

section \<open>The states of a connection\<close>

definition tcpRecvListen :: "netaddr \<Rightarrow> tcpst \<Rightarrow> (int \<times> tcpst) option" where
  "tcpRecvListen src s =
     (if has (control (pkt s)) TCP_CTRL_RST then Some (OK, s)
      else if has (control (pkt s)) TCP_CTRL_ACK then Some (OK, set_sndflg TCP_FLG_SNDRST s)
      else if has (control (pkt s)) TCP_CTRL_SYN
      then do {
        let s = cbu (\<lambda>t. t\<lparr>rcvnxt := seqadd (seqnum (pkt s)) 1, rcvwnd := seqadd (seqnum (pkt s)) TCP_INIT_WND,
          rcvflg := rcvflg t OR TCP_FLG_SYN, sndflg := sndflg t OR TCP_FLG_SNDACK\<rparr>) s;
        let s = (if remotept (cb s) = 0 then cbu (\<lambda>t. t\<lparr>remotept := srcpt (pkt s)\<rparr>) s else s);
        let s = (if na_type (remoteip (cb s)) = 0 then cbu (\<lambda>t. t\<lparr>remoteip := src\<rparr>) s else s);
        let s = cbu (\<lambda>t. t\<lparr>sndwnd := ucast (window (pkt s)), sndwl1 := seqnum (pkt s)\<rparr>) s;
        (_, s) \<leftarrow> tcpSendSyn s;
        s \<leftarrow> (if has (sndflg (cb s)) TCP_FLG_SNDACK then do { (_, s) \<leftarrow> tcpSendAck s; Some s } else Some s);
        tcpRecvData (cbu (\<lambda>t. t\<lparr>tstate := TCP_SYNRECV\<rparr>) s) }
      else Some (OK, s))"

text \<open>\<open>tcpRecvSynsent\<close> from its SYN on.\<close>

definition synsent_syn :: "bool \<Rightarrow> tcpst \<Rightarrow> (int \<times> tcpst) option" where
  "synsent_syn ackAccept s = do {
     let s = cbu (\<lambda>t. t\<lparr>sndwnd := ucast (window (pkt s)), sndwl1 := seqnum (pkt s), rcvnxt := seqadd (seqnum (pkt s)) 1,
       rcvwnd := seqadd (seqnum (pkt s)) TCP_INIT_WND, rcvflg := rcvflg t OR TCP_FLG_SYN, sndflg := sndflg t OR TCP_FLG_SNDACK\<rparr>) s;
     let s = (if ackAccept then cbu (\<lambda>t. t\<lparr>snduna := acknum (pkt s), sndwl2 := acknum (pkt s)\<rparr>) s else s);
     let s = cbu (\<lambda>t. t\<lparr>rxtcount := 0\<rparr>) s;
     (_, s) \<leftarrow> tcpTimerPurge (Some TCP_EVT_RXT) s;
     b \<leftarrow> seqlt (snduna (cb s)) (sndnxt (cb s));
     s \<leftarrow> (if b then do { (_, s) \<leftarrow> tcpTimerSched (rxttime (cb s)) TCP_EVT_RXT s; Some s } else Some s);
     acked \<leftarrow> seqlt (iss (cb s)) (snduna (cb s));
     if acked
     then tcpRecvData (set_sndflg TCP_FLG_SNDDATA (tsignal (openclose (cb s)) (cbu (\<lambda>t. t\<lparr>tstate := TCP_ESTAB\<rparr>) s)))
     else do {
       let s = cbu (\<lambda>t. t\<lparr>tstate := TCP_SYNRECV\<rparr>) s;
       (_, s) \<leftarrow> tcpSend (TCP_CTRL_SYN OR TCP_CTRL_ACK) (iss (cb s)) (rcvnxt (cb s)) 0 1 s;
       tcpRecvData s } }"

definition tcpRecvSynsent :: "tcpst \<Rightarrow> (int \<times> tcpst) option" where
  "tcpRecvSynsent s = do {
     bad \<leftarrow> c_and (Some (has (control (pkt s)) TCP_CTRL_ACK))
       (c_or (seqlte (acknum (pkt s)) (iss (cb s))) (seqlt (sndnxt (cb s)) (acknum (pkt s))));
     if bad
     then Some (OK, if has (control (pkt s)) TCP_CTRL_RST then s else set_sndflg TCP_FLG_SNDRST s)
     else do {
       ackAccept \<leftarrow> c_and (Some (has (control (pkt s)) TCP_CTRL_ACK))
         (c_and (seqlte (snduna (cb s)) (acknum (pkt s))) (seqlte (acknum (pkt s)) (sndnxt (cb s))));
       if has (control (pkt s)) TCP_CTRL_RST then Some (if ackAccept then TCP_ERR_RESET else OK, s)
       else if has (control (pkt s)) TCP_CTRL_SYN then synsent_syn ackAccept s
       else Some (OK, s) } }"

text \<open>
  The acknowledgement in each of the other states. \<open>Some\<close> result ends the processing of the
  segment, \<open>None\<close> goes on to its data.
\<close>

definition other_ack :: "tcpst \<Rightarrow> (int option \<times> tcpst) option" where
  "other_ack s = (case tstate (cb s) of
       TCP_SYNRECV \<Rightarrow> do {
         ok \<leftarrow> c_and (seqlte (snduna (cb s)) (acknum (pkt s))) (seqlte (acknum (pkt s)) (sndnxt (cb s)));
         if ok
         then do {
           s \<leftarrow> tcpRecvAck (tsignal (openclose (cb s)) (cbu (\<lambda>t. t\<lparr>tstate := TCP_ESTAB\<rparr>) s));
           Some (None, s) }
         else Some (Some OK, set_sndflg TCP_FLG_SNDRST s) }
     | TCP_CLOSEWT \<Rightarrow> do { s \<leftarrow> tcpRecvAck s; Some (None, s) }
     | TCP_ESTAB \<Rightarrow> do { s \<leftarrow> tcpRecvAck s; Some (None, s) }
     | TCP_FINWT1 \<Rightarrow> do {
         s \<leftarrow> tcpRecvAck s;
         b \<leftarrow> seqlte (sndfin (cb s)) (snduna (cb s));
         Some (None, if b then cbu (\<lambda>t. t\<lparr>tstate := TCP_FINWT2\<rparr>) (tsignal (openclose (cb s)) s) else s) }
     | TCP_FINWT2 \<Rightarrow> do {
         s \<leftarrow> tcpRecvAck s;
         r \<leftarrow> tcpTimerRemain TCP_EVT_RXT s;
         Some (None, if r \<le> 0 then tsignal (openclose (cb s)) s else s) }
     | TCP_CLOSING \<Rightarrow> do {
         s \<leftarrow> tcpRecvAck s;
         b \<leftarrow> seqlte (sndfin (cb s)) (snduna (cb s));
         if b
         then do {
           let s = cbu (\<lambda>t. t\<lparr>tstate := TCP_FINWT2\<rparr>) (tsignal (openclose (cb s)) s);
           (_, s) \<leftarrow> tcpTimerSched TCP_TWOMSL TCP_EVT_TIMEWT s;
           Some (None, s) }
         else Some (None, s) }
     | TCP_LASTACK \<Rightarrow> do {
         b \<leftarrow> seqlte (sndfin (cb s)) (snduna (cb s));
         if b then Some (Some TCP_ERR_RESET, tsignal (openclose (cb s)) s) else Some (None, s) }
     | TCP_TIMEWT \<Rightarrow> do {
         (_, s) \<leftarrow> tcpTimerPurge None s;
         (_, s) \<leftarrow> tcpTimerSched TCP_TWOMSL TCP_EVT_TIMEWT s;
         Some (None, s) }
     | _ \<Rightarrow> Some (None, s))"

text \<open>A reset in a synchronised state; \<open>None\<close> when the segment carries none.\<close>

definition other_rst :: "tcpst \<Rightarrow> (int option \<times> tcpst) option" where
  "other_rst s =
     (if has (control (pkt s)) TCP_CTRL_RST
      then (case tstate (cb s) of
          TCP_SYNRECV \<Rightarrow> do {
            let s = cbu (\<lambda>t. t\<lparr>rxtcount := 0\<rparr>) s;
            (_, s) \<leftarrow> tcpTimerPurge (Some TCP_EVT_RXT) s;
            if opentype (cb s) = TCP_PASSIVE then Some (Some OK, cbu (\<lambda>t. t\<lparr>tstate := TCP_LISTEN\<rparr>) s)
            else Some (Some TCP_ERR_RESET, s) }
        | TCP_CLOSED \<Rightarrow> Some (None, s) | TCP_LISTEN \<Rightarrow> Some (None, s) | TCP_SYNSENT \<Rightarrow> Some (None, s)
        | _ \<Rightarrow> Some (Some TCP_ERR_RESET, s))
      else Some (None, s))"

definition tcpRecvOther :: "tcpst \<Rightarrow> (int \<times> tcpst) option" where
  "tcpRecvOther s = do {
     (segAccept, s) \<leftarrow> tcpRecvValid s;
     if \<not> segAccept
     then if has (control (pkt s)) TCP_CTRL_RST then Some (OK, s)
       else do { (_, s) \<leftarrow> tcpSendAck s; Some (OK, s) }
     else do {
       (r, s) \<leftarrow> other_rst s;
       case r of Some v \<Rightarrow> Some (v, s)
       | None \<Rightarrow>
         if has (control (pkt s)) TCP_CTRL_SYN then Some (TCP_ERR_RESET, set_sndflg TCP_FLG_SNDRST s)
         else if \<not> has (control (pkt s)) TCP_CTRL_ACK then Some (OK, s)
         else do {
           (r, s) \<leftarrow> other_ack s;
           case r of Some v \<Rightarrow> Some (v, s) | None \<Rightarrow> tcpRecvData s } } }"

text \<open>
  \<open>tcpRecv\<close> for a segment whose checksum is right and whose socket is \<open>cb\<close>. The packet buffer is
  returned to its pool at the end, which always succeeds.
\<close>

definition tcpRecv :: "u16 \<Rightarrow> netaddr \<Rightarrow> tcpst \<Rightarrow> (int \<times> tcpst) option" where
  "tcpRecv junk src s =
     (if tstate (cb s) = TCP_CLOSED then do { (_, s) \<leftarrow> tcpSendRst junk s; Some (OK, s) }
      else do {
        s \<leftarrow> tcpRecvOpts s;
        (result, s) \<leftarrow> (case tstate (cb s) of
            TCP_LISTEN \<Rightarrow> tcpRecvListen src s
          | TCP_SYNSENT \<Rightarrow> tcpRecvSynsent s
          | TCP_CLOSED \<Rightarrow> Some (0, s)
          | _ \<Rightarrow> tcpRecvOther s);
        s \<leftarrow> (if has (sndflg (cb s)) TCP_FLG_SNDRST then do { (_, s) \<leftarrow> tcpSendRst junk s; Some s } else Some s);
        if result = TCP_ERR_RESET then tcpFree s else Some (result, s) })"

end
