(* ===== verification/Tcp_Calls.thy ===== *)
theory Tcp_Calls
  imports Tcp_Input
begin

text \<open>
  The calls of a TCP device: \<open>tcpSetup.c\<close>, \<open>tcpOpenActive.c\<close>, \<open>tcpClose.c\<close>, \<open>tcpRead.c\<close>,
  \<open>tcpWrite.c\<close> and the choice of the socket in \<open>tcpDemux.c\<close>. A call that waits for a semaphore
  other than the mutex is modelled up to that point, and one turn of its loop from there on.
\<close>

section \<open>Opening and closing\<close>

text \<open>
  \<open>tcpIss\<close>: the static \<open>nextseq\<close> is an argument and part of the result; \<open>clk\<close> is \<open>clktime\<close>.
\<close>

definition tcpIss :: "u32 \<Rightarrow> int \<Rightarrow> (u32 \<times> int) option" where
  "tcpIss clk nextseq = do {
     let nextseq = (if nextseq = 0 then sint clk else nextseq);
     nextseq \<leftarrow> c_int (nextseq + TCP_SEQINCR);
     Some (word_of_int nextseq, nextseq) }"

text \<open>\<open>oc\<close>, \<open>rd\<close> and \<open>wr\<close> are the results of \<open>semcreate(0)\<close>, \<open>semcreate(0)\<close> and \<open>semcreate(1)\<close>.\<close>

definition tcpSetup :: "u32 \<Rightarrow> u32 \<Rightarrow> u32 \<Rightarrow> u32 \<Rightarrow> tcb \<Rightarrow> int \<times> tcb" where
  "tcpSetup oc rd wr iss0 t = (
     let t = t\<lparr>openclose := oc, istart := 0, inxt := 0, icount := 0, ibytes := 0, readers := rd,
           ostart := 0, ocount := 0, obytes := 0, writers := wr,
           iss := iss0, snduna := iss0, sndnxt := iss0, sndwl2 := iss0, sndmss := TCP_INIT_MSS, sndflg := 0,
           sndcwn := ucast TCP_INIT_MSS, sndsst := TCP_MAX_WND, rxttime := TCP_RXT_INITTIME, rxtcount := 0,
           psttime := TCP_PST_INITTIME, rcvmss := TCP_INIT_MSS - word_of_nat TCP_HDR_LEN, rcvflg := 0\<rparr>
     in (if oc = USYSERR \<or> rd = USYSERR \<or> wr = USYSERR then SYSERR else OK, t))"

definition tcpOpenActive :: "tcpst \<Rightarrow> (int \<times> tcpst) option" where
  "tcpOpenActive s =
     (if remotept (cb s) = 0 \<or> na_type (remoteip (cb s)) = 0 \<or> na_type (localip (cb s)) = 0 then Some (TCP_ERR_NOSPEC, s)
      else do {
        (r, s) \<leftarrow> tcpSendSyn s;
        if r = SYSERR then Some (SYSERR, s)
        else Some (OK, cbu (\<lambda>t. t\<lparr>tstate := TCP_SYNSENT\<rparr>) s) })"

text \<open>Threads that wait for a semaphore are released.\<close>

definition release_all :: "u32 \<Rightarrow> tcpst \<Rightarrow> tcpst" where
  "release_all sm s = (if semcnts s sm < 0 then tsignaln sm (semcnts s sm * - 1) s else s)"

text \<open>The FIN follows the data in the output buffer.\<close>

definition close_fin :: "tcb \<Rightarrow> tcb" where
  "close_fin t = t\<lparr>sndfin := seqadd (snduna t) (ocount t), sndflg := sndflg t OR TCP_FLG_FIN\<rparr>"

text \<open>\<open>tcpClose\<close> up to \<open>wait(tcbptr->openclose)\<close>; \<open>OK\<close> means that this wait follows.\<close>

definition tcpClose :: "tcpst \<Rightarrow> (int \<times> tcpst) option" where
  "tcpClose s = do {
     (r, s) \<leftarrow> (case tstate (cb s) of
         TCP_CLOSED \<Rightarrow> Some (SYSERR, cbu (\<lambda>t. t\<lparr>devstate := TCP_FREE\<rparr>) s)
       | TCP_SYNSENT \<Rightarrow> do {
           (_, s) \<leftarrow> tcpFree (release_all (readers (cb s)) (release_all (writers (cb s)) s));
           Some (OK, s) }
       | TCP_LISTEN \<Rightarrow> do { (_, s) \<leftarrow> tcpFree (release_all (readers (cb s)) s); Some (OK, s) }
       | TCP_SYNRECV \<Rightarrow> do {
           let s = cbu close_fin s;
           Some (OK, if ocount (cb s) = 0
             then cbu (\<lambda>t. t\<lparr>sndflg := sndflg t OR TCP_FLG_SNDDATA, tstate := TCP_FINWT1\<rparr>) s else s) }
       | TCP_ESTAB \<Rightarrow> Some (OK, cbu (\<lambda>t. (close_fin t)\<lparr>sndflg := sndflg (close_fin t) OR TCP_FLG_SNDDATA, tstate := TCP_FINWT1\<rparr>) s)
       | TCP_CLOSEWT \<Rightarrow> Some (OK, cbu (\<lambda>t. (close_fin t)\<lparr>sndflg := sndflg (close_fin t) OR TCP_FLG_SNDDATA, tstate := TCP_LASTACK\<rparr>) s)
       | _ \<Rightarrow> Some (SYSERR, s));
     if r = SYSERR then Some (SYSERR, s)
     else do {
       s \<leftarrow> (if has (sndflg (cb s)) TCP_FLG_SNDDATA then do { (_, s) \<leftarrow> tcpSendData s; Some s } else Some s);
       Some (OK, s) } }"

section \<open>Reading and writing\<close>

definition read_stateCheck :: "tcb \<Rightarrow> int" where
  "read_stateCheck t = (case tstate t of
       TCP_CLOSED \<Rightarrow> TCP_ERR_NOCONN
     | TCP_CLOSEWT \<Rightarrow> if icount t > 0 then OK else TCP_ERR_CLOSING
     | TCP_CLOSING \<Rightarrow> TCP_ERR_CLOSING | TCP_LASTACK \<Rightarrow> TCP_ERR_CLOSING | TCP_TIMEWT \<Rightarrow> TCP_ERR_CLOSING
     | _ \<Rightarrow> OK)"

text \<open>The copy loop of \<open>tcpRead\<close> for \<open>n\<close> more octets.\<close>

fun read_octets :: "nat \<Rightarrow> tcb \<Rightarrow> (u8 list \<times> tcb) option" where
  "read_octets 0 t = Some ([], t)"
| "read_octets (Suc n) t =
     (if icount t > 0
      then do {
        _ \<leftarrow> c_guard (unat (istart t) < TCP_IBLEN);
        (xs, t') \<leftarrow> read_octets n (t\<lparr>imark := (imark t)(unat (istart t) := False),
          istart := (istart t + 1) mod word_of_nat TCP_IBLEN, icount := icount t - 1\<rparr>);
        Some (ibuf t (unat (istart t)) # xs, t') }
      else Some ([], t))"

text \<open>One turn of \<open>tcpRead\<close> after \<open>wait(tcbptr->readers)\<close>, with room for \<open>n\<close> octets.\<close>

definition tcpRead_turn :: "nat \<Rightarrow> tcpst \<Rightarrow> (int \<times> u8 list \<times> tcpst) option" where
  "tcpRead_turn n s =
     (if read_stateCheck (cb s) \<noteq> OK then Some (SYSERR, [], s)
      else do {
        (xs, t) \<leftarrow> read_octets n (cb s);
        let s = s\<lparr>cb := t\<rparr>;
        let s = (if icount t > 0 \<and> semcnts s (readers t) < 1 then tsignal (readers t) s else s);
        Some (OK, xs, s) })"

text \<open>The copy loop of \<open>tcpWrite\<close>; the octets that do not fit are left over.\<close>

fun write_octets :: "u8 list \<Rightarrow> tcb \<Rightarrow> u8 list \<times> tcb" where
  "write_octets [] t = ([], t)"
| "write_octets (x # xs) t =
     (if ocount t < word_of_nat TCP_OBLEN
      then write_octets xs (t\<lparr>obuf := (obuf t)(unat (ostart t + ocount t) mod TCP_OBLEN := x), ocount := ocount t + 1\<rparr>)
      else (x # xs, t))"

definition write_stateCheck :: "tcpst \<Rightarrow> (int \<times> tcpst) option" where
  "write_stateCheck s = (case tstate (cb s) of
       TCP_CLOSED \<Rightarrow> Some (TCP_ERR_NOCONN, s)
     | TCP_LISTEN \<Rightarrow>
         if remotept (cb s) \<noteq> 0 \<and> na_type (remoteip (cb s)) \<noteq> 0
         then do {
           (r, s) \<leftarrow> tcpOpenActive (cbu (\<lambda>t. t\<lparr>tstate := TCP_SYNSENT\<rparr>) s);
           if r \<noteq> OK then Some (SYSERR, s)
           else do {
             s \<leftarrow> (if has (sndflg (cb s)) TCP_FLG_SYN then do { (_, s) \<leftarrow> tcpSendSyn s; Some s } else Some s);
             Some (TCP_ERR_NOSPEC, s) } }
         else Some (TCP_ERR_NOSPEC, s)
     | TCP_FINWT1 \<Rightarrow> Some (TCP_ERR_CLOSING, s) | TCP_FINWT2 \<Rightarrow> Some (TCP_ERR_CLOSING, s)
     | TCP_CLOSING \<Rightarrow> Some (TCP_ERR_CLOSING, s) | TCP_LASTACK \<Rightarrow> Some (TCP_ERR_CLOSING, s)
     | TCP_TIMEWT \<Rightarrow> Some (TCP_ERR_CLOSING, s)
     | _ \<Rightarrow> Some (OK, s))"

text \<open>One turn of \<open>tcpWrite\<close> after \<open>wait(tcbptr->writers)\<close>; the result is the octets left over.\<close>

definition tcpWrite_turn :: "u8 list \<Rightarrow> tcpst \<Rightarrow> (int \<times> u8 list \<times> tcpst) option" where
  "tcpWrite_turn xs s = do {
     (check, s) \<leftarrow> write_stateCheck s;
     if check \<noteq> OK then Some (check, xs, tsignal (writers (cb s)) s)
     else do {
       let (ys, t) = write_octets xs (cb s);
       let s = s\<lparr>cb := t\<rparr>;
       let s = (if ocount t < word_of_nat TCP_OBLEN then tsignal (writers t) s else s);
       s \<leftarrow> (if tstate t = TCP_ESTAB \<or> tstate t = TCP_CLOSEWT then do { (_, s) \<leftarrow> tcpSendData s; Some s } else Some s);
       Some (OK, ys, s) } }"

section \<open>Sockets\<close>

definition netaddrequal :: "netaddr \<Rightarrow> netaddr \<Rightarrow> bool" where
  "netaddrequal a b \<longleftrightarrow> na_type a = na_type b \<and> na_len a = na_len b \<and>
     take (unat (na_len a)) (na_addr a) = take (unat (na_len a)) (na_addr b)"

text \<open>The loop of \<open>tcpDemux\<close> from socket \<open>i\<close> on; \<open>level\<close> is the quality of the match so far.\<close>

fun demux_loop :: "u16 \<Rightarrow> u16 \<Rightarrow> netaddr \<Rightarrow> netaddr \<Rightarrow> nat \<Rightarrow> nat option \<times> nat \<Rightarrow> tcb list \<Rightarrow> nat option \<times> nat" where
  "demux_loop dp sp dip sip i (best, level) [] = (best, level)"
| "demux_loop dp sp dip sip i (best, level) (t # ts) = (
     let (best, level) =
       (if tstate t \<noteq> TCP_CLOSED
        then
          let (best, level) =
                (if level < 3 \<and> localpt t = dp \<and> remotept t = sp \<and> netaddrequal (localip t) dip \<and> netaddrequal (remoteip t) sip
                 then (Some i, 3) else (best, level));
              (best, level) =
                (if level < 2 \<and> localpt t = dp \<and> remotept t = sp \<and> netaddrequal (localip t) dip \<and> na_type (remoteip t) = 0
                 then (Some i, 2) else (best, level))
          in if level < 1 \<and> localpt t = dp \<and> remotept t = 0 \<and> netaddrequal (localip t) dip \<and> na_type (remoteip t) = 0
             then (Some i, 1) else (best, level)
        else (best, level))
     in demux_loop dp sp dip sip (i + 1) (best, level) ts)"

definition tcpDemux :: "u16 \<Rightarrow> u16 \<Rightarrow> netaddr \<Rightarrow> netaddr \<Rightarrow> tcb list \<Rightarrow> nat option" where
  "tcpDemux dp sp dip sip tcptab = fst (demux_loop dp sp dip sip 0 (None, 0) tcptab)"

end
