(* ===== verification/Tcp_Demo.thy ===== *)
theory Tcp_Demo
  imports Tcp_Calls
begin

unbundle bit_operations_syntax

text \<open>Concrete connections and segments at which the properties of TCP are evaluated.\<close>

text \<open>A connection that has received three octets, of which two are unread, and octet 4 early.\<close>

definition letters :: "nat \<Rightarrow> u8" where
  "letters n = word_of_nat (65 + n)"

definition listener :: tcb where
  "listener = zero_tcb\<lparr>tstate := TCP_ESTAB, devstate := TCP_ALLOC, rcvnxt := 1003, rcvwnd := 2463, rcvmss := 1440, readers := 1,
     istart := 16383, icount := 2, inxt := 1, ibuf := (\<lambda>_. 0)(16383 := 66, 0 := 67, 2 := 69),
     imark := (\<lambda>_. False)(16383 := True, 0 := True, 2 := True)\<rparr>"

definition segment_of :: "u32 \<Rightarrow> u8 \<Rightarrow> u8 list \<Rightarrow> tcppkt" where
  "segment_of sq ctl xs = \<lparr>srcpt = 80, dstpt = 10000, seqnum = sq, acknum = 0, offset = 0x50, control = ctl, window = 1460,
     tcplen = word_of_nat (20 + length xs), octets = replicate 20 0 @ xs\<rparr>"

definition receiving :: "tcb \<Rightarrow> tcppkt \<Rightarrow> tcpst" where
  "receiving t p = \<lparr>pkt = p, cb = t, cbid = 0, tcptimertab = [], nextevt = 0, semcnts = (\<lambda>_. 0), sent = [], netok = True, ipok = True\<rparr>"

lemmas tcp_demo = listener_def segment_of_def receiving_def zero_tcb_def zero_addr_def letters_def

end
