(* ===== verification/Tcp_Sequence.thy ===== *)
theory Tcp_Sequence
  imports Tcp_Demo
begin

text \<open>
  Sequence numbers. Inside one half of the sequence space the comparisons and differences of
  \<open>tcp.h\<close> and \<open>tcpSeqdiff.c\<close> are those of natural numbers; across the halves they are not.
\<close>

section \<open>Inside one half\<close>

definition flat :: "u32 \<Rightarrow> u32 \<Rightarrow> bool" where
  "flat a b \<longleftrightarrow> (unat a < 2147483648 \<longleftrightarrow> unat b < 2147483648)"

lemma sint_half: "sint (a :: u32) = (if unat a < 2147483648 then int (unat a) else int (unat a) - 4294967296)"
proof -
  have s: "sint a = (uint a + 2147483648) mod 4294967296 - 2147483648"
    by (simp add: sint_uint signed_take_bit_eq_take_bit_shift take_bit_eq_mod)
  have b: "0 \<le> uint a" "uint a < 4294967296" "int (unat a) = uint a" using unsigned_less [of a] by simp_all
  show ?thesis
  proof (cases "unat a < 2147483648")
    case True
    then have "uint a < 2147483648" using b(3) by linarith
    then have "(uint a + 2147483648) mod 4294967296 = uint a + 2147483648" using b by (intro mod_pos_pos_trivial) auto
    then show ?thesis using s b(3) True by simp
  next
    case False
    then have "2147483648 \<le> uint a" using b(3) by linarith
    then have "(uint a + 2147483648 - 4294967296) mod 4294967296 = uint a - 2147483648" using b by (simp add: mod_pos_pos_trivial)
    moreover have "(uint a + 2147483648 - 4294967296) mod 4294967296 = (uint a + 2147483648) mod 4294967296"
      using minus_mod_self2 [of "uint a + 2147483648" 4294967296] by simp
    ultimately show ?thesis using s b(3) False by simp
  qed
qed

lemma seq_flat:
  assumes "flat a b"
  shows "seqlt a b = Some (unat a < unat b)" "seqlte a b = Some (unat a \<le> unat b)"
    "unat b \<le> unat a \<Longrightarrow> tcpSeqdiff a b = a - b" "unat b \<le> unat a \<Longrightarrow> unat (tcpSeqdiff a b) = unat a - unat b"
proof -
  have d: "sint a - sint b = int (unat a) - int (unat b)"
    using assms by (auto simp: flat_def sint_half simp del: of_nat_unat)
  moreover have "INT_MIN \<le> int (unat a) - int (unat b)" "int (unat a) - int (unat b) \<le> INT_MAX"
    using assms unat_lt32 [of a] unat_lt32 [of b] by (auto simp: flat_def c_consts simp del: of_nat_unat unat_lt32)
  ultimately show "seqlt a b = Some (unat a < unat b)" "seqlte a b = Some (unat a \<le> unat b)"
    by (auto simp: seqlt_def seqlte_def simp del: of_nat_unat)
  have "\<not> (a < TCP_MAXSEQ div 2 \<and> b > TCP_MAXSEQ div 2)" "\<not> (b < TCP_MAXSEQ div 2 \<and> a > TCP_MAXSEQ div 2)"
    using assms by (auto simp: TCP_MAXSEQ_def flat_def word_less_nat_alt)
  then have e: "tcpSeqdiff a b = a - b" unfolding tcpSeqdiff_def by (simp only: if_not_P if_False)
  then show "unat b \<le> unat a \<Longrightarrow> tcpSeqdiff a b = a - b" by simp
  show "unat b \<le> unat a \<Longrightarrow> unat (tcpSeqdiff a b) = unat a - unat b" using e by (simp add: unat_sub32)
qed

lemma seqadd_small:
  assumes "unat a + unat b < 4294967295"
  shows "seqadd a b = a + b" "unat (seqadd a b) = unat a + unat b"
proof -
  have u: "unat (a + b) = unat a + unat b" using assms by (intro unat_add32) simp
  then have "a + b < TCP_MAXSEQ" using assms by (simp add: TCP_MAXSEQ_def word_less_nat_alt)
  then show "seqadd a b = a + b" unfolding seqadd_def
    using assms u by (simp add: word_unat_eq_iff unat_mod_distrib TCP_MAXSEQ_def)
  then show "unat (seqadd a b) = unat a + unat b" using u by simp
qed

section \<open>Properties\<close>

text \<open>
  C32. Sequence arithmetic. As long as an interval of sequence numbers lies in one half of the
  sequence space, \<open>seqadd\<close> moves forward by the given amount, \<open>tcpSeqdiff\<close> recovers that amount,
  and the comparisons order the two numbers; none of them is undefined.
\<close>

theorem seq_window:
  assumes "unat a + unat n < 2147483648 \<or> (2147483648 \<le> unat a \<and> unat a + unat n < 4294967295)"
  shows "tcpSeqdiff (seqadd a n) a = n \<and> seqlte a (seqadd a n) = Some True \<and> seqlt (seqadd a n) a = Some False \<and>
    seqlt a (seqadd a n) = Some (n \<noteq> 0) \<and> unat (seqadd a n) = unat a + unat n"
proof -
  have u: "unat (seqadd a n) = unat a + unat n" using assms by (intro seqadd_small) auto
  have f: "flat (seqadd a n) a" "flat a (seqadd a n)" using assms u by (auto simp: flat_def)
  have "unat (tcpSeqdiff (seqadd a n) a) = unat n" using seq_flat(4) [OF f(1)] u by simp
  then have "tcpSeqdiff (seqadd a n) a = n" by (simp add: word_unat_eq_iff)
  moreover have "0 < unat n \<longleftrightarrow> n \<noteq> 0" by (simp add: unat_gt_0)
  ultimately show ?thesis using seq_flat(1,2) [OF f(1)] seq_flat(1,2) [OF f(2)] u by simp
qed

theorem seq_window_witness:
  "tcpSeqdiff (seqadd 1000 1460) 1000 = 1460 \<and> seqlt 1000 (seqadd 1000 1460) = Some True"
  using seq_window [of 1000 1460] by simp

text \<open>
  Where sequence numbers wrap around, the arithmetic is wrong: \<open>seqadd\<close> leaves out the number
  \<open>0xFFFFFFFF\<close>, so that the octet with that number can never be acknowledged by its successor;
  \<open>tcpSeqdiff\<close> of a number and one eight before it, across the wrap, is not eight; and in the
  middle of the sequence space the comparison of neighbours overflows.
\<close>

theorem seq_wrap:
  "seqadd 0xFFFFFFFE 1 = 0 \<and> (0xFFFFFFFC :: u32) + 8 = 4 \<and> tcpSeqdiff 4 0xFFFFFFFC = 0xFFFFFFF7 \<and>
    (0x7FFFFFFF :: u32) + 1 = 0x80000000 \<and> seqlt 0x7FFFFFFF 0x80000000 = None"
  by code_simp

text \<open>The four cases of RFC 793 for a segment of \<open>len\<close> octets at \<open>sq\<close> and a window of \<open>wnd\<close> octets from \<open>nxt\<close> on.\<close>

definition rfc_acceptable :: "nat \<Rightarrow> nat \<Rightarrow> nat \<Rightarrow> nat \<Rightarrow> bool" where
  "rfc_acceptable sq len nxt wnd =
     (if len = 0 then (if wnd = 0 then sq = nxt else nxt \<le> sq \<and> sq < nxt + wnd)
      else wnd > 0 \<and> (nxt \<le> sq \<and> sq < nxt + wnd \<or> nxt \<le> sq + len - 1 \<and> sq + len - 1 < nxt + wnd))"

text \<open>The length of a segment with its SYN and FIN.\<close>

definition seg_total :: "tcppkt \<Rightarrow> nat" where
  "seg_total p = unat (tcpSeglen p) + (if has (control p) TCP_CTRL_SYN then 1 else 0) + (if has (control p) TCP_CTRL_FIN then 1 else 0)"

lemma unat_seglen_ctl: "seg_total p < 65536 \<Longrightarrow> unat (seglen_ctl p) = seg_total p"
  by (auto simp: seg_total_def seglen_ctl_def Let_def unat_word_ariths)

lemma unat_lt16 [simp]: "unat (w :: u16) < 65536"
  using unsigned_less [of w, where 'a = nat] by simp

lemma unat_up [simp]: "unat (ucast (w :: u16) :: u32) = unat w"
proof -
  have "unat w < 2 ^ 32" using unat_lt16 [of w] by (simp del: unat_lt16)
  then show ?thesis by (simp add: unsigned_ucast_eq take_bit_nat_eq_self)
qed

text \<open>
  C31. \<open>tcpRecvValid\<close> decides the acceptability test of RFC 793 whenever the numbers involved lie in
  one half of the sequence space. It does not change the connection, and it changes the segment
  only when the window is closed.
\<close>

theorem recv_valid_rfc:
  assumes len: "seg_total (pkt s) < 65536" and wnd: "unat (rcvnxt (cb s)) \<le> unat (rcvwnd (cb s))"
    and half: "\<forall>x \<in> {unat (rcvnxt (cb s)), unat (rcvwnd (cb s)), unat (seqnum (pkt s)) + seg_total (pkt s)}.
      x < 2147483648 \<longleftrightarrow> unat (seqnum (pkt s)) < 2147483648"
    and top: "unat (seqnum (pkt s)) + seg_total (pkt s) < 4294967295"
  shows "\<exists>p. tcpRecvValid s = Some (rfc_acceptable (unat (seqnum (pkt s))) (seg_total (pkt s)) (unat (rcvnxt (cb s)))
      (unat (rcvwnd (cb s)) - unat (rcvnxt (cb s))), s\<lparr>pkt := p\<rparr>) \<and> (rcvnxt (cb s) \<noteq> rcvwnd (cb s) \<longrightarrow> p = pkt s)"
proof -
  let ?t = "cb s" and ?p = "pkt s" and ?L = "seg_total (pkt s)" and ?n = "seglen_ctl (pkt s)"
  let ?e = "seqadd (seqnum ?p) (ucast ?n - 1)" and ?w = "tcpSeqdiff (rcvwnd ?t) (rcvnxt ?t)"
  have n: "unat ?n = ?L" by (rule unat_seglen_ctl [OF len])
  have f: "flat (rcvwnd ?t) (rcvnxt ?t)" "flat (rcvnxt ?t) (seqnum ?p)" "flat (seqnum ?p) (rcvwnd ?t)"
    using half by (auto simp: flat_def)
  have w: "unat ?w = unat (rcvwnd ?t) - unat (rcvnxt ?t)" using seq_flat(4) [OF f(1) wnd] .
  then have w0: "?w = 0 \<longleftrightarrow> unat (rcvwnd ?t) - unat (rcvnxt ?t) = 0" by (simp add: word_unat_eq_iff)
  have n0: "?n = 0 \<longleftrightarrow> ?L = 0" using n by (simp add: word_unat_eq_iff)
  have e: "unat ?e = unat (seqnum ?p) + ?L - 1" if "?L \<noteq> 0"
  proof -
    have "unat (ucast ?n - 1 :: u32) = ?L - 1" using that n by (subst unat_sub32) auto
    then show ?thesis using top that by (subst seqadd_small) auto
  qed
  have g: "flat (rcvnxt ?t) ?e" "flat ?e (rcvwnd ?t)" if "?L \<noteq> 0"
    using half e [OF that] that unfolding flat_def by auto
  have ne: "rcvnxt ?t \<noteq> rcvwnd ?t \<longleftrightarrow> ?w \<noteq> 0" using w0 wnd by (auto simp: word_unat_eq_iff)
  have lim: "unat (rcvnxt ?t) + (unat (rcvwnd ?t) - unat (rcvnxt ?t)) = unat (rcvwnd ?t)" using wnd by simp
  have eq: "seqnum ?p = rcvnxt ?t \<longleftrightarrow> unat (seqnum ?p) = unat (rcvnxt ?t)" by (simp add: word_unat_eq_iff)
  show ?thesis
  proof (cases "?L = 0"; cases "?w = 0")
  qed (use w0 n0 ne lim eq e g seq_flat(1,2) [OF f(2)] seq_flat(1,2) [OF f(3)]
      seq_flat(2) [OF g(1)] seq_flat(1) [OF g(2)] word_gt_0 [of ?w]
      in \<open>auto simp: tcpRecvValid_def rfc_acceptable_def Let_def\<close>)
qed

theorem recv_valid_rfc_witness:
  "\<exists>p. tcpRecvValid (receiving listener (segment_of 1002 TCP_CTRL_ACK [67, 68])) =
    Some (True, (receiving listener (segment_of 1002 TCP_CTRL_ACK [67, 68]))\<lparr>pkt := p\<rparr>)"
proof -
  let ?s = "receiving listener (segment_of 1002 TCP_CTRL_ACK [67, 68])"
  have "seg_total (pkt ?s) = 2"
    by (simp add: tcp_demo seg_total_def tcpSeglen_def offset2octets_def has_def tcp_consts)
  moreover have "unat (seqnum (pkt ?s)) = 1002" "unat (rcvnxt (cb ?s)) = 1003" "unat (rcvwnd (cb ?s)) = 2463"
    by (simp_all add: tcp_demo)
  ultimately show ?thesis using recv_valid_rfc [of ?s] by (auto simp: rfc_acceptable_def)
qed

end
