(* ===== verification/Tcp_Reassembly.thy ===== *)
theory Tcp_Reassembly
  imports Tcp_Sequence
begin

text \<open>
  The input side of a connection as a stream. \<open>S\<close> is what the peer sends, octet by octet, and
  \<open>base\<close> the sequence number of its first octet. The invariant \<open>reasm\<close> says that \<open>r\<close> octets have
  arrived in order, that the last \<open>icount\<close> of them wait in the ring buffer for the reader, and
  that every octet marked as having arrived early is the right one for its place.
\<close>

section \<open>The ring\<close>

lemma ring_inj: "(a + k) mod n = (a + l) mod n \<Longrightarrow> k < n \<Longrightarrow> l < n \<Longrightarrow> k = l" for a k l n :: nat
proof (induction k l rule: linorder_wlog)
  case (le k l)
  then have "n dvd (a + l) - (a + k)" by (subst mod_eq_dvd_iff_nat [symmetric]) auto
  then have "n dvd l - k" by simp
  then show ?case using le dvd_imp_le [of n "l - k"] by (cases "k = l") auto
next
  case (sym k l)
  then show ?case by metis
qed

definition instream :: "tcb \<Rightarrow> u8 list" where
  "instream t = map (\<lambda>k. ibuf t ((unat (istart t) + k) mod TCP_IBLEN)) [0..<unat (icount t)]"

definition ring_ok :: "tcb \<Rightarrow> bool" where
  "ring_ok t \<longleftrightarrow> unat (istart t) < TCP_IBLEN \<and> unat (icount t) \<le> TCP_IBLEN \<and>
     unat (inxt t) = (unat (istart t) + unat (icount t)) mod TCP_IBLEN"

text \<open>The open part of the window.\<close>

abbreviation avail :: "tcb \<Rightarrow> nat" where
  "avail t \<equiv> unat (rcvwnd t) - unat (rcvnxt t)"

definition lane :: "nat \<Rightarrow> nat \<Rightarrow> bool" where
  "lane lo hi \<longleftrightarrow> hi < 2147483648 \<or> (2147483648 \<le> lo \<and> hi < 4294967295)"

definition reasm :: "(nat \<Rightarrow> u8) \<Rightarrow> nat \<Rightarrow> nat \<Rightarrow> tcb \<Rightarrow> bool" where
  "reasm S base r t \<longleftrightarrow> ring_ok t \<and> lane base (unat (rcvwnd t)) \<and> unat (rcvnxt t) = base + r \<and>
     unat (rcvnxt t) \<le> unat (rcvwnd t) \<and> avail t + unat (icount t) \<le> TCP_IBLEN \<and>
     unat (icount t) \<le> r \<and> instream t = map S [r - unat (icount t)..<r] \<and>
     (\<forall>k. unat (icount t) + k < TCP_IBLEN \<and> imark t ((unat (inxt t) + k) mod TCP_IBLEN) \<longrightarrow>
       k < avail t \<and> ibuf t ((unat (inxt t) + k) mod TCP_IBLEN) = S (r + k))"

lemma reasmD:
  assumes "reasm S base r t"
  shows "ring_ok t" "lane base (unat (rcvwnd t))" "unat (rcvnxt t) = base + r" "unat (rcvnxt t) \<le> unat (rcvwnd t)"
    "avail t + unat (icount t) \<le> TCP_IBLEN" "unat (icount t) \<le> r" "instream t = map S [r - unat (icount t)..<r]"
    "\<And>k. unat (icount t) + k < TCP_IBLEN \<Longrightarrow> imark t ((unat (inxt t) + k) mod TCP_IBLEN) \<Longrightarrow>
      k < avail t \<and> ibuf t ((unat (inxt t) + k) mod TCP_IBLEN) = S (r + k)"
    "unat (istart t) < TCP_IBLEN" "unat (icount t) \<le> TCP_IBLEN" "unat (inxt t) = (unat (istart t) + unat (icount t)) mod TCP_IBLEN"
  using assms by (auto simp: reasm_def ring_ok_def)

lemma reasm_frame [simp]: "reasm S base r (t\<lparr>sndflg := f\<rparr>) = reasm S base r t"
  by (simp add: reasm_def ring_ok_def instream_def)

text \<open>Positions behind \<open>inxt\<close> in terms of \<open>istart\<close>.\<close>

lemma inxt_pos: "ring_ok t \<Longrightarrow> (unat (inxt t) + k) mod TCP_IBLEN = (unat (istart t) + (unat (icount t) + k)) mod TCP_IBLEN"
  by (simp add: ring_ok_def mod_add_left_eq add.assoc)

section \<open>Storing octets\<close>

lemma store_frame: "\<exists>b m. store_octets i xs t = t\<lparr>ibuf := b, imark := m\<rparr>"
proof (induction xs arbitrary: i t)
  case Nil
  then show ?case by (auto intro!: exI [of _ "ibuf t"] exI [of _ "imark t"])
next
  case (Cons x xs)
  from Cons.IH [of "i + 1" "t\<lparr>ibuf := (ibuf t)(unat i mod TCP_IBLEN := x), imark := (imark t)(unat i mod TCP_IBLEN := True)\<rparr>"]
  show ?case by auto
qed

lemma store_buffers:
  assumes "unat i + length xs \<le> 4294967295" "length xs \<le> TCP_IBLEN"
  shows "(\<forall>k < length xs. ibuf (store_octets i xs t) ((unat i + k) mod TCP_IBLEN) = xs ! k \<and> imark (store_octets i xs t) ((unat i + k) mod TCP_IBLEN)) \<and>
    (\<forall>j. (\<forall>k < length xs. j \<noteq> (unat i + k) mod TCP_IBLEN) \<longrightarrow>
       ibuf (store_octets i xs t) j = ibuf t j \<and> imark (store_octets i xs t) j = imark t j)"
  using assms
proof (induction xs arbitrary: i t)
  case (Cons x xs)
  let ?t = "t\<lparr>ibuf := (ibuf t)(unat i mod TCP_IBLEN := x), imark := (imark t)(unat i mod TCP_IBLEN := True)\<rparr>"
  have i: "unat (i + 1) = unat i + 1" using Cons.prems(1) by (subst unat_add32) auto
  have IH: "(\<forall>k < length xs. ibuf (store_octets (i + 1) xs ?t) ((unat i + 1 + k) mod TCP_IBLEN) = xs ! k \<and> imark (store_octets (i + 1) xs ?t) ((unat i + 1 + k) mod TCP_IBLEN))"
    "(\<forall>j. (\<forall>k < length xs. j \<noteq> (unat i + 1 + k) mod TCP_IBLEN) \<longrightarrow>
       ibuf (store_octets (i + 1) xs ?t) j = ibuf ?t j \<and> imark (store_octets (i + 1) xs ?t) j = imark ?t j)"
    using Cons.IH [of "i + 1" ?t] Cons.prems i by simp_all
  have first: "unat i mod TCP_IBLEN \<noteq> (unat i + 1 + k) mod TCP_IBLEN" if "k < length xs" for k
    using ring_inj [of "unat i" 0 TCP_IBLEN "1 + k"] Cons.prems(2) that by (auto simp: add.assoc)
  have at0: "ibuf (store_octets (i + 1) xs ?t) (unat i mod TCP_IBLEN) = x" "imark (store_octets (i + 1) xs ?t) (unat i mod TCP_IBLEN)"
    using IH(2) first by simp_all
  show ?case
  proof (intro conjI allI impI)
    fix k assume "k < length (x # xs)"
    then show "ibuf (store_octets i (x # xs) t) ((unat i + k) mod TCP_IBLEN) = (x # xs) ! k"
      "imark (store_octets i (x # xs) t) ((unat i + k) mod TCP_IBLEN)"
      using IH(1) at0 by (cases k; simp)+
  next
    fix j assume j: "\<forall>k < length (x # xs). j \<noteq> (unat i + k) mod TCP_IBLEN"
    then have "j \<noteq> unat i mod TCP_IBLEN" "\<forall>k < length xs. j \<noteq> (unat i + 1 + k) mod TCP_IBLEN"
      by (metis add_0_right length_Cons zero_less_Suc) (metis (no_types, lifting) add.assoc j length_Cons not_less_eq plus_1_eq_Suc)
    then show "ibuf (store_octets i (x # xs) t) j = ibuf t j" "imark (store_octets i (x # xs) t) j = imark t j"
      using IH(2) by simp_all
  qed
qed simp

text \<open>Octets stored at distance \<open>ofs\<close> from \<open>inxt\<close>, inside the window.\<close>

lemma reasm_store:
  assumes r: "reasm S base r t" and i: "(unat i) mod TCP_IBLEN = (unat (inxt t) + ofs) mod TCP_IBLEN" "unat i < TCP_IBLEN"
    and xs: "ofs + length xs \<le> avail t" "\<And>k. k < length xs \<Longrightarrow> xs ! k = S (r + ofs + k)"
  shows "reasm S base r (store_octets i xs t)"
    "\<And>k. k < length xs \<Longrightarrow> ibuf (store_octets i xs t) ((unat (inxt t) + ofs + k) mod TCP_IBLEN) = S (r + ofs + k)"
proof -
  note D = reasmD [OF r]
  let ?t = "store_octets i xs t"
  have len: "length xs \<le> TCP_IBLEN" "unat i + length xs \<le> 4294967295" using xs(1) D(5) i(2) by (auto simp: TCP_IBLEN_def)
  note st = store_buffers [OF len(2,1), of t]
  have pos: "(unat i + k) mod TCP_IBLEN = (unat (istart t) + (unat (icount t) + ofs + k)) mod TCP_IBLEN" for k
    using mod_add_cong [OF i(1) refl, of k] inxt_pos [OF D(1), of "ofs + k"] by (simp add: add.assoc)
  have eq: "(unat (inxt t) + ofs + k) mod TCP_IBLEN = (unat i + k) mod TCP_IBLEN" for k
    using mod_add_cong [OF i(1) refl, of k] by simp
  show "ibuf ?t ((unat (inxt t) + ofs + k) mod TCP_IBLEN) = S (r + ofs + k)" if "k < length xs" for k
    using st that xs(2) eq by simp
  obtain b m where f: "?t = t\<lparr>ibuf := b, imark := m\<rparr>" using store_frame by blast
  then have same: "istart ?t = istart t" "icount ?t = icount t" "inxt ?t = inxt t" "rcvnxt ?t = rcvnxt t" "rcvwnd ?t = rcvwnd t"
    by simp_all
  have keep: "ibuf ?t ((unat (istart t) + k) mod TCP_IBLEN) = ibuf t ((unat (istart t) + k) mod TCP_IBLEN)"
    if "k < unat (icount t)" for k
  proof -
    have "(unat (istart t) + k) mod TCP_IBLEN \<noteq> (unat i + j) mod TCP_IBLEN" if "j < length xs" for j
      using ring_inj [of "unat (istart t)" k TCP_IBLEN "unat (icount t) + ofs + j"] pos [of j] xs(1) D(5) \<open>k < unat (icount t)\<close> that by auto
    then show ?thesis using st by blast
  qed
  then have "instream ?t = instream t" by (simp add: instream_def same)
  moreover have "k < avail t \<and> ibuf ?t ((unat (inxt t) + k) mod TCP_IBLEN) = S (r + k)"
    if k: "unat (icount t) + k < TCP_IBLEN" "imark ?t ((unat (inxt t) + k) mod TCP_IBLEN)" for k
  proof (cases "ofs \<le> k \<and> k < ofs + length xs")
    case True
    then obtain j where j: "k = ofs + j" "j < length xs" by (metis add_less_cancel_left le_Suc_ex)
    then have "(unat (inxt t) + k) mod TCP_IBLEN = (unat i + j) mod TCP_IBLEN" using eq [of j] by (simp add: add.assoc)
    then show ?thesis using st xs(2) [of j] j xs(1) by (simp add: add.assoc)
  next
    case False
    have "(unat (inxt t) + k) mod TCP_IBLEN \<noteq> (unat i + j) mod TCP_IBLEN" if "j < length xs" for j
      using ring_inj [of "unat (istart t)" "unat (icount t) + k" TCP_IBLEN "unat (icount t) + ofs + j"] pos [of j]
        inxt_pos [OF D(1), of k] xs(1) D(5) False k(1) that by auto
    then show ?thesis using st D(8) k by metis
  qed
  moreover have "ring_ok ?t" using D(1) by (simp add: ring_ok_def same)
  ultimately show "reasm S base r ?t" using D(2-7) unfolding reasm_def same by simp
qed

section \<open>Octets that become available\<close>

lemma instream_more:
  assumes "ring_ok t" "ring_ok t'" "istart t' = istart t" "ibuf t' = ibuf t" "unat (icount t') = unat (icount t) + n"
    "\<And>k. k < n \<Longrightarrow> ibuf t ((unat (inxt t) + k) mod TCP_IBLEN) = S (r + k)"
  shows "instream t' = instream t @ map S [r..<r + n]"
proof -
  have "[0..<unat (icount t')] = [0..<unat (icount t)] @ map (\<lambda>k. unat (icount t) + k) [0..<n]"
    unfolding assms(5) upt_add_eq_append [OF le0] by (simp add: map_add_upt add.commute)
  moreover have "ibuf t ((unat (istart t) + (unat (icount t) + k)) mod TCP_IBLEN) = S (r + k)" if "k < n" for k
    using assms(6) [OF that] inxt_pos [OF assms(1), of k] by simp
  moreover have "map S [r..<r + n] = map (\<lambda>k. S (r + k)) [0..<n]"
    by (simp add: map_add_upt [of r, symmetric] add.commute comp_def)
  ultimately show ?thesis by (simp add: instream_def assms(3,4))
qed

lemma take_ok:
  assumes r: "reasm S base r t" and n: "n \<le> avail t" "\<And>k. k < n \<Longrightarrow> ibuf t ((unat (inxt t) + k) mod TCP_IBLEN) = S (r + k)"
    and t': "t' = t\<lparr>icount := icount t + w, ibytes := x, inxt := (inxt t + w) mod word_of_nat TCP_IBLEN, rcvnxt := seqadd (rcvnxt t) w\<rparr>"
      "unat w = n"
  shows "reasm S base (r + n) t'"
proof -
  note D = reasmD [OF r]
  have c: "unat (icount t + w) = unat (icount t) + n" using n(1) D(5) t'(2) by (subst unat_add32) (auto simp: TCP_IBLEN_def)
  have "unat (inxt t + w) = unat (inxt t) + n" using n(1) D(5,11) t'(2) by (subst unat_add32) (auto simp: TCP_IBLEN_def)
  then have x: "unat (inxt t') = (unat (inxt t) + n) mod TCP_IBLEN" by (simp add: t'(1) unat_mod_distrib TCP_IBLEN_def)
  have s: "unat (rcvnxt t') = base + (r + n)"
    using D(2,3,4) n(1) t'(2) by (simp add: t'(1)) (subst seqadd_small, auto simp: lane_def)
  have f: "istart t' = istart t" "ibuf t' = ibuf t" "imark t' = imark t" "rcvwnd t' = rcvwnd t" "unat (icount t') = unat (icount t) + n"
    using c by (simp_all add: t'(1))
  have ring: "ring_ok t'" using D(5,9,10) n(1) x f inxt_pos [OF D(1), of n] by (simp add: ring_ok_def)
  have "r - unat (icount t) + (unat (icount t) + n) = r + n" using D(6) by simp
  then have "instream t' = map S [r + n - unat (icount t')..<r + n]"
    using instream_more [OF D(1) ring f(1,2,5), of S r] n(2) D(6,7) f(5)
      upt_add_eq_append [of "r - unat (icount t)" r n] by simp
  moreover have "k < avail t' \<and> ibuf t' ((unat (inxt t') + k) mod TCP_IBLEN) = S (r + n + k)"
    if "unat (icount t') + k < TCP_IBLEN" "imark t' ((unat (inxt t') + k) mod TCP_IBLEN)" for k
    using D(8) [of "n + k"] that x f s D(3) n(1) by (auto simp: mod_add_left_eq add.assoc)
  ultimately show ?thesis using ring D(2,4,5,6) s f n(1) D(3) by (simp add: reasm_def)
qed

lemma catch_up_ok:
  assumes "reasm S base r t"
  shows "\<exists>r' \<ge> r. reasm S base r' (snd (catch_up t))"
  using assms
proof (induction t arbitrary: r rule: catch_up.induct)
  case (1 t)
  note D = reasmD [OF 1(2)]
  show ?case
  proof (cases "icount t < word_of_nat TCP_IBLEN \<and> imark t (unat (inxt t))")
    case False
    then show ?thesis using 1(2) by (auto simp: catch_up.simps [of t])
  next
    case True
    have lt: "unat (icount t) + 0 < TCP_IBLEN" using True by (simp add: word_less_nat_alt TCP_IBLEN_def)
    have "unat (inxt t) mod TCP_IBLEN = unat (inxt t)" using D(11) by simp
    then have m: "0 < avail t" "ibuf t ((unat (inxt t) + 0) mod TCP_IBLEN) = S (r + 0)" using D(8) [OF lt] True by auto
    have ok: "reasm S base (r + 1) (take_octet t)"
      by (rule take_ok [OF 1(2), of 1 _ 1]) (use m in \<open>auto simp: take_octet_def\<close>)
    show ?thesis
    proof (cases "has (rcvflg (take_octet t)) TCP_FLG_FIN \<and> rcvnxt (take_octet t) = rcvfin (take_octet t)")
      case stop: True
      then have "catch_up t = (True, take_octet t)" using True by (simp add: catch_up.simps [of t])
      then show ?thesis using ok by (intro exI [of _ "r + 1"]) simp
    next
      case go: False
      have "\<exists>r' \<ge> r + 1. reasm S base r' (snd (catch_up (take_octet t)))" by (rule 1(1) [OF True refl go ok])
      then obtain r' where "r + 1 \<le> r'" "reasm S base r' (snd (catch_up (take_octet t)))" by blast
      moreover have "catch_up t = catch_up (take_octet t)" using True go by (auto simp: catch_up.simps [of t] Let_def)
      ultimately show ?thesis by (intro exI [of _ r']) auto
    qed
  qed
qed

section \<open>A segment arrives\<close>

text \<open>
  Segment \<open>p\<close> carries the octets of \<open>S\<close> from \<open>n\<close> on. It is in order or early and starts inside the
  window, or it repeats not more than a window of octets.
\<close>

definition carries :: "(nat \<Rightarrow> u8) \<Rightarrow> nat \<Rightarrow> nat \<Rightarrow> tcppkt \<Rightarrow> bool" where
  "carries S base n p \<longleftrightarrow> unat (seqnum p) = base + n \<and>
     offset2octets (offset p) + unat (tcpSeglen p) \<le> length (octets p) \<and>
     (\<forall>i < unat (tcpSeglen p). octets p ! (offset2octets (offset p) + i) = S (n + i))"

definition acceptable :: "nat \<Rightarrow> nat \<Rightarrow> tcpst \<Rightarrow> bool" where
  "acceptable n r s \<longleftrightarrow> (if n < r then r - n \<le> avail (cb s) \<and> r \<le> n + unat (tcpSeglen (pkt s)) else n - r \<le> avail (cb s))"

text \<open>What of the segment is stored, and where: \<open>m\<close> octets from \<open>data\<close> on, at distance \<open>n - r\<close> from \<open>inxt\<close>.\<close>

definition placed :: "(nat \<Rightarrow> u8) \<Rightarrow> nat \<Rightarrow> nat \<Rightarrow> tcpst \<Rightarrow> u32 \<Rightarrow> nat \<Rightarrow> u16 \<Rightarrow> tcpst \<Rightarrow> bool" where
  "placed S r n s start data m s' \<longleftrightarrow> cb s' = cb s \<and> octets (pkt s') = octets (pkt s) \<and> unat start < TCP_IBLEN \<and>
     unat start mod TCP_IBLEN = (unat (inxt (cb s)) + (n - r)) mod TCP_IBLEN \<and> n - r + unat m \<le> avail (cb s) \<and>
     data + unat m \<le> length (octets (pkt s)) \<and> (\<forall>k < unat m. octets (pkt s) ! (data + k) = S (r + (n - r) + k)) \<and>
     (n \<le> r \<and> unat (tcpSeglen (pkt s)) \<le> avail (cb s) \<longrightarrow> n + unat (tcpSeglen (pkt s)) = r + unat m)"

lemma place_facts:
  assumes r: "reasm S base r (cb s)" and p: "carries S base n (pkt s)" and acc: "acceptable n r s"
  shows "flat (seqnum (pkt s)) (rcvnxt (cb s))" "flat (rcvnxt (cb s)) (seqnum (pkt s))"
    "unat (tcpSeqdiff (rcvwnd (cb s)) (rcvnxt (cb s))) = avail (cb s)" "avail (cb s) \<le> TCP_IBLEN" "unat (inxt (cb s)) < TCP_IBLEN"
    "seqlt (seqnum (pkt s)) (rcvnxt (cb s)) = Some (n < r)"
proof -
  note D = reasmD [OF r]
  have P: "unat (seqnum (pkt s)) = base + n" using p by (simp add: carries_def)
  have le: "unat (seqnum (pkt s)) \<le> unat (rcvwnd (cb s))" using P D(3,4) acc by (auto simp: acceptable_def split: if_splits)
  show f: "flat (seqnum (pkt s)) (rcvnxt (cb s))" "flat (rcvnxt (cb s)) (seqnum (pkt s))"
    using D(2,3,4) P le by (auto simp: flat_def lane_def)
  have "flat (rcvwnd (cb s)) (rcvnxt (cb s))" using D(2,3,4) by (auto simp: flat_def lane_def)
  then show "unat (tcpSeqdiff (rcvwnd (cb s)) (rcvnxt (cb s))) = avail (cb s)" using seq_flat(4) D(4) by blast
  show "avail (cb s) \<le> TCP_IBLEN" "unat (inxt (cb s)) < TCP_IBLEN" using D(5,11) by (simp_all add: TCP_IBLEN_def)
  show "seqlt (seqnum (pkt s)) (rcvnxt (cb s)) = Some (n < r)" using seq_flat(1) [OF f(1)] P D(3) by simp
qed

lemma unat_down: "unat w \<le> TCP_IBLEN \<Longrightarrow> unat (ucast (w :: u32) :: u16) = unat w"
  by (simp add: TCP_IBLEN_def unsigned_ucast_eq take_bit_nat_eq_self)

lemma place_old:
  assumes r: "reasm S base r (cb s)" and p: "carries S base n (pkt s)" and acc: "acceptable n r s" and old: "n < r"
  shows "\<exists>start data m s'. place_segment s = Some (start, data, m, s') \<and> placed S r n s start data m s'"
proof -
  let ?t = "cb s" and ?p = "pkt s" and ?L = "unat (tcpSeglen (pkt s))" and ?d = "offset2octets (offset (pkt s))"
  define W where "W = avail ?t"
  note F = place_facts [OF r p acc, folded W_def]
  have P: "unat (seqnum ?p) = base + n" "?d + ?L \<le> length (octets ?p)" "\<And>i. i < ?L \<Longrightarrow> octets ?p ! (?d + i) = S (n + i)"
    using p by (auto simp: carries_def)
  have A: "r - n \<le> W" "r - n \<le> ?L" using acc old by (auto simp: acceptable_def W_def)
  define ofs wnd where "ofs = tcpSeqdiff (rcvnxt ?t) (seqnum ?p)" and "wnd = tcpSeqdiff (rcvwnd ?t) (rcvnxt ?t) - ofs"
  have o: "unat ofs = r - n" using seq_flat(4) [OF F(2)] P(1) reasmD(3) [OF r] old by (simp add: ofs_def)
  have w: "unat wnd = W - (r - n)" using o A(1) F(3) by (simp add: wnd_def unat_sub32)
  have "unat (ucast ofs :: u16) = r - n" using unat_down o A(1) F(4) by simp
  then have L: "unat (tcpSeglen ?p - ucast ofs) = ?L - (r - n)" using A(2) by (auto simp: unat_sub_if')
  have dat: "octets ?p ! (?d + (r - n) + k) = S (r + k)" if "k < ?L - (r - n)" for k
    using P(3) [of "r - n + k"] that old by (simp add: add.assoc)
  note eq = place_segment_def [of s, unfolded Let_def, folded ofs_def wnd_def]
  show ?thesis
  proof (cases "ucast (tcpSeglen ?p - ucast ofs) > wnd")
    case True
    then have "place_segment s = Some (inxt ?t, ?d + unat ofs, ucast wnd, set_control (control ?p AND NOT TCP_CTRL_FIN) s)"
      using F(6) old by (simp add: eq ofs_def wnd_def)
    moreover have "W - (r - n) < ?L - (r - n)" using True L w by (simp add: word_less_nat_alt)
    then have "placed S r n s (inxt ?t) (?d + unat ofs) (ucast wnd) (set_control (control ?p AND NOT TCP_CTRL_FIN) s)"
      using F(4,5) w unat_down [of wnd] dat P(2) o old A unfolding placed_def W_def [symmetric] by auto
    ultimately show ?thesis by blast
  next
    case False
    then have "place_segment s = Some (inxt ?t, ?d + unat ofs, tcpSeglen ?p - ucast ofs, s)"
      using F(6) old by (simp add: eq ofs_def wnd_def)
    moreover have "?L - (r - n) \<le> W - (r - n)" using False L w by (simp add: word_less_nat_alt not_less)
    then have "placed S r n s (inxt ?t) (?d + unat ofs) (tcpSeglen ?p - ucast ofs) s"
      using F(4,5) L dat P(2) o old A unfolding placed_def W_def [symmetric] by auto
    ultimately show ?thesis by blast
  qed
qed

lemma place_new:
  assumes r: "reasm S base r (cb s)" and p: "carries S base n (pkt s)" and acc: "acceptable n r s" and new: "\<not> n < r"
  shows "\<exists>start data m s'. place_segment s = Some (start, data, m, s') \<and> placed S r n s start data m s'"
proof -
  let ?t = "cb s" and ?p = "pkt s" and ?L = "unat (tcpSeglen (pkt s))" and ?d = "offset2octets (offset (pkt s))"
  define W where "W = avail ?t"
  note F = place_facts [OF r p acc, folded W_def]
  have P: "unat (seqnum ?p) = base + n" "?d + ?L \<le> length (octets ?p)" "\<And>i. i < ?L \<Longrightarrow> octets ?p ! (?d + i) = S (n + i)"
    using p by (auto simp: carries_def)
  have A: "n - r \<le> W" using acc new by (auto simp: acceptable_def W_def)
  define ofs wnd where "ofs = tcpSeqdiff (seqnum ?p) (rcvnxt ?t)" and "wnd = tcpSeqdiff (rcvwnd ?t) (rcvnxt ?t) - ofs"
  have o: "unat ofs = n - r" using seq_flat(4) [OF F(1)] P(1) reasmD(3) [OF r] new by (simp add: ofs_def)
  have w: "unat wnd = W - (n - r)" using o A F(3) by (simp add: wnd_def unat_sub32)
  let ?start = "(inxt ?t + ofs) mod word_of_nat TCP_IBLEN"
  have "unat (inxt ?t + ofs) = unat (inxt ?t) + (n - r)" using F(4,5) o A by (subst unat_add32) (auto simp: TCP_IBLEN_def)
  then have st: "unat ?start = (unat (inxt ?t) + (n - r)) mod TCP_IBLEN" "unat ?start < TCP_IBLEN"
    by (simp_all add: unat_mod_distrib TCP_IBLEN_def)
  have dat: "octets ?p ! (?d + k) = S (r + (n - r) + k)" if "k < ?L" for k using P(3) [OF that] new by simp
  note eq = place_segment_def [of s, unfolded Let_def]
  show ?thesis
  proof (cases "ucast (tcpSeglen ?p) > wnd")
    case True
    then have "place_segment s = Some (?start, ?d, ucast wnd, set_control (control ?p AND NOT TCP_CTRL_FIN) s)"
      using F(6) new by (simp add: eq ofs_def wnd_def)
    moreover have "W - (n - r) < ?L" using True w by (simp add: word_less_nat_alt)
    then have "placed S r n s ?start ?d (ucast wnd) (set_control (control ?p AND NOT TCP_CTRL_FIN) s)"
      using F(4) w unat_down [of wnd] dat P(2) o st new A unfolding placed_def W_def [symmetric] by auto
    ultimately show ?thesis by blast
  next
    case False
    then have "place_segment s = Some (?start, ?d, tcpSeglen ?p, s)"
      using F(6) new by (simp add: eq ofs_def wnd_def)
    moreover have "?L \<le> W - (n - r)" using False w by (simp add: word_less_nat_alt not_less)
    then have "placed S r n s ?start ?d (tcpSeglen ?p) s"
      using F(4) dat P(2) o st new A unfolding placed_def W_def [symmetric] by auto
    ultimately show ?thesis by blast
  qed
qed


lemma listener_marks: "imark listener k \<longleftrightarrow> k = 16383 \<or> k = 0 \<or> k = 2"
  by (simp add: tcp_demo)

lemma listener_reasm: "reasm letters 1000 3 listener"
proof -
  have u: "unat (icount listener) = 2" "unat (inxt listener) = 1" "unat (istart listener) = 16383"
    "unat (rcvnxt listener) = 1003" "unat (rcvwnd listener) = 2463" by (simp_all add: tcp_demo)
  have one: "k = 1" if "2 + k < 16384" "imark listener ((1 + k) mod 16384)" for k
    using that by (cases "1 + k < 16384") (auto simp: listener_marks)
  have "ibuf listener 2 = letters 4" by (simp add: tcp_demo)
  then have "k < 1460 \<and> ibuf listener ((1 + k) mod 16384) = letters (3 + k)"
    if "2 + k < 16384" "imark listener ((1 + k) mod 16384)" for k
    unfolding one [OF that] by (simp add: numeral_2_eq_2)
  moreover have "instream listener = [66, 67]" by (simp add: instream_def tcp_demo TCP_IBLEN_def upt_rec)
  moreover have "map letters [3 - 2..<3] = [66, 67]" by (simp add: letters_def upt_rec)
  ultimately show ?thesis unfolding reasm_def ring_ok_def lane_def TCP_IBLEN_def u by auto
qed


end
