(* ===== verification/Tcp_Delta.thy ===== *)
theory Tcp_Delta
  imports Tcp_Demo Slot_Scan
begin

text \<open>
  The timer events of TCP as a delta queue: each event holds the time between it and the event
  before it. \<open>chain\<close> reads the list of event numbers off the pointers, \<open>due\<close> the time until an
  event.
\<close>

section \<open>The list\<close>

fun chain :: "tcpEvent list \<Rightarrow> int option \<Rightarrow> int list \<Rightarrow> bool" where
  "chain tt p [] \<longleftrightarrow> p = None"
| "chain tt p (c # cs) \<longleftrightarrow> p = Some c \<and> inarr tt c \<and> chain tt (enext (at tt c)) cs"

fun due :: "tcpEvent list \<Rightarrow> int list \<Rightarrow> int \<Rightarrow> int" where
  "due tt [] c = 0"
| "due tt (x # xs) c = remain (at tt x) + (if x = c then 0 else due tt xs c)"

definition total :: "tcpEvent list \<Rightarrow> int list \<Rightarrow> int" where
  "total tt cs = (\<Sum>c \<leftarrow> cs. remain (at tt c))"

lemma total_simps [simp]: "total tt [] = 0" "total tt (c # cs) = remain (at tt c) + total tt cs"
    "total tt (cs @ ds) = total tt cs + total tt ds"
  by (simp_all add: total_def)

definition timers_ok :: "tcpEvent list \<Rightarrow> int list \<Rightarrow> bool" where
  "timers_ok tt cs \<longleftrightarrow> tt \<noteq> [] \<and> chain tt (enext (at tt 0)) cs \<and> distinct cs \<and> 0 \<notin> set cs \<and>
     (\<forall>c \<in> set cs. used (at tt c) \<and> 0 \<le> remain (at tt c)) \<and> total tt cs \<le> INT_MAX"

lemma chain_inarr: "chain tt p cs \<Longrightarrow> c \<in> set cs \<Longrightarrow> inarr tt c"
  by (induction cs arbitrary: p) auto

lemma chain_cong:
  assumes "chain tt p cs" "\<And>c. c \<in> set cs \<Longrightarrow> inarr tt' c \<and> enext (at tt' c) = enext (at tt c)"
  shows "chain tt' p cs"
  using assms by (induction cs arbitrary: p) auto

lemma chain_start: "chain tt p cs \<Longrightarrow> p = (if cs = [] then None else Some (hd cs))"
  by (cases cs) auto

text \<open>A new event \<open>e\<close> between \<open>bs\<close> and \<open>as\<close>.\<close>

lemma chain_insert:
  assumes "chain tt (enext (at tt h)) (bs @ as)" "distinct (h # bs @ as)" "e \<notin> set (h # bs @ as)" "length tt' = length tt" "inarr tt e"
    and "\<And>c. c \<in> set (h # bs @ as) \<Longrightarrow> c \<noteq> last (h # bs) \<Longrightarrow> enext (at tt' c) = enext (at tt c)"
    and "enext (at tt' (last (h # bs))) = Some e" "enext (at tt' e) = (if as = [] then None else Some (hd as))"
  shows "chain tt' (enext (at tt' h)) (bs @ e # as)"
  using assms
proof (induction bs arbitrary: h)
  case Nil
  have "chain tt' (if as = [] then None else Some (hd as)) as"
  proof (rule chain_cong [of tt])
    show "chain tt (if as = [] then None else Some (hd as)) as"
      using Nil.prems(1) chain_start [of tt "enext (at tt h)" as] by (auto split: if_splits)
    fix c assume c: "c \<in> set as"
    then have "enext (at tt' c) = enext (at tt c)" using Nil.prems(2,6) by fastforce
    moreover have "inarr tt c" using chain_inarr [OF Nil.prems(1)] c by simp
    ultimately show "inarr tt' c \<and> enext (at tt' c) = enext (at tt c)" using Nil.prems(4) by (simp add: inarr_def)
  qed
  moreover have "inarr tt' e" using Nil.prems(4,5) by (simp add: inarr_def)
  ultimately show ?case using Nil.prems(7,8) by simp
next
  case (Cons b bs)
  have h: "enext (at tt' h) = enext (at tt h)"
  proof (rule Cons.prems(6))
    have "last (h # b # bs) \<in> set (b # bs)" by simp
    then show "h \<noteq> last (h # b # bs)" using Cons.prems(2) by (metis Un_iff append_Cons distinct.simps(2) set_append)
  qed simp
  have "chain tt' (enext (at tt' b)) (bs @ e # as)"
  proof (rule Cons.IH)
    fix c assume "c \<in> set (b # bs @ as)" "c \<noteq> last (b # bs)"
    then show "enext (at tt' c) = enext (at tt c)" using Cons.prems(6) [of c] by simp
  qed (use Cons.prems in simp_all)
  with h Cons.prems(1,4) show ?case by (simp add: inarr_def)
qed

lemma total_nonneg: "(\<And>c. c \<in> set cs \<Longrightarrow> 0 \<le> remain (at tt c)) \<Longrightarrow> 0 \<le> total tt cs"
  by (induction cs) auto

lemma due_bounds:
  assumes "\<And>c. c \<in> set cs \<Longrightarrow> 0 \<le> remain (at tt c)"
  shows "0 \<le> due tt cs c" "due tt cs c \<le> total tt cs"
  using assms by (induction cs) (auto simp: total_nonneg)

lemma due_append: "due tt (cs @ ds) c = (if c \<in> set cs then due tt cs c else total tt cs + due tt ds c)"
  by (induction cs) auto

lemma due_cong: "(\<And>c. c \<in> set cs \<Longrightarrow> remain (at tt' c) = remain (at tt c)) \<Longrightarrow> due tt' cs c = due tt cs c"
  by (induction cs) auto

lemma total_cong: "(\<And>c. c \<in> set cs \<Longrightarrow> remain (at tt' c) = remain (at tt c)) \<Longrightarrow> total tt' cs = total tt cs"
  by (induction cs) auto

section \<open>Allocation of an event\<close>

interpretation evt_scan: slot_scan "\<lambda>s. length (tcptimertab s)" "\<lambda>s i. i \<noteq> TCP_EVT_HEAD \<and> \<not> used (at (tcptimertab s) i)"
  nextevt "\<lambda>i s. s\<lparr>nextevt := i\<rparr>" "\<lambda>i s. s\<lparr>tcptimertab := upd (tcptimertab s) i (used_update (\<lambda>_. True))\<rparr>" allocEvent_loop
proof
  fix s :: tcpst and i :: int and n :: nat
  assume "0 < length (tcptimertab s)" "i = (nextevt s + 1) mod int (length (tcptimertab s))"
  then have "inarr (tcptimertab s) i" by (simp add: inarr_def)
  then show "allocEvent_loop (Suc n) s = (if i \<noteq> TCP_EVT_HEAD \<and> \<not> used (at (tcptimertab s) i)
      then Some (i, s\<lparr>nextevt := i, tcptimertab := upd (tcptimertab (s\<lparr>nextevt := i\<rparr>)) i (used_update (\<lambda>_. True))\<rparr>)
      else allocEvent_loop n (s\<lparr>nextevt := i\<rparr>))"
    using \<open>i = _\<close> by simp
qed simp_all

section \<open>Scheduling\<close>

text \<open>The search stops behind every event that is due no later than the new one.\<close>

lemma sched_loop_finds:
  assumes "chain tt p cs" "\<And>c. c \<in> set cs \<Longrightarrow> 0 \<le> remain (at tt c)" "0 \<le> time" "time \<le> INT_MAX"
  shows "\<exists>bs as time'. cs = bs @ as \<and> time' = time - total tt bs \<and> 0 \<le> time' \<and> (as \<noteq> [] \<longrightarrow> time' < remain (at tt (hd as))) \<and>
    sched_loop tt time prev p = Some (time', last (prev # bs), if as = [] then None else Some (hd as))"
  using assms
proof (induction cs arbitrary: p prev time)
  case Nil
  then show ?case by (subst sched_loop.simps) simp
next
  case (Cons c cs)
  then have p: "p = Some c" "inarr tt c" "chain tt (enext (at tt c)) cs" by auto
  show ?case
  proof (cases "remain (at tt c) \<le> time")
    case False
    then have "sched_loop tt time prev p = Some (time, prev, p)" using p by (subst sched_loop.simps) simp
    with False Cons.prems p show ?thesis by (intro exI [of _ "[]"] exI [of _ "c # cs"] exI [of _ time]) simp
  next
    case True
    let ?t = "time - remain (at tt c)"
    have t: "0 \<le> ?t" "?t \<le> INT_MAX" using True Cons.prems by (auto intro: order_trans [of ?t time])
    then have step: "sched_loop tt time prev p = sched_loop tt ?t c (enext (at tt c))"
      using p True by (subst sched_loop.simps) (simp add: INT_MIN_def)
    from Cons.IH [OF p(3) _ t] Cons.prems(2) obtain bs as time' where *: "cs = bs @ as" "time' = ?t - total tt bs" "0 \<le> time'"
        "as \<noteq> [] \<longrightarrow> time' < remain (at tt (hd as))"
        "sched_loop tt ?t c (enext (at tt c)) = Some (time', last (c # bs), if as = [] then None else Some (hd as))"
      by (metis list.set_intros(2))
    then show ?thesis using step by (intro exI [of _ "c # bs"] exI [of _ as] exI [of _ time']) auto
  qed
qed

lemma upd_cong: "f (at xs i) = g (at xs i) \<Longrightarrow> upd xs i f = upd xs i g"
  by (simp add: upd_def at_def)

text \<open>What scheduling does to the table, once the event \<open>e\<close> is allocated and its place is known.\<close>

definition placed_event :: "int \<Rightarrow> int list \<Rightarrow> int list \<Rightarrow> int \<Rightarrow> (tcpEvent \<Rightarrow> tcpEvent) \<Rightarrow> tcpEvent list \<Rightarrow> tcpEvent list" where
  "placed_event e bs as time f tt = (
     let tt = upd tt e f;
         tt = upd tt e (\<lambda>x. x\<lparr>enext := if as = [] then None else Some (hd as)\<rparr>);
         tt = upd tt (last (0 # bs)) (enext_update (\<lambda>_. Some e));
         tt = upd tt e (remain_update (\<lambda>_. time))
     in if as = [] then tt else upd tt (hd as) (remain_update (\<lambda>r. r - time)))"

lemma placed_event_at:
  assumes "distinct (0 # bs @ as)" "e \<notin> set (0 # bs @ as)" "\<And>c. c \<in> set (0 # bs @ as) \<Longrightarrow> inarr tt c" "inarr tt e"
  shows "length (placed_event e bs as time f tt) = length tt"
    and "at (placed_event e bs as time f tt) e = (f (at tt e))\<lparr>enext := if as = [] then None else Some (hd as), remain := time\<rparr>"
    and "\<And>c. c \<in> set (0 # bs @ as) \<Longrightarrow> at (placed_event e bs as time f tt) c = (at tt c)\<lparr>
      enext := if c = last (0 # bs) then Some e else enext (at tt c),
      remain := if as \<noteq> [] \<and> c = hd as then remain (at tt c) - time else remain (at tt c)\<rparr>"
proof -
  have l: "last (0 # bs) \<in> set (0 # bs)" by (rule last_in_set) simp
  then have l2: "inarr tt (last (0 # bs))" "last (0 # bs) \<noteq> e" using assms(2,3) by (metis Un_iff set_append append_Cons)+
  have h: "as \<noteq> [] \<Longrightarrow> inarr tt (hd as)" "as \<noteq> [] \<Longrightarrow> hd as \<noteq> e" "as \<noteq> [] \<Longrightarrow> hd as \<noteq> last (0 # bs)"
    using assms(1-3) l by (auto simp: neq_Nil_conv)
  show "length (placed_event e bs as time f tt) = length tt" by (simp add: placed_event_def Let_def)
  show "at (placed_event e bs as time f tt) e = (f (at tt e))\<lparr>enext := if as = [] then None else Some (hd as), remain := time\<rparr>"
    using l2 h assms(4) by (auto simp: placed_event_def Let_def at_upd simp del: last.simps)
  fix c assume c: "c \<in> set (0 # bs @ as)"
  then have "inarr tt c" "c \<noteq> e" using assms(2,3) by blast+
  then show "at (placed_event e bs as time f tt) c = (at tt c)\<lparr>
      enext := if c = last (0 # bs) then Some e else enext (at tt c),
      remain := if as \<noteq> [] \<and> c = hd as then remain (at tt c) - time else remain (at tt c)\<rparr>"
    using l2 h assms(4) by (auto simp: placed_event_def Let_def at_upd simp del: last.simps)
qed

lemma placed_event_ok:
  assumes ok: "timers_ok tt (bs @ as)" and e: "inarr tt e" "e \<notin> set (0 # bs @ as)" and f: "used (f (at tt e))"
    and time: "0 \<le> time" "as \<noteq> [] \<longrightarrow> time < remain (at tt (hd as))" "total tt bs + time \<le> INT_MAX"
  shows "timers_ok (placed_event e bs as time f tt) (bs @ e # as)"
    and "due (placed_event e bs as time f tt) (bs @ e # as) e = total tt bs + time"
    and "c \<in> set (bs @ as) \<Longrightarrow> due (placed_event e bs as time f tt) (bs @ e # as) c = due tt (bs @ as) c"
    and "etype (at (placed_event e bs as time f tt) e) = etype (f (at tt e))" "etcb (at (placed_event e bs as time f tt) e) = etcb (f (at tt e))"
    and "c \<in> set (bs @ as) \<Longrightarrow> etype (at (placed_event e bs as time f tt) c) = etype (at tt c) \<and>
      etcb (at (placed_event e bs as time f tt) c) = etcb (at tt c)"
proof -
  let ?u = "placed_event e bs as time f tt"
  have ok': "chain tt (enext (at tt 0)) (bs @ as)" "distinct (0 # bs @ as)" "inarr tt 0"
      "\<And>c. c \<in> set (bs @ as) \<Longrightarrow> used (at tt c) \<and> 0 \<le> remain (at tt c)" "total tt (bs @ as) \<le> INT_MAX"
    using ok by (auto simp: timers_ok_def inarr_def)
  have "inarr tt c" if "c \<in> set (0 # bs @ as)" for c using that chain_inarr [OF ok'(1)] ok'(3) by auto
  note A = placed_event_at [OF ok'(2) e(2) this e(1), where time = time and f = f]
  have bs: "remain (at ?u c) = remain (at tt c)" if "c \<in> set bs" for c
    using A(3) [of c] that ok'(2) by (cases as) auto
  have as: "total ?u as = total tt as - (if as = [] then 0 else time)"
      "due ?u as c = due tt as c - (if as = [] then 0 else time)" for c
  proof -
    have hd: "remain (at ?u a) = remain (at tt a) - time" if "as = a # as'" for a as' using that A(3) [of a] by simp
    have tl: "remain (at ?u c) = remain (at tt c)" if "as = a # as'" "c \<in> set as'" for a as' c
      using that A(3) [of c] ok'(2) by auto
    show "total ?u as = total tt as - (if as = [] then 0 else time)"
      using hd tl total_cong [of "tl as" ?u tt] by (cases as) simp_all
    show "due ?u as c = due tt as c - (if as = [] then 0 else time)"
      using hd tl due_cong [of "tl as" ?u tt] by (cases as) simp_all
  qed
  have rem: "used (at ?u c) \<and> 0 \<le> remain (at ?u c)" if "c \<in> set (bs @ e # as)" for c
  proof (cases "c = e")
    case True then show ?thesis using A(2) f time by simp
  next
    case False
    then have "c \<in> set (bs @ as)" using that by auto
    then show ?thesis using A(3) [of c] ok'(4) [of c] time by auto
  qed
  have tot: "total ?u bs = total tt bs" "due ?u bs c = due tt bs c" for c using total_cong due_cong bs by blast+
  have "chain ?u (enext (at ?u 0)) (bs @ e # as)"
    by (rule chain_insert [OF ok'(1,2) e(2) A(1) e(1)]) (use A(2,3) last_in_set [of "0 # bs"] in \<open>auto simp del: last.simps\<close>)
  moreover have "total ?u (bs @ e # as) \<le> INT_MAX"
    using tot(1) as(1) A(2) ok'(5) time(3) by (auto split: if_splits)
  moreover have "?u \<noteq> []" using A(1) ok by (auto simp: timers_ok_def)
  moreover have "distinct (bs @ e # as)" "0 \<notin> set (bs @ e # as)" using ok'(2) e(2) by auto
  ultimately show "timers_ok ?u (bs @ e # as)" using rem unfolding timers_ok_def by blast
  show "due ?u (bs @ e # as) e = total tt bs + time" using e(2) tot A(2) by (simp add: due_append)
  show "etype (at ?u e) = etype (f (at tt e))" "etcb (at ?u e) = etcb (f (at tt e))" using A(2) by simp_all
  assume "c \<in> set (bs @ as)"
  then show "etype (at ?u c) = etype (at tt c) \<and> etcb (at ?u c) = etcb (at tt c)" using A(3) [of c] by simp
  show "due ?u (bs @ e # as) c = due tt (bs @ as) c"
  proof -
  have "c \<noteq> e" using \<open>c \<in> set (bs @ as)\<close> e(2) by auto
  then show ?thesis using \<open>c \<in> set (bs @ as)\<close> tot as(2) A(2) by (auto simp: due_append)
  qed
qed

text \<open>The event that scheduling fills in.\<close>

abbreviation new_event :: "int \<Rightarrow> evttype \<Rightarrow> nat \<Rightarrow> tcpEvent \<Rightarrow> tcpEvent" where
  "new_event time typ i x \<equiv> x\<lparr>used := True, etime := time, etype := typ, etcb := i\<rparr>"

lemma sched_places:
  assumes ok: "timers_ok (tcptimertab s) (bs @ as)" and e: "inarr (tcptimertab s) e" "e \<notin> set (0 # bs @ as)"
    and alloc: "allocEvent s = Some (e, s\<lparr>nextevt := e, tcptimertab := upd (tcptimertab s) e (used_update (\<lambda>_. True))\<rparr>)"
    and search: "sched_loop (upd (tcptimertab s) e (new_event time typ (cbid s))) time 0 (enext (at (tcptimertab s) 0)) =
      Some (time', last (0 # bs), if as = [] then None else Some (hd as))"
    and time: "0 \<le> time" "0 \<le> time'" "as \<noteq> [] \<longrightarrow> time' < remain (at (tcptimertab s) (hd as))"
  shows "tcpTimerSched time typ s =
    Some (OK, s\<lparr>nextevt := e, tcptimertab := placed_event e bs as time' (new_event time typ (cbid s)) (tcptimertab s)\<rparr>)"
proof -
  let ?t = "tcptimertab s"
  define u where "u = upd ?t e (new_event time typ (cbid s))"
  define nxt where "nxt = (if as = [] then None else Some (hd as))"
  define v where "v = upd (upd (upd u e (enext_update (\<lambda>_. nxt))) (last (0 # bs)) (enext_update (\<lambda>_. Some e))) e (remain_update (\<lambda>_. time'))"
  have ch: "chain ?t (enext (at ?t 0)) (bs @ as)" and z: "inarr ?t 0" using ok by (auto simp: timers_ok_def inarr_def)
  have inu: "inarr u 0" "inarr u e" "inarr u (last (0 # bs))" "e \<noteq> SYSERR" "at u 0 = at ?t 0"
    using z e chain_inarr [OF ch] last_in_set [of bs] by (auto simp: u_def at_upd inarr_def SYSERR_def)
  have call: "tcpTimerSched time typ s = (case nxt of
      None \<Rightarrow> Some (OK, s\<lparr>nextevt := e, tcptimertab := v\<rparr>)
    | Some n \<Rightarrow> do {
        x \<leftarrow> aget v n;
        r \<leftarrow> c_int (remain x - time');
        tt \<leftarrow> aupd v n (remain_update (\<lambda>_. r));
        Some (OK, s\<lparr>nextevt := e, tcptimertab := tt\<rparr>) })"
    using e(1) alloc time(1) search inu
    by (auto simp: tcpTimerSched_def TCP_EVT_HEAD_def nxt_def [symmetric] u_def [symmetric] v_def split: option.splits simp del: last.simps)
  show ?thesis
  proof (cases as)
    case Nil
    then show ?thesis unfolding call by (simp add: placed_event_def nxt_def v_def u_def Let_def del: last.simps)
  next
    case (Cons a as')
    have a: "inarr ?t a" "a \<noteq> e" "a \<noteq> last (0 # bs)" using Cons ok e chain_inarr [OF ch] last_in_set [of bs] by (auto simp: timers_ok_def)
    then have v: "at v a = at ?t a" "inarr v a" using e(1) inu by (simp_all add: v_def u_def at_upd del: last.simps)
    have "remain (at ?t a) \<le> INT_MAX"
      using ok total_nonneg [of bs ?t] total_nonneg [of as' ?t] by (auto simp: timers_ok_def Cons)
    then have "c_int (remain (at ?t a) - time') = Some (remain (at ?t a) - time')" using time Cons by (auto simp: INT_MIN_def)
    moreover have "upd v a (remain_update (\<lambda>r. r - time')) = upd v a (remain_update (\<lambda>_. remain (at ?t a) - time'))"
      by (rule upd_cong) (use v(1) in \<open>cases "at ?t a", simp\<close>)
    moreover have "placed_event e bs as time' (new_event time typ (cbid s)) ?t = upd v a (remain_update (\<lambda>r. r - time'))"
      by (simp add: placed_event_def Cons nxt_def v_def u_def Let_def del: last.simps)
    ultimately show ?thesis unfolding call using v Cons by (simp add: nxt_def)
  qed
qed


text \<open>Two events of connection 0, due in 100 and in 150 milliseconds, and a free slot.\<close>

definition two_events :: tcpst where
  "two_events = (receiving listener (segment_of 1002 TCP_CTRL_ACK []))\<lparr>tcptimertab :=
     [\<lparr>used = True, etime = 0, remain = 0, etype = TCP_EVT_TIMEWT, etcb = 0, enext = Some 1\<rparr>,
      \<lparr>used = True, etime = 500, remain = 100, etype = TCP_EVT_RXT, etcb = 0, enext = Some 2\<rparr>,
      \<lparr>used = True, etime = 3000, remain = 50, etype = TCP_EVT_PERSIST, etcb = 0, enext = None\<rparr>,
      \<lparr>used = False, etime = 0, remain = 0, etype = TCP_EVT_TIMEWT, etcb = 0, enext = None\<rparr>]\<rparr>"

lemma two_events_ok: "timers_ok (tcptimertab two_events) [1, 2]"
  by (simp add: two_events_def timers_ok_def inarr_def at_def INT_MAX_def)


text \<open>
  Removing events. After an event was removed the loop continues as if it were still in the list,
  so that of two neighbouring events of a connection the second stays linked although its slot is
  marked as free: it will be triggered, and the slot can be given to another event while it is in
  the list.
\<close>

theorem purge_leaves_event:
  "map_option (\<lambda>(r, s). (r, map used (tcptimertab s), map enext (tcptimertab s))) (tcpTimerPurge None two_events) =
    Some (400, [True, False, False, False], [Some 2, None, None, None])"
  by code_simp

end
