(* ===== verification/Tcp_Transitions.thy ===== *)
theory Tcp_Transitions
  imports Tcp_Demo
begin

text \<open>
  The states of a connection. RFC 793 draws them as a diagram; \<open>rfc793\<close> has its edges for the
  events that a received segment is. What \<open>tcpRecv\<close> does to the state of a connection follows the
  diagram.
\<close>

section \<open>What keeps the state\<close>

lemma bindE: "Option.bind m f = Some y \<Longrightarrow> (\<And>x. m = Some x \<Longrightarrow> f x = Some y \<Longrightarrow> P) \<Longrightarrow> P"
  by (cases m) auto

lemma allocEvent_keeps: "allocEvent_loop n s = Some (r, s') \<Longrightarrow> cb s' = cb s \<and> cbid s' = cbid s \<and> pkt s' = pkt s"
proof (induction n arbitrary: s)
  case (Suc n)
  let ?s = "s\<lparr>nextevt := (nextevt s + 1) mod int (length (tcptimertab s))\<rparr>"
  from Suc.prems consider "allocEvent_loop n ?s = Some (r, s')" | tt where "s' = ?s\<lparr>tcptimertab := tt\<rparr>"
    by (auto simp: bind_Some_iff split: if_splits)
  then show ?case using Suc.IH [of ?s] by cases auto
qed simp

lemma sched_keeps: "tcpTimerSched time typ s = Some (r, s') \<Longrightarrow> cb s' = cb s \<and> pkt s' = pkt s"
  by (auto simp: tcpTimerSched_def allocEvent_def bind_Some_iff split: if_splits option.splits dest!: allocEvent_keeps)

lemma purge_loop_keeps:
  assumes "purge_loop typ prev cur result s = Some y"
  shows "cb (snd y) = cb s \<and> pkt (snd y) = pkt s"
proof (rule purge_loop.raw_induct [OF _ assms])
  fix loop ty prev cur result s y
  assume IH: "\<And>ty prev cur result s y. loop ty prev cur result s = Some y \<Longrightarrow> cb (snd y) = cb s \<and> pkt (snd y) = pkt s"
    and eq: "(case cur of None \<Rightarrow> Some (result, s) | Some c \<Rightarrow> do {
         e \<leftarrow> aget (tcptimertab s) c;
         (result, s) \<leftarrow>
           (if etcb e = cbid s \<and> (ty = None \<or> ty = Some (etype e))
            then do {
              result \<leftarrow> (if result = SYSERR then c_int (etime e - remain e) else Some result);
              s \<leftarrow> (case enext e of
                     None \<Rightarrow> Some s
                   | Some n \<Rightarrow> do {
                       e' \<leftarrow> aget (tcptimertab s) n;
                       r \<leftarrow> c_int (remain e' + remain e);
                       evt_upd n (remain_update (\<lambda>_. r)) s });
              s \<leftarrow> evt_upd prev (enext_update (\<lambda>_. enext e)) s;
              s \<leftarrow> evt_upd c (used_update (\<lambda>_. False)) s;
              Some (result, s) }
            else Some (result, s));
         e \<leftarrow> aget (tcptimertab s) c;
         loop ty c (enext e) result s }) = Some y"
  then show "cb (snd y) = cb s \<and> pkt (snd y) = pkt s"
    by (auto simp: bind_Some_iff split: option.splits if_splits dest!: IH)
qed

lemma purge_keeps: "tcpTimerPurge typ s = Some (r, s') \<Longrightarrow> cb s' = cb s \<and> pkt s' = pkt s"
  by (auto simp: tcpTimerPurge_def bind_Some_iff dest!: purge_loop_keeps)

text \<open>The fields that decide about a FIN.\<close>

definition skeleton :: "tcb \<Rightarrow> tcpstate \<times> u32 \<times> u32" where
  "skeleton t = (tstate t, sndfin t, snduna t)"

lemma skeleton_eq: "skeleton t = skeleton u \<longleftrightarrow> tstate t = tstate u \<and> sndfin t = sndfin u \<and> snduna t = snduna u"
  by (simp add: skeleton_def)

lemma skeleton_upd [simp]: "skeleton (t\<lparr>rcvnxt := x1\<rparr>) = skeleton t" "skeleton (t\<lparr>rcvwnd := x2\<rparr>) = skeleton t" "skeleton (t\<lparr>sndflg := x3\<rparr>) = skeleton t"
    "skeleton (t\<lparr>sndnxt := x4\<rparr>) = skeleton t" "skeleton (t\<lparr>rcvfin := x5\<rparr>) = skeleton t" "skeleton (t\<lparr>rcvflg := x6\<rparr>) = skeleton t"
    "skeleton (t\<lparr>psttime := x7\<rparr>) = skeleton t" "skeleton (t\<lparr>ibuf := x8\<rparr>) = skeleton t" "skeleton (t\<lparr>imark := x9\<rparr>) = skeleton t"
    "skeleton (t\<lparr>icount := y1\<rparr>) = skeleton t" "skeleton (t\<lparr>ibytes := y2\<rparr>) = skeleton t" "skeleton (t\<lparr>inxt := y3\<rparr>) = skeleton t"
  by (simp_all add: skeleton_def)

lemma window_keeps: "skeleton (cb (snd (tcpSendWindow s))) = skeleton (cb s)"
  by (auto simp: tcpSendWindow_def Let_def)

lemma send_keeps:
  assumes "tcpSend ctl sq ack start len s = Some (r, s')"
  shows "skeleton (cb s') = skeleton (cb s)"
proof -
  obtain w u where u: "tcpSendWindow s = (w, u)" by (cases "tcpSendWindow s")
  with window_keeps [of s] have "skeleton (cb u) = skeleton (cb s)" by simp
  with u assms show ?thesis by (auto simp: tcpSend_def Let_def bind_Some_iff split: if_splits)
qed

lemma ack_keeps: "tcpSendAck s = Some (r, s') \<Longrightarrow> skeleton (cb s') = skeleton (cb s)"
  by (auto simp: tcpSendAck_def Let_def dest!: send_keeps)

lemma syn_keeps:
  assumes "tcpSendSyn s = Some (r, s')"
  shows "skeleton (cb s') = skeleton (cb s)"
proof -
  obtain ctl u where u: "(if has (sndflg (cb s)) TCP_FLG_SNDACK
      then (TCP_CTRL_SYN OR TCP_CTRL_ACK, clear_sndflg TCP_FLG_SNDACK s) else (TCP_CTRL_SYN, s)) = (ctl, u)" by fastforce
  then have "skeleton (cb u) = skeleton (cb s)" by (auto split: if_splits)
  moreover from assms u obtain r1 v where v: "tcpSend ctl (sndnxt (cb u)) (rcvnxt (cb u)) 0 1 u = Some (r1, v)"
      "s' = v \<or> (\<exists>w r2. tcpTimerSched (rxttime (cb v)) TCP_EVT_RXT (cbu (\<lambda>t. t\<lparr>sndnxt := sndnxt t + 1, sndflg := sndflg t OR TCP_FLG_SYN\<rparr>) v) = Some (r2, s'))"
    by (auto simp: tcpSendSyn_def bind_Some_iff split: if_splits)
  ultimately show ?thesis using send_keeps [OF v(1)] by (auto dest: sched_keeps)
qed

lemma senddata_loop_keeps:
  assumes "senddata_loop tosend snt wndused s = Some y"
  shows "skeleton (cb (snd (snd (snd y)))) = skeleton (cb s)"
proof (rule senddata_loop.raw_induct [OF _ assms])
  fix loop tosend snt wndused s y
  assume IH: "\<And>tosend snt wndused s y. loop tosend snt wndused s = Some y \<Longrightarrow> skeleton (cb (snd (snd (snd y)))) = skeleton (cb s)"
    and eq: "(if tosend > ucast (sndmss (cb s))
      then do {
        (_, s) \<leftarrow> tcpSend TCP_CTRL_ACK (sndnxt (cb s)) (rcvnxt (cb s))
          ((ostart (cb s) + wndused) mod word_of_nat TCP_OBLEN) (sndmss (cb s)) s;
        let mss = (ucast (sndmss (cb s)) :: u32);
        loop (tosend - mss) (snt + mss) (wndused + mss)
          (cbu (\<lambda>t. t\<lparr>sndnxt := seqadd (sndnxt t) (ucast (sndmss t))\<rparr>) s) }
      else Some (tosend, snt, wndused, s)) = Some y"
  then show "skeleton (cb (snd (snd (snd y)))) = skeleton (cb s)"
    by (auto simp: bind_Some_iff Let_def split: if_splits dest!: IH send_keeps)
qed

lemma rxt_ensure_keeps: "rxt_ensure s = Some s' \<Longrightarrow> skeleton (cb s') = skeleton (cb s)"
  by (auto simp: rxt_ensure_def bind_Some_iff split: if_splits dest!: sched_keeps)

lemma senddata_go_keeps:
  assumes "tcpSendData_go s = Some (r, s')"
  shows "skeleton (cb s') = skeleton (cb s)"
proof -
  let ?used = "tcpSeqdiff (sndnxt (cb s)) (snduna (cb s))"
  obtain a ctl where p: "(if out_pending (cb s) > sndwnd (cb s) then (sndwnd (cb s) - ?used, TCP_CTRL_ACK)
      else (out_pending (cb s) - ?used, if has (sndflg (cb s)) TCP_FLG_FIN then TCP_CTRL_ACK OR TCP_CTRL_FIN else TCP_CTRL_ACK)) = (a, ctl)"
    by fastforce
  from assms obtain a' b' c' u r2 v w where "senddata_loop a 0 ?used s = Some (a', b', c', u)"
      "tcpSend ctl (sndnxt (cb u)) (rcvnxt (cb u)) ((ostart (cb u) + c') mod word_of_nat TCP_OBLEN) (ucast a') u = Some (r2, v)"
      "rxt_ensure (cbu (\<lambda>t. t\<lparr>sndnxt := seqadd (sndnxt t) a'\<rparr>) v) = Some w"
      "s' = clear_sndflg TCP_FLG_SNDDATA (if b' + a' > 0 then clear_sndflg TCP_FLG_SNDACK w else w)"
    unfolding tcpSendData_go_def Let_def p by (auto simp: bind_Some_iff)
  then show ?thesis using senddata_loop_keeps send_keeps rxt_ensure_keeps by fastforce
qed

lemma senddata_keeps: "tcpSendData s = Some (r, s') \<Longrightarrow> skeleton (cb s') = skeleton (cb s)"
  by (auto simp: tcpSendData_def Let_def bind_Some_iff split: if_splits dest!: senddata_go_keeps sched_keeps rxt_ensure_keeps)

lemma rst_keeps: "tcpSendRst junk s = Some (r, s') \<Longrightarrow> cb s' = cb s"
  by (auto simp: tcpSendRst_def Let_def split: if_splits)

lemma opts_loop_keeps:
  assumes "opts_loop xs endopt i s = Some s'"
  shows "skeleton (cb s') = skeleton (cb s)"
proof (rule opts_loop.raw_induct [OF _ assms])
  fix loop xs endopt i s s'
  assume IH: "\<And>xs endopt i s s'. loop xs endopt i s = Some s' \<Longrightarrow> skeleton (cb s') = skeleton (cb s)"
    and eq: "do {
     o1 \<leftarrow> aget xs i;
     if o1 \<noteq> TCP_OPT_END \<and> i < endopt
     then if o1 = TCP_OPT_MSS
       then do {
         lo \<leftarrow> aget xs (i + 2);
         hi \<leftarrow> aget xs (i + 3);
         loop xs endopt (i + 4)
           (cbu (\<lambda>t. t\<lparr>sndmss := ucast lo + push_bit 8 (ucast hi) - word_of_nat TCP_HDR_LEN\<rparr>) s) }
       else loop xs endopt (i + 1) s
     else Some s } = Some s'"
  have "skeleton (t\<lparr>sndmss := x\<rparr>) = skeleton t" for t x by (simp add: skeleton_def)
  with eq show "skeleton (cb s') = skeleton (cb s)"
    by (auto simp: bind_Some_iff split: if_splits dest!: IH)
qed

lemma opts_keeps: "tcpRecvOpts s = Some s' \<Longrightarrow> skeleton (cb s') = skeleton (cb s)"
  by (auto simp: tcpRecvOpts_def split: if_splits dest: opts_loop_keeps)

lemma valid_keeps: "tcpRecvValid s = Some (r, s') \<Longrightarrow> cb s' = cb s"
  unfolding tcpRecvValid_def Let_def by (erule bindE) auto

lemma rtt_update_keeps:
  assumes "rtt_update rtt t = Some t'"
  shows "tstate t' = tstate t \<and> sndfin t' = sndfin t"
proof -
  from assms obtain u a b c where u: "(if sndrtt t = 0
        then do { _ \<leftarrow> c_guard (rtt \<ge> 0); r \<leftarrow> c_int (rtt * 8); Some (t\<lparr>sndrtt := r\<rparr>) } else Some t) = Some u"
      and "t' = u\<lparr>sndrtt := a, sndrtd := b, rxttime := c\<rparr>"
    unfolding rtt_update_def Let_def by (elim bindE) (metis option.inject)
  moreover from u have "u = t \<or> (\<exists>r. u = t\<lparr>sndrtt := r\<rparr>)" by (auto simp: bind_Some_iff split: if_splits)
  ultimately show ?thesis by auto
qed

lemma rtt_keeps:
  assumes "tcpRecvRtt s = Some s'"
  shows "tstate (cb s') = tstate (cb s) \<and> sndfin (cb s') = sndfin (cb s)"
  using assms unfolding tcpRecvRtt_def
proof (elim bindE, clarify)
  fix rtt u
  assume u: "tcpTimerPurge (Some TCP_EVT_RXT) s = Some (rtt, u)"
  assume "do {
      t \<leftarrow> (if rtt \<noteq> SYSERR \<and> rxtcount (cb u) = 0 then rtt_update rtt (cb u) else Some (cb u));
      if sndcwn t < sndsst t then Some (u\<lparr>cb := t\<lparr>sndcwn := sndcwn t + ucast (sndmss t)\<rparr>\<rparr>)
      else do {
        q \<leftarrow> c_int (uint (sndmss t) * uint (sndmss t));
        _ \<leftarrow> c_guard (sndcwn t \<noteq> 0);
        Some (u\<lparr>cb := t\<lparr>sndcwn := sndcwn t + word_of_int q div sndcwn t\<rparr>\<rparr>) } } = Some s'"
  then show "tstate (cb s') = tstate (cb s) \<and> sndfin (cb s') = sndfin (cb s)"
  proof (elim bindE)
    fix t
    assume t: "(if rtt \<noteq> SYSERR \<and> rxtcount (cb u) = 0 then rtt_update rtt (cb u) else Some (cb u)) = Some t"
    then have "tstate t = tstate (cb u) \<and> sndfin t = sndfin (cb u)" using rtt_update_keeps by (metis option.inject)
    moreover assume "(if sndcwn t < sndsst t then Some (u\<lparr>cb := t\<lparr>sndcwn := sndcwn t + ucast (sndmss t)\<rparr>\<rparr>)
      else do {
        q \<leftarrow> c_int (uint (sndmss t) * uint (sndmss t));
        _ \<leftarrow> c_guard (sndcwn t \<noteq> 0);
        Some (u\<lparr>cb := t\<lparr>sndcwn := sndcwn t + word_of_int q div sndcwn t\<rparr>\<rparr>) }) = Some s'"
    then have "\<exists>x. cb s' = t\<lparr>sndcwn := x\<rparr>" by (auto split: if_splits elim!: bindE)
    ultimately show ?thesis using purge_keeps [OF u] by auto
  qed
qed

lemma ack_new_keeps: "ack_new s = Some s' \<Longrightarrow> tstate (cb s') = tstate (cb s)"
  unfolding ack_new_def Let_def
  by (erule bindE)+ (auto simp: tsignal_def bind_Some_iff split: if_splits dest!: rtt_keeps sched_keeps)

lemma ack_window_keeps: "ack_window s = Some s' \<Longrightarrow> tstate (cb s') = tstate (cb s)"
  unfolding ack_window_def Let_def by (erule bindE) (auto simp: bind_Some_iff split: if_splits dest!: purge_keeps)

lemma recvack_keeps: "tcpRecvAck s = Some s' \<Longrightarrow> tstate (cb s') = tstate (cb s)"
  unfolding tcpRecvAck_def by (erule bindE)+ (auto split: if_splits dest!: ack_new_keeps ack_window_keeps)

lemma store_keeps: "skeleton (store_octets i xs t) = skeleton t"
  by (induction xs arbitrary: i t) simp_all

lemma catch_up_keeps: "skeleton (snd (catch_up t)) = skeleton t"
proof (induction t rule: catch_up.induct)
  case (1 t)
  then show ?case by (subst catch_up.simps) (auto simp: Let_def take_octet_def)
qed

lemma place_keeps: "place_segment s = Some (a, b, c, s') \<Longrightarrow> cb s' = cb s"
  by (auto simp: place_segment_def Let_def bind_Some_iff split: if_splits)

lemma recv_store_keeps:
  assumes "recv_store s = Some (n, s')"
  shows "skeleton (cb s') = skeleton (cb s)"
proof (cases "tcpSeglen (pkt s) > 0 \<and> tstate (cb s) \<in> {TCP_ESTAB, TCP_FINWT1, TCP_FINWT2}")
  case True
  then obtain start data seglen u where u: "place_segment s = Some (start, data, seglen, u)"
    using assms by (auto simp: recv_store_def bind_Some_iff)
  let ?t = "store_octets start (take (unat seglen) (drop data (octets (pkt u)))) (cb u)"
  have "cb s' = ?t \<or> (\<exists>f. cb s' = (snd (catch_up (take_segment seglen ?t)))\<lparr>sndflg := f\<rparr>)"
    using True assms u by (auto simp: recv_store_def bind_Some_iff tsignal_def split_def Let_def split: if_splits)
  moreover have "skeleton (take_segment seglen t) = skeleton t" for t by (simp add: take_segment_def)
  ultimately show ?thesis using place_keeps [OF u] store_keeps catch_up_keeps by (metis skeleton_upd(3))
qed (use assms in \<open>auto simp: recv_store_def\<close>)

section \<open>The diagram\<close>

inductive rfc793 :: "tcpstate \<Rightarrow> tcpstate \<Rightarrow> bool" where
  rcv_syn: "rfc793 TCP_LISTEN TCP_SYNRECV"
| rcv_syn_crossed: "rfc793 TCP_SYNSENT TCP_SYNRECV"
| rcv_syn_ack: "rfc793 TCP_SYNSENT TCP_ESTAB"
| rcv_ack_of_syn: "rfc793 TCP_SYNRECV TCP_ESTAB"
| rcv_rst_passive: "rfc793 TCP_SYNRECV TCP_LISTEN"
| rcv_fin_synrecv: "rfc793 TCP_SYNRECV TCP_CLOSEWT"
| rcv_fin: "rfc793 TCP_ESTAB TCP_CLOSEWT"
| rcv_ack_of_fin: "rfc793 TCP_FINWT1 TCP_FINWT2"
| rcv_fin_crossed: "rfc793 TCP_FINWT1 TCP_CLOSING"
| rcv_fin_and_ack: "rfc793 TCP_FINWT1 TCP_TIMEWT"
| rcv_last_fin: "rfc793 TCP_FINWT2 TCP_TIMEWT"
| rcv_last_ack: "rfc793 TCP_CLOSING TCP_TIMEWT"
| rcv_rst: "a \<notin> {TCP_CLOSED, TCP_LISTEN} \<Longrightarrow> rfc793 a TCP_CLOSED"

text \<open>The states that the FIN of a segment leads to.\<close>

definition after_fin :: "tcpstate \<Rightarrow> tcpstate set" where
  "after_fin a = {a} \<union> (case a of TCP_SYNRECV \<Rightarrow> {TCP_CLOSEWT} | TCP_ESTAB \<Rightarrow> {TCP_CLOSEWT} | TCP_FINWT1 \<Rightarrow> {TCP_CLOSING} | _ \<Rightarrow> {})"

text \<open>A connection whose FIN is acknowledged has left \<open>FINWT1\<close>.\<close>

definition fin_open :: "tcb \<Rightarrow> bool" where
  "fin_open t \<longleftrightarrow> tstate t = TCP_FINWT1 \<longrightarrow> seqlt (sndfin t) (snduna t) \<noteq> Some True"

lemma fin_open_skeleton: "skeleton t = skeleton u \<Longrightarrow> fin_open t = fin_open u"
  by (simp add: skeleton_eq fin_open_def)

lemma fin_next_states:
  assumes "fin_next s = Some s'" "fin_open (cb s)"
  shows "tstate (cb s') \<in> after_fin (tstate (cb s))"
proof -
  define u where "u = (if semcnts s (readers (cb s)) < 0 then tsignaln (readers (cb s)) (semcnts s (readers (cb s)) * - 1) s else s)"
  have u: "cb u = cb s" by (simp add: u_def tsignaln_def)
  show ?thesis
    using assms u unfolding fin_next_def u_def [symmetric]
    by (cases "tstate (cb s)") (auto simp: after_fin_def fin_open_def Let_def bind_Some_iff split: if_splits dest!: purge_keeps sched_keeps)
qed

lemma recv_fin_states:
  assumes "recv_fin n s = Some s'" "fin_open (cb s)"
  shows "tstate (cb s') \<in> after_fin (tstate (cb s))"
proof -
  define u where "u = (if \<not> has (rcvflg (cb s)) TCP_FLG_FIN
    then cbu (\<lambda>t. t\<lparr>rcvfin := seqadd (seqnum (pkt s)) (ucast n), rcvflg := rcvflg t OR TCP_FLG_FIN\<rparr>) s else s)"
  have u: "skeleton (cb u) = skeleton (cb s)" by (simp add: u_def)
  then have "fin_open (cb u)" "tstate (cb u) = tstate (cb s)" using assms(2) fin_open_skeleton [OF u] u by (auto simp: skeleton_eq)
  moreover have "s' = s \<or> s' = u \<or> fin_next u = Some s'"
    using assms(1) unfolding recv_fin_def Let_def unfolding u_def [symmetric] by (simp split: if_splits)
  ultimately show ?thesis using fin_next_states [of u s'] by (auto simp: after_fin_def)
qed

lemma recv_data_states:
  assumes "tcpRecvData s = Some (r, s')" "fin_open (cb s)"
  shows "r = OK \<and> tstate (cb s') \<in> after_fin (tstate (cb s))"
proof -
  from assms(1) obtain n u v w where u: "recv_store s = Some (n, u)" and v: "recv_fin n u = Some v"
      and w: "(if has (sndflg (cb v)) TCP_FLG_SNDDATA then do { (_, s) \<leftarrow> tcpSendData v; Some s } else Some v) = Some w"
      and s': "(if has (sndflg (cb w)) TCP_FLG_SNDACK then do { (_, s) \<leftarrow> tcpSendAck w; Some s } else Some w) = Some s'" and r: "r = OK"
    unfolding tcpRecvData_def by (elim bindE, clarify, elim bindE) simp
  have "skeleton (cb s') = skeleton (cb v)"
    using w s' by (auto simp: bind_Some_iff split: if_splits dest!: senddata_keeps ack_keeps)
  moreover have "fin_open (cb u)" "tstate (cb u) = tstate (cb s)"
    using fin_open_skeleton [OF recv_store_keeps [OF u]] recv_store_keeps [OF u] assms(2) by (auto simp: skeleton_eq)
  ultimately show ?thesis using recv_fin_states [OF v] r by (simp add: skeleton_eq)
qed

text \<open>The states that a segment leads to, other than by a reset.\<close>

fun next_states :: "tcpstate \<Rightarrow> tcpstate set" where
  "next_states TCP_LISTEN = {TCP_LISTEN, TCP_SYNRECV, TCP_CLOSEWT}"
| "next_states TCP_SYNSENT = {TCP_SYNSENT, TCP_SYNRECV, TCP_ESTAB, TCP_CLOSEWT}"
| "next_states TCP_SYNRECV = {TCP_SYNRECV, TCP_LISTEN, TCP_ESTAB, TCP_CLOSEWT}"
| "next_states TCP_ESTAB = {TCP_ESTAB, TCP_CLOSEWT}"
| "next_states TCP_FINWT1 = {TCP_FINWT1, TCP_FINWT2, TCP_CLOSING}"
| "next_states TCP_CLOSING = {TCP_CLOSING, TCP_FINWT2}"
| "next_states a = {a}"

lemma recv_listen_states:
  assumes "tcpRecvListen src s = Some (r, s')" "tstate (cb s) = TCP_LISTEN"
  shows "r = OK \<and> tstate (cb s') \<in> next_states TCP_LISTEN"
proof -
  have "cb s' = cb s \<and> r = OK \<or> (\<exists>f. cb s' = (cb s)\<lparr>sndflg := f\<rparr>) \<and> r = OK \<or>
      (\<exists>u. tcpRecvData (cbu (\<lambda>t. t\<lparr>tstate := TCP_SYNRECV\<rparr>) u) = Some (r, s'))"
    using assms unfolding tcpRecvListen_def Let_def by (auto split: if_splits elim!: bindE)
  then show ?thesis using assms(2) by (auto simp: fin_open_def after_fin_def dest!: recv_data_states)
qed

lemma recv_synsent_states:
  assumes "tcpRecvSynsent s = Some (r, s')" "tstate (cb s) = TCP_SYNSENT"
  shows "tstate (cb s') \<in> next_states TCP_SYNSENT"
proof -
  have syn: "\<exists>u. tcpRecvData u = Some (r, s') \<and> (tstate (cb u) = TCP_ESTAB \<or> tstate (cb u) = TCP_SYNRECV)"
    if "synsent_syn a s = Some (r, s')" for a
    using that unfolding synsent_syn_def Let_def
  proof (elim bindE, clarify, elim bindE)
    fix x d
    assume "(if d
      then tcpRecvData (set_sndflg TCP_FLG_SNDDATA (tsignal (openclose (cb x)) (cbu (\<lambda>t. t\<lparr>tstate := TCP_ESTAB\<rparr>) x)))
      else do {
        (_, s) \<leftarrow> tcpSend (TCP_CTRL_SYN OR TCP_CTRL_ACK) (iss (cb (cbu (\<lambda>t. t\<lparr>tstate := TCP_SYNRECV\<rparr>) x)))
          (rcvnxt (cb (cbu (\<lambda>t. t\<lparr>tstate := TCP_SYNRECV\<rparr>) x))) 0 1 (cbu (\<lambda>t. t\<lparr>tstate := TCP_SYNRECV\<rparr>) x);
        tcpRecvData s }) = Some (r, s')"
    then show ?thesis
      by (cases d) (force simp: tsignal_def skeleton_eq elim!: bindE dest: send_keeps)+
  qed
  have "cb s' = cb s \<or> (\<exists>f. cb s' = (cb s)\<lparr>sndflg := f\<rparr>) \<or> (\<exists>a. synsent_syn a s = Some (r, s'))"
    using assms(1) unfolding tcpRecvSynsent_def by (elim bindE) (auto split: if_splits elim!: bindE)
  then show ?thesis using assms(2) syn by (fastforce simp: fin_open_def after_fin_def dest!: recv_data_states)
qed

lemma seqlte_seqlt: "seqlte a b = Some False \<Longrightarrow> seqlt a b \<noteq> Some True"
  by (auto simp: seqlte_def seqlt_def bind_Some_iff)

lemma other_ack_finwt1:
  assumes "other_ack s = Some (r, s')" "tstate (cb s) = TCP_FINWT1"
  shows "fin_open (cb s') \<and> tstate (cb s') \<in> {TCP_FINWT1, TCP_FINWT2}"
proof -
  from assms obtain u b where u: "tcpRecvAck s = Some u" "seqlte (sndfin (cb u)) (snduna (cb u)) = Some b"
      "s' = (if b then cbu (\<lambda>t. t\<lparr>tstate := TCP_FINWT2\<rparr>) (tsignal (openclose (cb u)) u) else u)"
    by (auto simp: other_ack_def elim!: bindE)
  then show ?thesis using recvack_keeps [OF u(1)] assms(2) by (cases b) (auto simp: fin_open_def tsignal_def dest!: seqlte_seqlt)
qed

lemma other_ack_states:
  assumes "other_ack s = Some (r, s')" "tstate (cb s) \<notin> {TCP_CLOSED, TCP_LISTEN, TCP_SYNSENT}"
  shows "fin_open (cb s') \<and> after_fin (tstate (cb s')) \<subseteq> next_states (tstate (cb s))"
proof (cases "tstate (cb s) = TCP_FINWT1")
  case True
  then show ?thesis using other_ack_finwt1 [OF assms(1)] by (auto simp: after_fin_def)
next
  case False
  then show ?thesis using assms unfolding other_ack_def Let_def
    by (cases "tstate (cb s)")
      (auto simp: after_fin_def fin_open_def tsignal_def bind_Some_iff Let_def split: if_splits
        dest!: recvack_keeps purge_keeps sched_keeps)
qed

lemma other_rst_states:
  assumes "other_rst s = Some (r, s')" "tstate (cb s) \<notin> {TCP_CLOSED, TCP_LISTEN, TCP_SYNSENT}"
  shows "tstate (cb s') \<in> next_states (tstate (cb s)) \<and> (r = None \<longrightarrow> s' = s)"
  using assms unfolding other_rst_def Let_def
  by (cases "tstate (cb s)") (auto simp: bind_Some_iff split: if_splits dest!: purge_keeps)

lemma recv_other_states:
  assumes "tcpRecvOther s = Some (r, s')" "tstate (cb s) \<notin> {TCP_CLOSED, TCP_LISTEN, TCP_SYNSENT}"
  shows "tstate (cb s') \<in> next_states (tstate (cb s))"
proof -
  have refl: "a \<in> next_states a" for a by (cases a) simp_all
  from assms(1) obtain acc u where v: "tcpRecvValid s = Some (acc, u)" unfolding tcpRecvOther_def by (auto elim!: bindE)
  have cb: "cb u = cb s" by (rule valid_keeps [OF v])
  show ?thesis
  proof (cases acc)
    case False
    then show ?thesis using assms(1) v cb refl unfolding tcpRecvOther_def
      by (auto simp: skeleton_eq split: if_splits elim!: bindE dest!: ack_keeps)
  next
    case True
    then obtain r1 w where w: "other_rst u = Some (r1, w)"
        "(case r1 of Some v \<Rightarrow> Some (v, w) | None \<Rightarrow>
          if has (control (pkt w)) TCP_CTRL_SYN then Some (TCP_ERR_RESET, set_sndflg TCP_FLG_SNDRST w)
          else if \<not> has (control (pkt w)) TCP_CTRL_ACK then Some (OK, w)
          else do { (r, s) \<leftarrow> other_ack w; case r of Some v \<Rightarrow> Some (v, s) | None \<Rightarrow> tcpRecvData s }) = Some (r, s')"
      using assms(1) v unfolding tcpRecvOther_def by (auto elim!: bindE)
    have st: "tstate (cb w) \<in> next_states (tstate (cb s)) \<and> (r1 = None \<longrightarrow> w = u)" using other_rst_states [OF w(1)] cb assms(2) by simp
    show ?thesis
    proof (cases r1)
      case None
      have after: "a \<in> after_fin a" for a by (simp add: after_fin_def)
      show ?thesis using w(2) None st cb refl after assms(2) other_ack_states [of u]
        by (fastforce split: if_splits option.splits elim!: bindE dest: recv_data_states)
    qed (use w(2) st in simp)
  qed
qed

lemma free_states: "tcpFree s = Some (r, s') \<Longrightarrow> tstate (cb s') = TCP_CLOSED"
  by (auto simp: tcpFree_def Let_def split: if_splits elim!: bindE)

text \<open>The receive function that the state of the connection selects.\<close>

lemma dispatch_states:
  assumes "(case tstate (cb s) of TCP_LISTEN \<Rightarrow> tcpRecvListen src s | TCP_SYNSENT \<Rightarrow> tcpRecvSynsent s | TCP_CLOSED \<Rightarrow> Some (0, s)
    | _ \<Rightarrow> tcpRecvOther s) = Some (r, s')"
  shows "tstate (cb s') \<in> next_states (tstate (cb s)) \<and> (r = TCP_ERR_RESET \<longrightarrow> tstate (cb s) \<notin> {TCP_CLOSED, TCP_LISTEN})"
  using assms recv_other_states [of s r s']
  by (cases "tstate (cb s)") (auto simp: TCP_ERR_RESET_def OK_def dest: recv_listen_states recv_synsent_states)

lemma next_states_rfc793:
  assumes "b \<in> next_states a"
  shows "(a = b \<or> rfc793 a b \<or> (rfc793 OO rfc793) a b \<or> a = TCP_CLOSING \<and> b = TCP_FINWT2) \<and> (b = TCP_TIMEWT \<longrightarrow> a = TCP_TIMEWT)"
  using assms by (cases a) (auto intro: rfc793.intros relcomppI)

text \<open>
  C34. A received segment moves a connection along at most two edges of the state diagram of RFC 793,
  with one exception: \<open>CLOSING\<close> leads to \<open>FINWT2\<close> where the diagram has \<open>TIMEWT\<close>. No segment
  leads into \<open>TIMEWT\<close>: connections that close wait for the end of twice the segment lifetime in
  \<open>FINWT2\<close>.
\<close>

theorem recv_follows_rfc793:
  assumes "tcpRecv junk src s = Some (r, s')"
  shows "(tstate (cb s) = tstate (cb s') \<or> rfc793 (tstate (cb s)) (tstate (cb s')) \<or> (rfc793 OO rfc793) (tstate (cb s)) (tstate (cb s')) \<or>
      tstate (cb s) = TCP_CLOSING \<and> tstate (cb s') = TCP_FINWT2) \<and> (tstate (cb s') = TCP_TIMEWT \<longrightarrow> tstate (cb s) = TCP_TIMEWT)"
proof (cases "tstate (cb s) = TCP_CLOSED")
  case True
  then show ?thesis using assms by (auto simp: tcpRecv_def elim!: bindE dest!: rst_keeps)
next
  case False
  with assms obtain u r1 v w where u: "tcpRecvOpts s = Some u"
      and v: "(case tstate (cb u) of TCP_LISTEN \<Rightarrow> tcpRecvListen src u | TCP_SYNSENT \<Rightarrow> tcpRecvSynsent u | TCP_CLOSED \<Rightarrow> Some (0, u)
        | _ \<Rightarrow> tcpRecvOther u) = Some (r1, v)"
      and w: "(if has (sndflg (cb v)) TCP_FLG_SNDRST then do { (_, s) \<leftarrow> tcpSendRst junk v; Some s } else Some v) = Some w"
      and s': "(if r1 = TCP_ERR_RESET then tcpFree w else Some (r1, w)) = Some (r, s')"
    unfolding tcpRecv_def by (simp only: if_False) (elim bindE, clarify, elim bindE, simp)
  have eq: "tstate (cb u) = tstate (cb s)" using opts_keeps [OF u] by (simp add: skeleton_eq)
  have "cb w = cb v" using w by (auto split: if_splits elim!: bindE dest!: rst_keeps)
  then have "tstate (cb s') \<in> next_states (tstate (cb s)) \<or> tstate (cb s') = TCP_CLOSED \<and> tstate (cb s) \<notin> {TCP_CLOSED, TCP_LISTEN}"
    using dispatch_states [OF v] s' eq by (auto split: if_splits dest: free_states)
  then show ?thesis using next_states_rfc793 by (auto intro: rcv_rst)
qed

text \<open>A reset at an established connection.\<close>

definition reset_segment :: tcpst where
  "reset_segment = (receiving listener (segment_of 1003 TCP_CTRL_RST []))\<lparr>tcptimertab :=
     [\<lparr>used = True, etime = 0, remain = 0, etype = TCP_EVT_TIMEWT, etcb = 0, enext = None\<rparr>]\<rparr>"

theorem recv_follows_rfc793_witness:
  "\<exists>r s'. tcpRecv 0 zero_addr reset_segment = Some (r, s') \<and> tstate (cb s') = TCP_CLOSED \<and>
    (rfc793 TCP_ESTAB TCP_CLOSED \<or> (rfc793 OO rfc793) TCP_ESTAB TCP_CLOSED)"
proof -
  have "map_option (\<lambda>(r, s'). tstate (cb s')) (tcpRecv 0 zero_addr reset_segment) = Some TCP_CLOSED" by code_simp
  then obtain r s' where "tcpRecv 0 zero_addr reset_segment = Some (r, s')" "tstate (cb s') = TCP_CLOSED" by auto
  moreover have "tstate (cb reset_segment) = TCP_ESTAB" by (simp add: reset_segment_def tcp_demo)
  ultimately show ?thesis using recv_follows_rfc793 [of 0 zero_addr reset_segment r s'] by auto
qed

end
