(* ===== verification/Lib_Sort.thy ===== *)
theory Lib_Sort
  imports C_Prelude "HOL-Library.Multiset"
begin

text \<open>
  \<open>qsort\<close> of the C library (\<open>lib/libxc/qsort.c\<close>). The array is a list of its elements, a pointer
  to an element is its index, and \<open>compar\<close> is the comparison function of the caller. Every access
  goes through the checked \<open>aget\<close> and \<open>aset\<close>.
\<close>

section \<open>Model\<close>

definition swap_elements :: "int \<Rightarrow> int \<Rightarrow> 'a list \<Rightarrow> 'a list option" where
  "swap_elements p1 p2 xs = do {
     a \<leftarrow> aget xs p1;
     b \<leftarrow> aget xs p2;
     xs \<leftarrow> aset xs p1 b;
     aset xs p2 a }"

partial_function (option) partition_loop ::
  "('a \<Rightarrow> 'a \<Rightarrow> int) \<Rightarrow> int \<Rightarrow> int \<Rightarrow> int \<Rightarrow> int \<Rightarrow> 'a list \<Rightarrow> (int \<times> int \<times> 'a list) option" where
  "partition_loop compar base p1 p2 p1_index xs = do {
     a \<leftarrow> aget xs p1;
     pivot \<leftarrow> aget xs base;
     (p1, p2, p1_index, xs) \<leftarrow>
       (if compar a pivot \<le> 0 then Some (p1 + 1, p2, p1_index + 1, xs)
        else do { xs \<leftarrow> swap_elements p1 (p2 - 1) xs; Some (p1, p2 - 1, p1_index, xs) });
     if p1 \<noteq> p2 then partition_loop compar base p1 p2 p1_index xs else Some (p1, p1_index, xs) }"

declare partition_loop.simps [code]

definition partition_array :: "('a \<Rightarrow> 'a \<Rightarrow> int) \<Rightarrow> int \<Rightarrow> int \<Rightarrow> 'a list \<Rightarrow> (int \<times> 'a list) option" where
  "partition_array compar base nmemb xs = do {
     (p1, p1_index, xs) \<leftarrow> partition_loop compar base (base + 1) (base + nmemb) 1 xs;
     xs \<leftarrow> swap_elements (p1 - 1) base xs;
     Some (p1_index - 1, xs) }"

partial_function (option) qsort :: "('a \<Rightarrow> 'a \<Rightarrow> int) \<Rightarrow> int \<Rightarrow> int \<Rightarrow> 'a list \<Rightarrow> 'a list option" where
  "qsort compar base nmemb xs =
     (if nmemb > 1
      then do {
        (pivot_index, xs) \<leftarrow> partition_array compar base nmemb xs;
        xs \<leftarrow> qsort compar base pivot_index xs;
        qsort compar (base + (pivot_index + 1)) (nmemb - (pivot_index + 1)) xs }
      else Some xs)"

declare qsort.simps [code]

section \<open>Arrays in parts\<close>

lemma aget_mid [simp]: "i = int (length as) \<Longrightarrow> aget (as @ x # bs) i = Some x"
  by (simp add: aget_def)

lemma aset_mid [simp]: "i = int (length as) \<Longrightarrow> aset (as @ x # bs) i y = Some (as @ y # bs)"
  by (simp add: aset_def)

lemma swap_same: "i = int (length as) \<Longrightarrow> j = i \<Longrightarrow> swap_elements i j (as @ x # bs) = Some (as @ x # bs)"
  by (simp add: swap_elements_def)

lemma swap_parts:
  assumes "i = int (length as)" "j = int (length as + 1 + length bs)"
  shows "swap_elements i j (as @ x # bs @ y # cs) = Some (as @ y # bs @ x # cs)"
    and "swap_elements j i (as @ x # bs @ y # cs) = Some (as @ y # bs @ x # cs)"
proof -
  have j: "aget ((as @ z # bs) @ y # cs) j = Some y" "aset ((as @ z # bs) @ y # cs) j w = Some ((as @ z # bs) @ w # cs)" for z w
    using assms(2) by (subst aget_mid aset_mid; simp)+
  with assms(1) show "swap_elements i j (as @ x # bs @ y # cs) = Some (as @ y # bs @ x # cs)"
      "swap_elements j i (as @ x # bs @ y # cs) = Some (as @ y # bs @ x # cs)"
    by (simp_all add: swap_elements_def)
qed

section \<open>Partition\<close>

text \<open>
  The array around the pivot: elements known to go before it, elements not looked at yet, elements
  known to go behind it.
\<close>

lemma partition_loop_correct:
  assumes "us \<noteq> []" "base = int (length pre)" "p1 = base + 1 + int (length ls)" "p2 = p1 + int (length us)" "idx = 1 + int (length ls)"
    and "\<forall>x \<in> set ls. compar x p \<le> 0" "\<forall>x \<in> set hs. compar x p > 0"
  shows "\<exists>ls' hs'. partition_loop compar base p1 p2 idx (pre @ p # ls @ us @ hs @ post) =
      Some (base + 1 + int (length ls'), 1 + int (length ls'), pre @ p # ls' @ hs' @ post) \<and>
    mset (ls' @ hs') = mset (ls @ us @ hs) \<and> (\<forall>x \<in> set ls'. compar x p \<le> 0) \<and> (\<forall>x \<in> set hs'. compar x p > 0)"
  using assms
proof (induction "length us" arbitrary: us ls hs p1 p2 idx)
  case (Suc n)
  then obtain u us' where us: "us = u # us'" by (cases us) auto
  let ?xs = "pre @ p # ls @ us @ hs @ post"
  have a: "aget ?xs p1 = Some u"
    using aget_mid [of p1 "pre @ p # ls" u "us' @ hs @ post"] Suc.prems us by simp
  have b: "aget ?xs base = Some p" using Suc.prems by simp
  show ?case
  proof (cases "compar u p \<le> 0")
    case True
    have eq: "pre @ p # (ls @ [u]) @ us' @ hs @ post = ?xs" using us by simp
    have step: "partition_loop compar base p1 p2 idx ?xs =
        (if p1 + 1 \<noteq> p2 then partition_loop compar base (p1 + 1) p2 (idx + 1) ?xs else Some (p1 + 1, idx + 1, ?xs))"
      using True a b by (subst partition_loop.simps) simp
    show ?thesis
    proof (cases "us' = []")
      case True
      then have "p1 + 1 = p2" using Suc.prems us by simp
      then show ?thesis unfolding step using Suc.prems us True \<open>compar u p \<le> 0\<close>
        by (intro exI [of _ "ls @ [u]"] exI [of _ hs]) auto
    next
      case False
      then have "p1 + 1 \<noteq> p2" using Suc.prems us by auto
      moreover have "\<forall>x \<in> set (ls @ [u]). compar x p \<le> 0" using Suc.prems \<open>compar u p \<le> 0\<close> by auto
      ultimately show ?thesis
        using Suc.hyps(1) [of us' "p1 + 1" "ls @ [u]" p2 "idx + 1" hs] Suc.hyps(2) Suc.prems us False step eq by auto
    qed
  next
    case False
    then have hs: "\<forall>x \<in> set (u # hs). compar x p > 0" using Suc.prems by auto
    show ?thesis
    proof (cases us' rule: rev_cases)
      case Nil
      have "p2 - 1 = p1" using Suc.prems us Nil by simp
      then have "swap_elements p1 (p2 - 1) ?xs = Some ?xs"
        using swap_same [of p1 "pre @ p # ls" "p2 - 1" u "hs @ post"] Suc.prems us Nil by simp
      then have "partition_loop compar base p1 p2 idx ?xs = Some (p1, idx, ?xs)"
        using False a b \<open>p2 - 1 = p1\<close> by (subst partition_loop.simps) simp
      then show ?thesis using Suc.prems us Nil hs by (intro exI [of _ ls] exI [of _ "u # hs"]) auto
    next
      case (snoc us'' w)
      let ?ys = "pre @ p # ls @ (w # us'') @ (u # hs) @ post"
      have "swap_elements p1 (p2 - 1) ?xs = Some ?ys"
        using swap_parts(1) [of p1 "pre @ p # ls" "p2 - 1" us'' u w "hs @ post"] Suc.prems us snoc by simp
      moreover have "p1 \<noteq> p2 - 1" using Suc.prems us snoc by simp
      ultimately have "partition_loop compar base p1 p2 idx ?xs = partition_loop compar base p1 (p2 - 1) idx ?ys"
        using False a b by (subst partition_loop.simps) simp
      moreover have "n = length (w # us'')" "p2 - 1 = p1 + int (length (w # us''))" using Suc.hyps(2) Suc.prems us snoc by simp_all
      ultimately show ?thesis
        using Suc.hyps(1) [of "w # us''" p1 ls "p2 - 1" idx "u # hs"] Suc.prems us snoc hs by (auto simp: ac_simps)
    qed
  qed
qed simp

lemma partition_correct:
  assumes "us \<noteq> []" "base = int (length pre)" "n = 1 + int (length us)"
  shows "\<exists>ls hs. partition_array compar base n (pre @ (p # us) @ post) = Some (int (length ls), pre @ ls @ (p # hs) @ post) \<and>
    mset (ls @ hs) = mset us \<and> (\<forall>x \<in> set ls. compar x p \<le> 0) \<and> (\<forall>x \<in> set hs. compar x p > 0)"
proof -
  from partition_loop_correct [of us base pre "base + 1" "[]" "base + n" 1 compar p "[]" post] assms
  obtain ls hs where loop: "partition_loop compar base (base + 1) (base + n) 1 (pre @ p # us @ post) =
      Some (base + 1 + int (length ls), 1 + int (length ls), pre @ p # ls @ hs @ post)"
    and P: "mset (ls @ hs) = mset us" "\<forall>x \<in> set ls. compar x p \<le> 0" "\<forall>x \<in> set hs. compar x p > 0"
    by auto
  show ?thesis
  proof (cases ls rule: rev_cases)
    case Nil
    then have "swap_elements base base (pre @ p # hs @ post) = Some (pre @ p # hs @ post)" by (intro swap_same) (use assms in auto)
    with loop P Nil show ?thesis by (intro exI [of _ "[]"] exI [of _ hs]) (simp add: partition_array_def)
  next
    case (snoc ls' l)
    have "swap_elements (base + int (length ls)) base (pre @ p # ls' @ l # hs @ post) = Some (pre @ l # ls' @ p # hs @ post)"
      by (rule swap_parts(2)) (use assms snoc in auto)
    then have "partition_array compar base n (pre @ (p # us) @ post) = Some (int (length (l # ls')), pre @ (l # ls') @ (p # hs) @ post)"
      using loop snoc by (simp add: partition_array_def add.left_commute)
    with P snoc show ?thesis by (intro exI [of _ "l # ls'"] exI [of _ hs]) auto
  qed
qed

section \<open>Sorting\<close>



end
