(* ===== verification/Lib_Strings.thy ===== *)
theory Lib_Strings
  imports C_Prelude
begin

text \<open>
  The string and memory functions of the C library (\<open>lib/libxc\<close>). A pointer into an object is the
  list of the octets from there to the end of the object; reading or writing behind the end is
  undefined, the value \<open>None\<close>. Source and destination of a copy are different objects. A result
  that points into an argument is the offset from it.
\<close>

type_synonym octet = "8 word"

section \<open>Lengths and comparison\<close>

fun strlen :: "octet list \<Rightarrow> nat option" where
  "strlen [] = None"
| "strlen (c # s) = (if c \<noteq> 0 then map_option Suc (strlen s) else Some 0)"

fun strnlen :: "octet list \<Rightarrow> nat \<Rightarrow> nat option" where
  "strnlen [] maxlen = None"
| "strnlen (c # s) maxlen = (if c \<noteq> 0 \<and> 0 < maxlen then map_option Suc (strnlen s (maxlen - 1)) else Some 0)"

fun strcmp :: "octet list \<Rightarrow> octet list \<Rightarrow> int option" where
  "strcmp (a # s1) (b # s2) = (if a = b \<and> a \<noteq> 0 then strcmp s1 s2 else Some (uint a - uint b))"
| "strcmp _ _ = None"

fun strncmp :: "octet list \<Rightarrow> octet list \<Rightarrow> nat \<Rightarrow> int option" where
  "strncmp s1 s2 0 = Some 0"
| "strncmp (a # s1) (b # s2) (Suc n) = (if a = 0 \<or> a \<noteq> b then Some (uint a - uint b) else strncmp s1 s2 n)"
| "strncmp _ _ (Suc n) = None"

fun memcmp :: "octet list \<Rightarrow> octet list \<Rightarrow> nat \<Rightarrow> int option" where
  "memcmp p1 p2 0 = Some 0"
| "memcmp (a # p1) (b # p2) (Suc n) = (if a \<noteq> b then Some (uint a - uint b) else memcmp p1 p2 n)"
| "memcmp _ _ (Suc n) = None"

section \<open>Searching\<close>

text \<open>The outer option is definedness, the inner one \<open>NULL\<close>.\<close>

fun strchr :: "octet list \<Rightarrow> octet \<Rightarrow> nat option option" where
  "strchr [] ch = None"
| "strchr (c # s) ch = (if c = ch then Some (Some 0) else if c = 0 then Some None else map_option (map_option Suc) (strchr s ch))"

fun strrchr_loop :: "octet list \<Rightarrow> octet \<Rightarrow> nat \<Rightarrow> nat option \<Rightarrow> nat option option" where
  "strrchr_loop [] ch i r = None"
| "strrchr_loop (c # s) ch i r = (
     let r = (if c = ch then Some i else r) in
     if c = 0 then Some r else strrchr_loop s ch (i + 1) r)"

definition strrchr :: "octet list \<Rightarrow> octet \<Rightarrow> nat option option" where
  "strrchr s ch = strrchr_loop s ch 0 None"

fun memchr :: "octet list \<Rightarrow> octet \<Rightarrow> nat \<Rightarrow> nat option option" where
  "memchr p byte 0 = Some None"
| "memchr (a # p) byte (Suc n) = (if a = byte then Some (Some 0) else map_option (map_option Suc) (memchr p byte n))"
| "memchr [] byte (Suc n) = None"

fun strstr_loop :: "octet list \<Rightarrow> octet list \<Rightarrow> nat \<Rightarrow> nat option option" where
  "strstr_loop [] needle needle_len = None"
| "strstr_loop (c # haystack) needle needle_len =
     (if c \<noteq> 0
      then do {
        d \<leftarrow> strncmp (c # haystack) needle needle_len;
        if d = 0 then Some (Some 0) else map_option (map_option Suc) (strstr_loop haystack needle needle_len) }
      else Some None)"

definition strstr :: "octet list \<Rightarrow> octet list \<Rightarrow> nat option option" where
  "strstr haystack needle = do { needle_len \<leftarrow> strlen needle; strstr_loop haystack needle needle_len }"

section \<open>Copying\<close>

fun memcpy :: "octet list \<Rightarrow> octet list \<Rightarrow> nat \<Rightarrow> octet list option" where
  "memcpy dest src 0 = Some dest"
| "memcpy (d # dest) (a # src) (Suc n) = map_option ((#) a) (memcpy dest src n)"
| "memcpy _ _ (Suc n) = None"

fun memset :: "octet list \<Rightarrow> octet \<Rightarrow> nat \<Rightarrow> octet list option" where
  "memset p byte 0 = Some p"
| "memset (a # p) byte (Suc n) = map_option ((#) byte) (memset p byte n)"
| "memset [] byte (Suc n) = None"

definition bzero :: "octet list \<Rightarrow> nat \<Rightarrow> octet list option" where
  "bzero s n = memset s 0 n"

fun strcpy :: "octet list \<Rightarrow> octet list \<Rightarrow> octet list option" where
  "strcpy (d # dest) (a # src) = (if a \<noteq> 0 then map_option ((#) a) (strcpy dest src) else Some (0 # dest))"
| "strcpy _ _ = None"

text \<open>The first loop looks at the source before it compares with \<open>n\<close>; the second one is \<open>memset\<close> of the rest.\<close>

fun strncpy :: "octet list \<Rightarrow> octet list \<Rightarrow> nat \<Rightarrow> octet list option" where
  "strncpy dest [] n = None"
| "strncpy dest (a # src) n =
     (if a \<noteq> 0 \<and> 0 < n
      then (case dest of [] \<Rightarrow> None | d # dest' \<Rightarrow> map_option ((#) a) (strncpy dest' src (n - 1)))
      else memset dest 0 n)"

definition strlcpy :: "octet list \<Rightarrow> octet list \<Rightarrow> nat \<Rightarrow> (nat \<times> octet list) option" where
  "strlcpy dest src destsize = do {
     srclen \<leftarrow> strlen src;
     if destsize \<noteq> 0
     then do {
       let copylen = (if destsize - 1 < srclen then destsize - 1 else srclen);
       dest \<leftarrow> memcpy dest src copylen;
       dest \<leftarrow> aset dest (int copylen) 0;
       Some (srclen, dest) }
     else Some (srclen, dest) }"

fun strncat_loop :: "octet list \<Rightarrow> octet list \<Rightarrow> nat \<Rightarrow> octet list option" where
  "strncat_loop [] src n = None"
| "strncat_loop (d # dest) src 0 = Some (0 # dest)"
| "strncat_loop (d # dest) [] (Suc n) = None"
| "strncat_loop (d # dest) (a # src) (Suc n) = (if a \<noteq> 0 then map_option ((#) a) (strncat_loop dest src n) else Some (0 # dest))"

definition strncat :: "octet list \<Rightarrow> octet list \<Rightarrow> nat \<Rightarrow> octet list option" where
  "strncat dest src n = do {
     e \<leftarrow> strchr dest 0;
     case e of None \<Rightarrow> None
     | Some i \<Rightarrow> map_option ((@) (take i dest)) (strncat_loop (drop i dest) src n) }"

section \<open>Strings\<close>

text \<open>The buffers below hold the string \<open>s\<close>: its characters, none of which is NUL, then NUL.\<close>

lemma strlen_string: "0 \<notin> set s \<Longrightarrow> strlen (s @ 0 # r) = Some (length s)"
  by (induction s) auto

lemma strncmp_prefix:
  assumes "0 \<notin> set s" "0 \<notin> set t"
  shows "\<exists>d. strncmp (s @ 0 # q) (t @ 0 # r) (length t) = Some d \<and> (d = 0 \<longleftrightarrow> take (length t) s = t)"
  using assms
proof (induction t arbitrary: s)
  case (Cons b t)
  then show ?case by (cases s) (auto simp: word_uint_eq_iff)
qed simp

lemma strcmp_string:
  assumes "0 \<notin> set s" "0 \<notin> set t"
  shows "\<exists>d. strcmp (s @ 0 # q) (t @ 0 # r) = Some d \<and> (d = 0 \<longleftrightarrow> s = t) \<and> (d < 0 \<longleftrightarrow> ord_class.lexordp s t)"
  using assms
proof (induction s arbitrary: t)
  case Nil
  have "0 < uint a" if "a \<noteq> 0" for a :: octet using that by (simp add: word_uint_eq_iff order_less_le)
  with Nil show ?case by (cases t) (auto simp: word_less_def word_uint_eq_iff)
next
  case (Cons a s)
  show ?case
  proof (cases t)
    case Nil
    then show ?thesis using Cons.prems by (auto simp: word_uint_eq_iff)
  next
    case (Cons b t')
    then show ?thesis using Cons.prems Cons.IH [of t'] by (auto simp: word_less_def word_uint_eq_iff)
  qed
qed

lemma memset_zero: "n \<le> length p \<Longrightarrow> memset p byte n = Some (replicate n byte @ drop n p)"
  by (induction p byte n rule: memset.induct) auto

lemma memcpy_take: "n \<le> length dest \<Longrightarrow> n \<le> length src \<Longrightarrow> memcpy dest src n = Some (take n src @ drop n dest)"
  by (induction dest src n rule: memcpy.induct) auto

lemma strncpy_pads:
  assumes "0 \<notin> set s" "n \<le> length dest"
  shows "strncpy dest (s @ 0 # r) n = Some (take n s @ replicate (n - length s) 0 @ drop n dest)"
  using assms
proof (induction s arbitrary: dest n)
  case Nil
  then show ?case by (simp add: memset_zero)
next
  case (Cons a s)
  show ?case
  proof (cases n)
    case (Suc m)
    with Cons.prems obtain d dest' where "dest = d # dest'" by (cases dest) auto
    then show ?thesis using Cons Suc by simp
  qed simp
qed

section \<open>Properties\<close>

text \<open>\<open>needle\<close> occurs in \<open>haystack\<close> at \<open>i\<close>.\<close>

definition occurs :: "octet list \<Rightarrow> octet list \<Rightarrow> nat \<Rightarrow> bool" where
  "occurs t s i \<longleftrightarrow> i < length s \<and> take (length t) (drop i s) = t"

lemma occurs_Cons: "occurs t (a # s) i \<longleftrightarrow> (if i = 0 then take (length t) (a # s) = t else occurs t s (i - 1))"
  by (cases i) (auto simp: occurs_def)

lemma strstr_loop_first:
  assumes "0 \<notin> set s" "0 \<notin> set t"
  shows "strstr_loop (s @ 0 # q) (t @ 0 # r) (length t) = Some (if \<exists>i. occurs t s i then Some (LEAST i. occurs t s i) else None)"
  using assms
proof (induction s)
  case (Cons a s)
  obtain d where d: "strncmp ((a # s) @ 0 # q) (t @ 0 # r) (length t) = Some d" "d = 0 \<longleftrightarrow> take (length t) (a # s) = t"
    using strncmp_prefix [OF Cons.prems] by auto
  show ?case
  proof (cases "d = 0")
    case True
    then have "occurs t (a # s) 0" using d by (simp add: occurs_def)
    then have "(LEAST i. occurs t (a # s) i) = 0" "\<exists>i. occurs t (a # s) i" by (auto intro: Least_equality)
    then show ?thesis using True d Cons.prems by simp
  next
    case False
    then have shift: "occurs t (a # s) (Suc i) = occurs t s i" "\<not> occurs t (a # s) 0" for i using d(2) by (simp_all add: occurs_Cons)
    have ex: "(\<exists>i. occurs t (a # s) i) \<longleftrightarrow> (\<exists>i. occurs t s i)" using shift by (metis not0_implies_Suc)
    have "(LEAST i. occurs t (a # s) i) = Suc (LEAST i. occurs t s i)" if "occurs t s j" for j
      using Least_Suc [of "occurs t (a # s)" "Suc j"] shift that by simp
    then show ?thesis using False d Cons ex by auto
  qed
qed (simp add: occurs_def)

text \<open>
  \<open>strstr\<close> finds the first position inside the haystack at which the needle occurs, and returns
  \<open>NULL\<close> when there is none; it reads neither string behind its NUL. (An empty needle is not found
  in an empty haystack, since the loop does not run there.)
\<close>

theorem strstr_first:
  assumes "0 \<notin> set s" "0 \<notin> set t"
  shows "strstr (s @ 0 # q) (t @ 0 # r) = Some (if \<exists>i. occurs t s i then Some (LEAST i. occurs t s i) else None)"
  using strstr_loop_first [OF assms] by (simp add: strstr_def strlen_string [OF assms(2)])

theorem strstr_first_witness: "strstr ([65, 66, 65, 67] @ 0 # [9]) ([65, 67] @ 0 # []) = Some (Some 2)"
proof -
  have o: "occurs [65, 67] [65, 66, 65, 67] i \<longleftrightarrow> i = 2" for i
    by (auto simp: occurs_Cons) (auto simp: occurs_def)
  show ?thesis using strstr_first [of "[65, 66, 65, 67]" "[65, 67]" "[9]" "[]"] unfolding o by (simp add: Least_equality)
qed

text \<open>
  Copying with bounds. \<open>strlcpy\<close> always leaves a string in the destination, the longest prefix of
  the source that fits, writes nothing behind it, and returns the length of the source.
\<close>

theorem strlcpy_bounded:
  assumes "0 \<notin> set s" "0 < n" "n \<le> length dest"
  shows "\<exists>d. strlcpy dest (s @ 0 # r) n = Some (length s, take (n - 1) s @ 0 # d) \<and>
    strlen (take (n - 1) s @ 0 # d) = Some (min (n - 1) (length s)) \<and> d = drop (Suc (min (n - 1) (length s))) dest"
proof -
  let ?k = "min (n - 1) (length s)"
  have k: "(if n - 1 < length s then n - 1 else length s) = ?k" "?k < length dest" using assms by auto
  have cp: "memcpy dest (s @ 0 # r) ?k = Some (take ?k s @ drop ?k dest)" using k(2) by (subst memcpy_take) auto
  have "drop ?k dest = dest ! ?k # drop (Suc ?k) dest" using k(2) by (simp add: Cons_nth_drop_Suc)
  then have "aset (take ?k s @ drop ?k dest) (int ?k) 0 = Some (take ?k s @ 0 # drop (Suc ?k) dest)"
    using k(2) by (simp add: aset_def list_update_append)
  moreover have "take ?k s = take (n - 1) s" by (simp add: min_def)
  moreover have "0 \<notin> set (take (n - 1) s)" using assms(1) by (auto dest: in_set_takeD)
  ultimately show ?thesis
    using assms(2) k(1) cp strlen_string [OF assms(1)] strlen_string [of "take (n - 1) s"] by (simp add: strlcpy_def Let_def)
qed

theorem strlcpy_bounded_witness: "strlcpy [1, 2, 3, 4] ([65, 66, 67, 68] @ 0 # []) 3 = Some (4, [65, 66, 0, 4])"
  using strlcpy_bounded [of "[65, 66, 67, 68]" 3 "[1, 2, 3, 4]" "[]"] by simp

end
