(* ===== verification/File_System.thy ===== *)
theory File_System
  imports Lib_Strings "HOL-Library.Signed_Division"
begin

unbundle bit_operations_syntax

text \<open>
  The in-memory file system: the block store of \<open>system/bs.c\<close> and the files of \<open>system/fs.c\<close>.

  The block store, the free block mask, the block cache and the buffers of the caller are lists of
  octets; an access outside of them is undefined. Inodes are stored on the device as the octets of
  \<open>struct inode\<close>, little endian. Messages on the console are left out. The two functions that call
  \<open>memget\<close> take it as an argument that maps the size of the request to the octets which the new
  block happens to hold, or to \<open>None\<close> when the request fails; the pointer then designates no octets.
\<close>

section \<open>Types and constants\<close>

definition FILENAMELEN :: nat where "FILENAMELEN = 32"
definition INODEBLOCKS :: nat where "INODEBLOCKS = 12"
definition INODEDIRECTBLOCKS :: int where "INODEDIRECTBLOCKS = 10"
definition DIRECTORY_SIZE :: nat where "DIRECTORY_SIZE = 16"
definition MDEV_BLOCK_SIZE :: int where "MDEV_BLOCK_SIZE = 512"
definition MDEV_NUM_BLOCKS :: int where "MDEV_NUM_BLOCKS = 512"
definition DEFAULT_NUM_INODES :: int where "DEFAULT_NUM_INODES = 128"
definition INODE_TYPE_FILE :: int where "INODE_TYPE_FILE = 1"
definition O_CREAT :: int where "O_CREAT = 11"
definition O_RDONLY :: int where "O_RDONLY = 0"
definition O_WRONLY :: int where "O_WRONLY = 1"
definition O_RDWR :: int where "O_RDWR = 2"
definition SB_BLK :: int where "SB_BLK = 0"
definition BM_BLK :: int where "BM_BLK = 1"
definition NUM_FD :: nat where "NUM_FD = 16"
definition FIRST_INODE_BLOCK :: int where "FIRST_INODE_BLOCK = 2"

named_theorems fs_consts \<open>numeric values of the file system constants\<close>

lemmas [fs_consts] = FILENAMELEN_def INODEBLOCKS_def INODEDIRECTBLOCKS_def DIRECTORY_SIZE_def MDEV_BLOCK_SIZE_def
  MDEV_NUM_BLOCKS_def DEFAULT_NUM_INODES_def INODE_TYPE_FILE_def O_CREAT_def O_RDONLY_def O_WRONLY_def O_RDWR_def
  SB_BLK_def BM_BLK_def NUM_FD_def FIRST_INODE_BLOCK_def

record inode =
  in_id :: int
  in_type :: int
  in_nlink :: int
  in_device :: int
  in_size :: int
  in_blocks :: "int list"

datatype fstate = FSTATE_CLOSED | FSTATE_OPEN

text \<open>\<open>de\<close> points to an entry of the directory.\<close>

record filetable =
  ft_state :: fstate
  fileptr :: int
  ft_mode :: int
  de :: "int option"
  ft_in :: inode

record dirent =
  inode_num :: int
  de_name :: "octet list"

record fsystem =
  nblocks :: int
  blocksz :: int
  ninodes :: int
  inodes_used :: int
  freemaskbytes :: int
  freemask :: "octet list"
  numentries :: int
  root_entry :: "dirent list"

record fsst =
  fsd :: fsystem
  dev0_numblocks :: int
  dev0_blocksize :: int
  dev0_blocks :: "octet list"
  block_cache :: "octet list"
  oft :: "filetable list"
  next_open_fd :: int
  next_free_inode :: int
  next_free_data_block :: int

abbreviation fsdu :: "(fsystem \<Rightarrow> fsystem) \<Rightarrow> fsst \<Rightarrow> fsst" where
  "fsdu f s \<equiv> s\<lparr>fsd := f (fsd s)\<rparr>"

abbreviation oftu :: "int \<Rightarrow> (filetable \<Rightarrow> filetable) \<Rightarrow> fsst \<Rightarrow> fsst option" where
  "oftu i f s \<equiv> do { t \<leftarrow> aupd (oft s) i f; Some (s\<lparr>oft := t\<rparr>) }"

section \<open>Memory\<close>

text \<open>The \<open>n\<close> octets from offset \<open>i\<close> of an object on, and their replacement by \<open>memcpy\<close>.\<close>

definition peek :: "octet list \<Rightarrow> int \<Rightarrow> int \<Rightarrow> octet list option" where
  "peek m i n = (if 0 \<le> i \<and> 0 \<le> n \<and> i + n \<le> int (length m) then Some (take (nat n) (drop (nat i) m)) else None)"

definition poke :: "octet list \<Rightarrow> int \<Rightarrow> octet list \<Rightarrow> octet list option" where
  "poke m i xs = (if 0 \<le> i \<and> i + int (length xs) \<le> int (length m)
     then Some (take (nat i) m @ xs @ drop (nat i + length xs) m) else None)"

text \<open>Integers as octets.\<close>

definition put16 :: "int \<Rightarrow> octet list" where
  "put16 x = [word_of_int x, word_of_int (x div 256)]"

definition put32 :: "int \<Rightarrow> octet list" where
  "put32 x = [word_of_int x, word_of_int (x div 256), word_of_int (x div 65536), word_of_int (x div 16777216)]"

definition get16 :: "octet list \<Rightarrow> int" where
  "get16 m = sint (word_of_int (uint (m ! 0) + 256 * uint (m ! 1)) :: 16 word)"

definition get32 :: "octet list \<Rightarrow> int" where
  "get32 m = sint (word_of_int (uint (m ! 0) + 256 * uint (m ! 1) + 65536 * uint (m ! 2) + 16777216 * uint (m ! 3)) :: u32)"

definition SIZEOF_INODE :: int where "SIZEOF_INODE = 64"
definition SIZEOF_FSYSTEM :: nat where "SIZEOF_FSYSTEM = 604"

definition put_inode :: "inode \<Rightarrow> octet list" where
  "put_inode n = put32 (in_id n) @ put16 (in_type n) @ put16 (in_nlink n) @ put32 (in_device n) @ put32 (in_size n) @
     concat (map put32 (in_blocks n))"

definition get_inode :: "octet list \<Rightarrow> inode" where
  "get_inode m = \<lparr>in_id = get32 m, in_type = get16 (drop 4 m), in_nlink = get16 (drop 6 m), in_device = get32 (drop 8 m),
     in_size = get32 (drop 12 m), in_blocks = map (\<lambda>k. get32 (drop (16 + 4 * k) m)) [0..<INODEBLOCKS]\<rparr>"

section \<open>The block store\<close>

definition mkbsdev :: "(int \<Rightarrow> octet list option) \<Rightarrow> int \<Rightarrow> int \<Rightarrow> int \<Rightarrow> fsst \<Rightarrow> (int \<times> fsst) option" where
  "mkbsdev mg dev blocksize numblocks s =
     (if dev \<noteq> 0 then Some (SYSERR, s)
      else do {
        let s = s\<lparr>dev0_blocksize := (if blocksize \<noteq> 0 then blocksize else MDEV_BLOCK_SIZE)\<rparr>;
        let s = s\<lparr>dev0_numblocks := (if numblocks \<noteq> 0 then numblocks else MDEV_NUM_BLOCKS)\<rparr>;
        n \<leftarrow> c_int (dev0_numblocks s * dev0_blocksize s);
        case mg n of None \<Rightarrow> Some (SYSERR, s\<lparr>dev0_blocks := []\<rparr>) | Some m \<Rightarrow> Some (OK, s\<lparr>dev0_blocks := m\<rparr>) })"

text \<open>\<open>bread\<close> delivers the octets that it copies to the buffer.\<close>

definition bread :: "int \<Rightarrow> int \<Rightarrow> int \<Rightarrow> int \<Rightarrow> fsst \<Rightarrow> (int \<times> octet list) option" where
  "bread dev block offset len s =
     (if dev \<noteq> 0 \<or> offset \<ge> dev0_blocksize s then Some (SYSERR, [])
      else do {
        b \<leftarrow> c_int (block * dev0_blocksize s);
        xs \<leftarrow> peek (dev0_blocks s) (b + offset) len;
        Some (OK, xs) })"

definition bwrite :: "int \<Rightarrow> int \<Rightarrow> int \<Rightarrow> octet list \<Rightarrow> fsst \<Rightarrow> (int \<times> fsst) option" where
  "bwrite dev block offset buf s =
     (if dev \<noteq> 0 \<or> offset \<ge> dev0_blocksize s then Some (SYSERR, s)
      else do {
        b \<leftarrow> c_int (block * dev0_blocksize s);
        m \<leftarrow> poke (dev0_blocks s) (b + offset) buf;
        Some (OK, s\<lparr>dev0_blocks := m\<rparr>) })"

section \<open>The free block mask\<close>

definition mask_bit :: "int \<Rightarrow> octet option" where
  "mask_bit b = (if b smod 8 < 0 then None else Some (drop_bit (nat (b smod 8)) 0x80))"

definition setmaskbit :: "int \<Rightarrow> fsst \<Rightarrow> fsst option" where
  "setmaskbit b s = do {
     w \<leftarrow> mask_bit b;
     m \<leftarrow> aupd (freemask (fsd s)) (b sdiv 8) (\<lambda>x. x OR w);
     Some (fsdu (\<lambda>f. f\<lparr>freemask := m\<rparr>) s) }"

definition getmaskbit :: "int \<Rightarrow> fsst \<Rightarrow> int option" where
  "getmaskbit b s = do {
     _ \<leftarrow> mask_bit b;
     x \<leftarrow> aget (freemask (fsd s)) (b sdiv 8);
     Some (uint (drop_bit 7 (push_bit (nat (b smod 8)) x AND 0x80))) }"

definition clearmaskbit :: "int \<Rightarrow> fsst \<Rightarrow> fsst option" where
  "clearmaskbit b s = do {
     w \<leftarrow> mask_bit b;
     m \<leftarrow> aupd (freemask (fsd s)) (b sdiv 8) (\<lambda>x. x AND NOT w);
     Some (fsdu (\<lambda>f. f\<lparr>freemask := m\<rparr>) s) }"

section \<open>Inodes\<close>

text \<open>\<open>INODES_PER_BLOCK\<close>, \<open>NUM_INODE_BLOCKS\<close> and \<open>FIRST_DATA_BLOCK\<close>; the divisions are unsigned.\<close>

definition INODES_PER_BLOCK :: "fsst \<Rightarrow> u32" where
  "INODES_PER_BLOCK s = word_of_int (blocksz (fsd s)) div word_of_int SIZEOF_INODE"

definition NUM_INODE_BLOCKS :: "fsst \<Rightarrow> u32 option" where
  "NUM_INODE_BLOCKS s = do {
     _ \<leftarrow> c_guard (INODES_PER_BLOCK s \<noteq> 0);
     let n = (word_of_int (ninodes (fsd s)) :: u32);
     Some (if n mod INODES_PER_BLOCK s = 0 then n div INODES_PER_BLOCK s else n div INODES_PER_BLOCK s + 1) }"

definition FIRST_DATA_BLOCK :: "fsst \<Rightarrow> int option" where
  "FIRST_DATA_BLOCK s = do { n \<leftarrow> NUM_INODE_BLOCKS s; Some (sint (2 + n)) }"

text \<open>The block of an inode and its offset in the block.\<close>

definition inode_place :: "int \<Rightarrow> fsst \<Rightarrow> (int \<times> int) option" where
  "inode_place inode_number s = do {
     _ \<leftarrow> c_guard (INODES_PER_BLOCK s \<noteq> 0);
     let n = (word_of_int inode_number :: u32);
     bl \<leftarrow> c_int (sint (n div INODES_PER_BLOCK s) + FIRST_INODE_BLOCK);
     Some (bl, sint (n mod INODES_PER_BLOCK s) * SIZEOF_INODE) }"

text \<open>A block is copied into the block cache, which has 512 octets.\<close>

definition cache_block :: "int \<Rightarrow> fsst \<Rightarrow> fsst option" where
  "cache_block bl s = do {
     (_, xs) \<leftarrow> bread 0 bl 0 (blocksz (fsd s)) s;
     c \<leftarrow> poke (block_cache s) 0 xs;
     Some (s\<lparr>block_cache := c\<rparr>) }"

text \<open>The inode is \<open>None\<close> when the function leaves the caller's one unchanged.\<close>

definition get_inode_by_num :: "int \<Rightarrow> int \<Rightarrow> fsst \<Rightarrow> (int \<times> inode option \<times> fsst) option" where
  "get_inode_by_num dev inode_number s =
     (if dev \<noteq> 0 \<or> inode_number > ninodes (fsd s) then Some (SYSERR, None, s)
      else do {
        (bl, inode_off) \<leftarrow> inode_place inode_number s;
        s \<leftarrow> cache_block bl s;
        xs \<leftarrow> peek (block_cache s) inode_off SIZEOF_INODE;
        Some (OK, Some (get_inode xs), s) })"

definition put_inode_by_num :: "int \<Rightarrow> int \<Rightarrow> inode \<Rightarrow> fsst \<Rightarrow> (int \<times> fsst) option" where
  "put_inode_by_num dev inode_number n s =
     (if dev \<noteq> 0 \<or> inode_number > ninodes (fsd s) then Some (SYSERR, s)
      else do {
        (bl, inode_off) \<leftarrow> inode_place inode_number s;
        s \<leftarrow> cache_block bl s;
        c \<leftarrow> poke (block_cache s) inode_off (put_inode n);
        let s = s\<lparr>block_cache := c\<rparr>;
        xs \<leftarrow> peek (block_cache s) 0 (blocksz (fsd s));
        (_, s) \<leftarrow> bwrite 0 bl 0 xs s;
        Some (OK, s) })"

section \<open>Making a file system\<close>

definition blank_file :: filetable where
  "blank_file = \<lparr>ft_state = FSTATE_CLOSED, fileptr = - 1, ft_mode = 0, de = None,
     ft_in = \<lparr>in_id = - 1, in_type = INODE_TYPE_FILE, in_nlink = - 1, in_device = 0, in_size = - 1, in_blocks = replicate INODEBLOCKS (- 1)\<rparr>\<rparr>"

text \<open>
  \<open>sb\<close> is \<open>fsd\<close> as octets at the time it is written to the superblock, which is never read. The
  entries of the open file table keep their mode.
\<close>

definition mkfs :: "(int \<Rightarrow> octet list option) \<Rightarrow> octet list \<Rightarrow> int \<Rightarrow> int \<Rightarrow> fsst \<Rightarrow> (int \<times> fsst) option" where
  "mkfs mg sb dev num_inodes s =
     (if dev \<noteq> 0 then Some (SYSERR, s)
      else do {
        let s = fsdu (\<lambda>f. f\<lparr>nblocks := dev0_numblocks s, blocksz := dev0_blocksize s\<rparr>) s;
        let s = fsdu (\<lambda>f. f\<lparr>ninodes := (if num_inodes < 1 then DEFAULT_NUM_INODES else num_inodes)\<rparr>) s;
        i \<leftarrow> c_int ((nblocks (fsd s) + 7) div 8 * 8);
        let s = fsdu (\<lambda>f. f\<lparr>freemaskbytes := i sdiv 8\<rparr>) s;
        case mg (freemaskbytes (fsd s)) of
          None \<Rightarrow> Some (SYSERR, fsdu (\<lambda>f. f\<lparr>freemask := []\<rparr>) s)
        | Some m \<Rightarrow> do {
            let s = fsdu (\<lambda>f. f\<lparr>freemask := m\<rparr>) s;
            m \<leftarrow> poke (freemask (fsd s)) 0 (replicate (nat (freemaskbytes (fsd s))) 0);
            let s = fsdu (\<lambda>f. f\<lparr>freemask := m, inodes_used := 0\<rparr>) s;
            s \<leftarrow> setmaskbit SB_BLK s;
            (_, s) \<leftarrow> bwrite 0 SB_BLK 0 sb s;
            s \<leftarrow> setmaskbit BM_BLK s;
            xs \<leftarrow> peek (freemask (fsd s)) 0 (freemaskbytes (fsd s));
            (_, s) \<leftarrow> bwrite 0 BM_BLK 0 xs s;
            let s = s\<lparr>oft := map (\<lambda>f. blank_file\<lparr>ft_mode := ft_mode f\<rparr>) (oft s)\<rparr>;
            b \<leftarrow> FIRST_DATA_BLOCK s;
            Some (1, s\<lparr>next_free_data_block := b\<rparr>) } })"

definition fileblock_to_diskblock :: "int \<Rightarrow> int \<Rightarrow> fsst \<Rightarrow> int option" where
  "fileblock_to_diskblock fd fileblock s =
     (if fileblock \<ge> int INODEBLOCKS - 2 then Some SYSERR
      else do { f \<leftarrow> aget (oft s) fd; aget (in_blocks (ft_in f)) fileblock })"

section \<open>Opening\<close>

text \<open>The search for a name: the index of the entry, or \<open>DIRECTORY_SIZE\<close>.\<close>

fun find_name :: "octet list \<Rightarrow> int \<Rightarrow> dirent list \<Rightarrow> int option" where
  "find_name filename i [] = Some i"
| "find_name filename i (d # ds) = do {
     c \<leftarrow> strncmp (de_name d) filename FILENAMELEN;
     if c = 0 then Some i else find_name filename (i + 1) ds }"

text \<open>The search for a closed entry of the open file table, \<open>n\<close> more turns.\<close>

fun find_fd :: "nat \<Rightarrow> fsst \<Rightarrow> fsst option" where
  "find_fd 0 s = Some s"
| "find_fd (Suc n) s = do {
     f \<leftarrow> aget (oft s) (next_open_fd s);
     if ft_state f = FSTATE_CLOSED then Some s
     else find_fd n (s\<lparr>next_open_fd := (if next_open_fd s + 1 \<ge> int NUM_FD then 0 else next_open_fd s + 1)\<rparr>) }"

text \<open>The search for a free inode; the last inode read is left in the file table entry.\<close>

fun find_inode :: "nat \<Rightarrow> int \<Rightarrow> fsst \<Rightarrow> fsst option" where
  "find_inode 0 fd s = Some s"
| "find_inode (Suc n) fd s = do {
     (_, i, s) \<leftarrow> get_inode_by_num 0 (next_free_inode s) s;
     s \<leftarrow> (case i of None \<Rightarrow> Some s | Some i \<Rightarrow> oftu fd (\<lambda>f. f\<lparr>ft_in := i\<rparr>) s);
     f \<leftarrow> aget (oft s) fd;
     if in_id (ft_in f) < 0 \<or> in_id (ft_in f) \<ge> ninodes (fsd s) then Some s
     else find_inode n fd (s\<lparr>next_free_inode := (if next_free_inode s + 1 \<ge> ninodes (fsd s) then 0 else next_free_inode s + 1)\<rparr>) }"

text \<open>\<open>fcreate\<close> from the allocated entry of the open file table on.\<close>

definition fcreate_inode :: "int \<Rightarrow> int \<Rightarrow> fsst \<Rightarrow> (int \<times> fsst) option" where
  "fcreate_inode fd d s = do {
     s \<leftarrow> find_inode (nat (ninodes (fsd s))) fd s;
     f \<leftarrow> aget (oft s) fd;
     if \<not> (in_id (ft_in f) < 0 \<or> in_id (ft_in f) \<ge> ninodes (fsd s)) then Some (SYSERR, s)
     else do {
       s \<leftarrow> oftu fd (\<lambda>f. f\<lparr>ft_in := (ft_in f)\<lparr>in_id := next_free_inode s, in_type := INODE_TYPE_FILE, in_nlink := 0,
         in_device := 0, in_size := 0\<rparr>\<rparr>) s;
       es \<leftarrow> aupd (root_entry (fsd s)) d (inode_num_update (\<lambda>_. next_free_inode s));
       let s = fsdu (\<lambda>g. g\<lparr>root_entry := es, inodes_used := inodes_used g + 1\<rparr>) s;
       f \<leftarrow> aget (oft s) fd;
       (_, s) \<leftarrow> put_inode_by_num 0 (in_id (ft_in f)) (ft_in f) s;
       Some (fd, s) } }"

definition fcreate :: "octet list \<Rightarrow> int \<Rightarrow> fsst \<Rightarrow> (int \<times> fsst) option" where
  "fcreate filename mode s = do {
     n \<leftarrow> strlen filename;
     if n \<ge> FILENAMELEN then Some (SYSERR, s)
     else if mode \<noteq> O_CREAT then Some (SYSERR, s)
     else do {
       i \<leftarrow> find_name filename 0 (root_entry (fsd s));
       if i \<noteq> int DIRECTORY_SIZE then Some (SYSERR, s)
       else do {
         let d = numentries (fsd s);
         e \<leftarrow> aget (root_entry (fsd s)) d;
         nm \<leftarrow> strncpy (de_name e) filename (FILENAMELEN - 1);
         nm \<leftarrow> aset nm (int FILENAMELEN - 1) 0;
         es \<leftarrow> aset (root_entry (fsd s)) d (e\<lparr>de_name := nm, inode_num := - 1\<rparr>);
         let s = fsdu (\<lambda>g. g\<lparr>numentries := numentries g + 1, root_entry := es\<rparr>) s;
         s \<leftarrow> find_fd NUM_FD s;
         f \<leftarrow> aget (oft s) (next_open_fd s);
         if ft_state f \<noteq> FSTATE_CLOSED then Some (SYSERR, s)
         else do {
           s \<leftarrow> oftu (next_open_fd s) (\<lambda>f. f\<lparr>ft_state := FSTATE_OPEN, ft_mode := O_RDWR, fileptr := 0, de := Some d\<rparr>) s;
           fcreate_inode (next_open_fd s) d s } } } }"

definition fopen :: "octet list \<Rightarrow> int \<Rightarrow> fsst \<Rightarrow> (int \<times> fsst) option" where
  "fopen filename flags s = do {
     i \<leftarrow> find_name filename 0 (root_entry (fsd s));
     if i = int DIRECTORY_SIZE then Some (SYSERR, s)
     else do {
       s \<leftarrow> find_fd NUM_FD s;
       f \<leftarrow> aget (oft s) (next_open_fd s);
       if ft_state f \<noteq> FSTATE_CLOSED then Some (SYSERR, s)
       else do {
         let fd = next_open_fd s;
         s \<leftarrow> oftu fd (\<lambda>f. f\<lparr>ft_state := FSTATE_OPEN, ft_mode := flags, fileptr := 0, de := Some i\<rparr>) s;
         e \<leftarrow> aget (root_entry (fsd s)) i;
         (_, n, s) \<leftarrow> get_inode_by_num 0 (inode_num e) s;
         s \<leftarrow> (case n of None \<Rightarrow> Some s | Some n \<Rightarrow> oftu fd (\<lambda>f. f\<lparr>ft_in := n\<rparr>) s);
         Some (fd, s) } } }"

definition fclose :: "int \<Rightarrow> fsst \<Rightarrow> (int \<times> fsst) option" where
  "fclose fd s = do {
     f \<leftarrow> aget (oft s) fd;
     if ft_state f \<noteq> FSTATE_OPEN then Some (SYSERR, s)
     else do { s \<leftarrow> oftu fd (\<lambda>f. f\<lparr>ft_state := FSTATE_CLOSED\<rparr>) s; Some (OK, s) } }"

definition fseek :: "int \<Rightarrow> int \<Rightarrow> fsst \<Rightarrow> (int \<times> fsst) option" where
  "fseek fd offset s = do {
     f \<leftarrow> aget (oft s) fd;
     if ft_state f \<noteq> FSTATE_OPEN then Some (SYSERR, s)
     else do {
       p \<leftarrow> c_int (offset + fileptr f);
       if p < 0 \<or> p \<ge> MDEV_BLOCK_SIZE * INODEDIRECTBLOCKS \<or> p \<ge> in_size (ft_in f) then Some (SYSERR, s)
       else do { s \<leftarrow> oftu fd (\<lambda>f. f\<lparr>fileptr := p\<rparr>) s; Some (OK, s) } } }"

section \<open>Writing and reading\<close>

text \<open>The search for a free data block, \<open>n\<close> more turns; \<open>m\<close> is the last bit read.\<close>

fun find_block :: "nat \<Rightarrow> int option \<Rightarrow> fsst \<Rightarrow> (int option \<times> fsst) option" where
  "find_block 0 m s = Some (m, s)"
| "find_block (Suc n) m s = do {
     m \<leftarrow> getmaskbit (next_free_data_block s) s;
     if m = 0 then Some (Some m, s)
     else do {
       first \<leftarrow> FIRST_DATA_BLOCK s;
       find_block n (Some m) (s\<lparr>next_free_data_block :=
         (if next_free_data_block s + 1 \<ge> MDEV_NUM_BLOCKS then first else next_free_data_block s + 1)\<rparr>) } }"

text \<open>A data block is allocated; \<open>False\<close> when the device is full. Without any turn the bit is uninitialised.\<close>

definition alloc_block :: "fsst \<Rightarrow> (bool \<times> fsst) option" where
  "alloc_block s = do {
     first \<leftarrow> FIRST_DATA_BLOCK s;
     (m, s) \<leftarrow> find_block (nat (nblocks (fsd s) - first)) None s;
     m \<leftarrow> m;
     if m \<noteq> 0 then Some (False, s)
     else do {
       s \<leftarrow> setmaskbit (next_free_data_block s) s;
       s \<leftarrow> setmaskbit BM_BLK s;
       xs \<leftarrow> peek (freemask (fsd s)) 0 (freemaskbytes (fsd s));
       (_, s) \<leftarrow> bwrite 0 BM_BLK 0 xs s;
       Some (True, s) } }"

text \<open>\<open>len\<close> octets of the buffer from \<open>done\<close> on are written to a block and the file pointer moves on.\<close>

definition write_part :: "int \<Rightarrow> octet list \<Rightarrow> int \<Rightarrow> int \<Rightarrow> int \<Rightarrow> int \<Rightarrow> fsst \<Rightarrow> (int \<times> fsst) option" where
  "write_part fd buf dne block offset len s = do {
     xs \<leftarrow> peek buf dne len;
     (r, s) \<leftarrow> bwrite 0 block offset xs s;
     if r \<noteq> OK then Some (SYSERR, s)
     else do { s \<leftarrow> oftu fd (\<lambda>f. f\<lparr>fileptr := fileptr f + len\<rparr>) s; Some (OK, s) } }"

partial_function (option) fwrite_loop :: "int \<Rightarrow> octet list \<Rightarrow> int \<Rightarrow> int \<Rightarrow> fsst \<Rightarrow> (int \<times> fsst) option" where
  "fwrite_loop fd buf dne nbytes s =
     (if nbytes > 0
      then do {
        (found, s) \<leftarrow> alloc_block s;
        if \<not> found then Some (SYSERR, s)
        else do {
          f \<leftarrow> aget (oft s) fd;
          bs \<leftarrow> aset (in_blocks (ft_in f)) (fileptr f sdiv MDEV_BLOCK_SIZE) (next_free_data_block s);
          s \<leftarrow> oftu fd (\<lambda>f. f\<lparr>ft_in := (ft_in f)\<lparr>in_blocks := bs\<rparr>\<rparr>) s;
          let len = (if nbytes < MDEV_BLOCK_SIZE then nbytes else MDEV_BLOCK_SIZE);
          (r, s) \<leftarrow> write_part fd buf dne (next_free_data_block s) 0 len s;
          if r \<noteq> OK then Some (SYSERR, s)
          else fwrite_loop fd buf (dne + len) (nbytes - len) s } }
      else Some (OK, s))"

declare fwrite_loop.simps [code]

definition fwrite :: "int \<Rightarrow> octet list \<Rightarrow> int \<Rightarrow> fsst \<Rightarrow> (int \<times> fsst) option" where
  "fwrite fd buf nbytes s = do {
     f \<leftarrow> aget (oft s) fd;
     if ft_state f \<noteq> FSTATE_OPEN then Some (SYSERR, s)
     else if ft_mode f \<noteq> O_WRONLY \<and> ft_mode f \<noteq> O_RDWR then Some (SYSERR, s)
     else if nbytes \<le> 0 then Some (SYSERR, s)
     else do {
       e \<leftarrow> c_int (nbytes + fileptr f);
       if e \<ge> MDEV_BLOCK_SIZE * INODEDIRECTBLOCKS then Some (SYSERR, s)
       else do {
         let add_eof = (e > in_size (ft_in f));
         block \<leftarrow> aget (in_blocks (ft_in f)) (fileptr f sdiv MDEV_BLOCK_SIZE);
         let offset = fileptr f smod MDEV_BLOCK_SIZE;
         let len = (if nbytes < MDEV_BLOCK_SIZE - offset then nbytes else MDEV_BLOCK_SIZE - offset);
         (r, s) \<leftarrow> write_part fd buf 0 block offset len s;
         if r \<noteq> OK then Some (SYSERR, s)
         else do {
           (r, s) \<leftarrow> fwrite_loop fd buf len (nbytes - len) s;
           if r \<noteq> OK then Some (SYSERR, s)
           else do {
             s \<leftarrow> (if add_eof then oftu fd (\<lambda>f. f\<lparr>ft_in := (ft_in f)\<lparr>in_size := fileptr f\<rparr>\<rparr>) s else Some s);
             f \<leftarrow> aget (oft s) fd;
             (_, s) \<leftarrow> put_inode_by_num 0 (in_id (ft_in f)) (ft_in f) s;
             Some (nbytes, s) } } } } }"

text \<open>The octets of a part of a block; \<open>fread\<close> collects them in the buffer of the caller.\<close>

definition read_part :: "int \<Rightarrow> int \<Rightarrow> int \<Rightarrow> int \<Rightarrow> fsst \<Rightarrow> (int \<times> octet list \<times> fsst) option" where
  "read_part fd block offset len s = do {
     (r, xs) \<leftarrow> bread 0 block offset len s;
     if r \<noteq> OK then Some (SYSERR, [], s)
     else do { s \<leftarrow> oftu fd (\<lambda>f. f\<lparr>fileptr := fileptr f + len\<rparr>) s; Some (OK, xs, s) } }"

partial_function (option) fread_loop :: "int \<Rightarrow> octet list \<Rightarrow> int \<Rightarrow> fsst \<Rightarrow> (int \<times> octet list \<times> fsst) option" where
  "fread_loop fd buf nbytes s =
     (if nbytes > 0
      then do {
        f \<leftarrow> aget (oft s) fd;
        block \<leftarrow> aget (in_blocks (ft_in f)) (fileptr f sdiv MDEV_BLOCK_SIZE);
        let len = (if nbytes < MDEV_BLOCK_SIZE then nbytes else MDEV_BLOCK_SIZE);
        if block = - 1 then Some (OK, buf, s)
        else do {
          (r, xs, s) \<leftarrow> read_part fd block 0 len s;
          if r \<noteq> OK then Some (SYSERR, buf, s)
          else fread_loop fd (buf @ xs) (nbytes - len) s } }
      else Some (OK, buf, s))"

declare fread_loop.simps [code]

text \<open>The result of \<open>fread\<close> and the octets that it has put into the buffer.\<close>

definition fread :: "int \<Rightarrow> int \<Rightarrow> fsst \<Rightarrow> (int \<times> octet list \<times> fsst) option" where
  "fread fd nbytes s = do {
     f \<leftarrow> aget (oft s) fd;
     if ft_state f \<noteq> FSTATE_OPEN then Some (SYSERR, [], s)
     else if ft_mode f \<noteq> O_RDONLY \<and> ft_mode f \<noteq> O_RDWR then Some (SYSERR, [], s)
     else if nbytes \<le> 0 then Some (SYSERR, [], s)
     else do {
       e \<leftarrow> c_int (nbytes + fileptr f);
       let num_bytes_read = nbytes;
       nbytes \<leftarrow> (if e > in_size (ft_in f) then c_int (in_size (ft_in f) - fileptr f) else Some nbytes);
       e \<leftarrow> c_int (nbytes + fileptr f);
       if e \<ge> MDEV_BLOCK_SIZE * INODEDIRECTBLOCKS then Some (SYSERR, [], s)
       else do {
         block \<leftarrow> aget (in_blocks (ft_in f)) (fileptr f sdiv MDEV_BLOCK_SIZE);
         let offset = fileptr f smod MDEV_BLOCK_SIZE;
         let len = (if nbytes < MDEV_BLOCK_SIZE - offset then nbytes else MDEV_BLOCK_SIZE - offset);
         (r, xs, s) \<leftarrow> read_part fd block offset len s;
         if r \<noteq> OK then Some (SYSERR, [], s)
         else do {
           (r, xs, s) \<leftarrow> fread_loop fd xs (nbytes - len) s;
           if r \<noteq> OK then Some (SYSERR, xs, s) else Some (num_bytes_read, xs, s) } } } }"

end
