(* ===== verification/File_Blocks.thy ===== *)
theory File_Blocks
  imports File_System
begin

unbundle bit_operations_syntax

text \<open>
  What the file system relies on: memory that is read back as it was written, the free block mask
  as a set of blocks, and blocks that do not overlap.
\<close>

section \<open>Memory\<close>

lemma length_poke: "poke m i xs = Some m' \<Longrightarrow> length m' = length m"
  by (auto simp: poke_def split: if_splits)

lemma poke_nth:
  assumes "poke m i xs = Some m'" "j < length m"
  shows "m' ! j = (if i \<le> int j \<and> int j < i + int (length xs) then xs ! (j - nat i) else m ! j)"
proof -
  have i: "0 \<le> i" "i + int (length xs) \<le> int (length m)" and m': "m' = take (nat i) m @ xs @ drop (nat i + length xs) m"
    using assms(1) by (auto simp: poke_def split: if_splits)
  consider "j < nat i" | "nat i \<le> j" "j < nat i + length xs" | "nat i + length xs \<le> j" by linarith
  then show ?thesis
    using i assms(2) unfolding m' by cases (auto simp: nth_append)
qed

lemma peek_nth: "peek m i n = Some xs \<Longrightarrow> k < nat n \<Longrightarrow> xs ! k = m ! (nat i + k)"
  by (auto simp: peek_def split: if_splits)

lemma length_peek: "peek m i n = Some xs \<Longrightarrow> length xs = nat n"
  by (auto simp: peek_def split: if_splits)

lemma poke_Some: "0 \<le> i \<Longrightarrow> i + int (length xs) \<le> int (length m) \<Longrightarrow> \<exists>m'. poke m i xs = Some m'"
  by (simp add: poke_def)

lemma peek_Some: "0 \<le> i \<Longrightarrow> 0 \<le> n \<Longrightarrow> i + n \<le> int (length m) \<Longrightarrow> \<exists>xs. peek m i n = Some xs"
  by (simp add: peek_def)

section \<open>The mask\<close>

text \<open>A block is marked as used.\<close>

definition used_block :: "fsst \<Rightarrow> int \<Rightarrow> bool" where
  "used_block s b \<longleftrightarrow> bit (freemask (fsd s) ! nat (b div 8)) (7 - nat (b mod 8))"

lemma sdiv_pos [simp]: "0 \<le> a \<Longrightarrow> 0 \<le> b \<Longrightarrow> a sdiv b = a div b" for a b :: int
  by (cases "a = 0"; cases "b = 0") (auto simp: signed_divide_int_def)

lemma smod_pos [simp]: "0 \<le> a \<Longrightarrow> 0 \<le> b \<Longrightarrow> a smod b = a mod b" for a b :: int
  by (cases "a = 0") (simp_all add: signed_modulo_int_def minus_mult_div_eq_mod)

lemma bit_80: "bit (0x80 :: octet) n \<longleftrightarrow> n = 7"
proof (cases "n < 8")
  case True
  then have "n \<in> {0, 1, 2, 3, 4, 5, 6, 7}" by auto
  then show ?thesis by auto
qed (auto dest: bit_imp_le_length)

lemma mask_read: "k < 8 \<Longrightarrow> uint (drop_bit 7 (push_bit k x AND 0x80)) = of_bool (bit (x :: octet) (7 - k))"
proof -
  assume k: "k < 8"
  have "drop_bit 7 (push_bit k x AND 0x80) = (of_bool (bit x (7 - k)) :: octet)"
    by (rule bit_word_eqI) (use k in \<open>auto simp: bit_simps bit_80\<close>)
  then show ?thesis by simp
qed

lemma mask_bit_at: "k < 8 \<Longrightarrow> bit (drop_bit k (0x80 :: octet)) n \<longleftrightarrow> n = 7 - k"
  unfolding bit_drop_bit_eq o_def bit_80 by arith

lemma getmaskbit_used:
  assumes "0 \<le> b" "b div 8 < int (length (freemask (fsd s)))"
  shows "getmaskbit b s = Some (of_bool (used_block s b))"
  using assms by (auto simp: getmaskbit_def mask_bit_def used_block_def aget_def mask_read nat_less_iff simp del: push_bit_and drop_bit_and)

lemma setmaskbit_used:
  assumes "0 \<le> b" "b div 8 < int (length (freemask (fsd s)))"
  shows "\<exists>m. setmaskbit b s = Some (fsdu (\<lambda>f. f\<lparr>freemask := m\<rparr>) s) \<and> length m = length (freemask (fsd s)) \<and>
    (\<forall>c. 0 \<le> c \<and> c div 8 < int (length (freemask (fsd s))) \<longrightarrow>
      used_block (fsdu (\<lambda>f. f\<lparr>freemask := m\<rparr>) s) c = (used_block s c \<or> c = b))"
proof -
  let ?m = "freemask (fsd s)"
  let ?u = "?m[nat (b div 8) := (?m ! nat (b div 8)) OR drop_bit (nat (b mod 8)) 0x80]"
  have k: "nat (b mod 8) < 8" by (simp add: nat_less_iff)
  have "setmaskbit b s = Some (fsdu (\<lambda>f. f\<lparr>freemask := ?u\<rparr>) s)"
    using assms pos_imp_zdiv_nonneg_iff [of 8 b] pos_mod_sign [of 8 b] by (simp add: setmaskbit_def mask_bit_def aupd_def)
  moreover have "used_block (fsdu (\<lambda>f. f\<lparr>freemask := ?u\<rparr>) s) c = (used_block s c \<or> c = b)"
    if c: "0 \<le> c" "c div 8 < int (length ?m)" for c
  proof (cases "c div 8 = b div 8")
    case False
    then have "nat (c div 8) \<noteq> nat (b div 8)" using c(1) assms(1) by (simp add: nat_eq_iff2 pos_imp_zdiv_nonneg_iff)
    then show ?thesis using False by (auto simp: used_block_def)
  next
    case True
    have "nat (c mod 8) < 8" by (simp add: nat_less_iff)
    then have "7 - nat (c mod 8) = 7 - nat (b mod 8) \<longleftrightarrow> nat (c mod 8) = nat (b mod 8)" using k by arith
    also have "\<dots> \<longleftrightarrow> c mod 8 = b mod 8" by (simp add: eq_nat_nat_iff)
    finally have "7 - nat (c mod 8) = 7 - nat (b mod 8) \<longleftrightarrow> c mod 8 = b mod 8" .
    moreover have "c = b \<longleftrightarrow> c mod 8 = b mod 8" using True by (metis div_mult_mod_eq)
    moreover have "nat (b div 8) < length ?m" using assms by linarith
    ultimately show ?thesis using True k by (auto simp: used_block_def bit_or_iff mask_bit_at)
  qed
  ultimately show ?thesis by auto
qed

section \<open>Blocks\<close>

text \<open>
  A file system on a device of \<open>MDEV_NUM_BLOCKS\<close> blocks of \<open>MDEV_BLOCK_SIZE\<close> octets, as \<open>mkbsdev\<close>
  makes it by default. Its data blocks begin behind the blocks of the inodes.
\<close>

definition first_data :: "fsst \<Rightarrow> int" where
  "first_data s = 2 + (ninodes (fsd s) + 7) div 8"

definition fs_ok :: "fsst \<Rightarrow> bool" where
  "fs_ok s \<longleftrightarrow> blocksz (fsd s) = 512 \<and> dev0_blocksize s = 512 \<and> nblocks (fsd s) = 512 \<and> length (dev0_blocks s) = 262144 \<and>
     length (block_cache s) = 512 \<and> 1 \<le> ninodes (fsd s) \<and> first_data s < 512 \<and> freemaskbytes (fsd s) = 64 \<and>
     length (freemask (fsd s)) = 64 \<and> length (oft s) = NUM_FD \<and> first_data s \<le> next_free_data_block s \<and> next_free_data_block s < 512"

text \<open>Octet \<open>k\<close> of block \<open>b\<close>.\<close>

definition oct :: "fsst \<Rightarrow> int \<Rightarrow> int \<Rightarrow> octet" where
  "oct s b k = dev0_blocks s ! nat (512 * b + k)"

lemma bread_oct:
  assumes "dev0_blocksize s = 512" "length (dev0_blocks s) = 262144" "0 \<le> b" "b < 512" "0 \<le> i" "i < 512" "0 \<le> n" "i + n \<le> 512"
  shows "bread 0 b i n s = Some (OK, map (\<lambda>k. oct s b (i + int k)) [0..<nat n])"
proof -
  have "b * 512 + i + n \<le> 262144" using assms by linarith
  then obtain xs where xs: "peek (dev0_blocks s) (b * 512 + i) n = Some xs" using assms peek_Some [of "b * 512 + i" n "dev0_blocks s"] by auto
  have "xs = map (\<lambda>k. oct s b (i + int k)) [0..<nat n]"
  proof (rule nth_equalityI)
    fix k assume "k < length xs"
    then have k: "k < nat n" using length_peek [OF xs] by simp
    have "nat (b * 512 + i) + k = nat (512 * b + (i + int k))" using assms by linarith
    then show "xs ! k = map (\<lambda>k. oct s b (i + int k)) [0..<nat n] ! k" using peek_nth [OF xs k] k by (simp add: oct_def)
  qed (simp add: length_peek [OF xs])
  then show ?thesis using xs assms by (simp add: bread_def c_int_def INT_MAX_def INT_MIN_def)
qed

lemma bwrite_oct:
  assumes "dev0_blocksize s = 512" "length (dev0_blocks s) = 262144" "0 \<le> b" "b < 512" "0 \<le> i" "i < 512" "i + int (length xs) \<le> 512"
  shows "\<exists>m. bwrite 0 b i xs s = Some (OK, s\<lparr>dev0_blocks := m\<rparr>) \<and> length m = 262144 \<and>
    (\<forall>c k. 0 \<le> c \<and> c < 512 \<and> 0 \<le> k \<and> k < 512 \<longrightarrow> oct (s\<lparr>dev0_blocks := m\<rparr>) c k =
      (if c = b \<and> i \<le> k \<and> k < i + int (length xs) then xs ! nat (k - i) else oct s c k))"
proof -
  have "b * 512 + i + int (length xs) \<le> 262144" using assms by linarith
  then obtain m where m: "poke (dev0_blocks s) (b * 512 + i) xs = Some m" using assms poke_Some [of "b * 512 + i" xs "dev0_blocks s"] by auto
  have "oct (s\<lparr>dev0_blocks := m\<rparr>) c k = (if c = b \<and> i \<le> k \<and> k < i + int (length xs) then xs ! nat (k - i) else oct s c k)"
    if c: "0 \<le> c" "c < 512" "0 \<le> k" "k < 512" for c k
  proof -
    have j: "nat (512 * c + k) < length (dev0_blocks s)" "int (nat (512 * c + k)) = 512 * c + k" using c assms(2) by linarith+
    have "b * 512 + i \<le> 512 * c + k \<and> 512 * c + k < b * 512 + i + int (length xs) \<longleftrightarrow> c = b \<and> i \<le> k \<and> k < i + int (length xs)"
    proof (cases "c = b")
      case False
      then have "c + 1 \<le> b \<or> b + 1 \<le> c" by linarith
      then show ?thesis using c assms(5-7) False by linarith
    qed auto
    moreover have "nat (512 * b + k) - nat (b * 512 + i) = nat (k - i)" if "i \<le> k" using that assms by linarith
    ultimately show ?thesis using poke_nth [OF m j(1)] j(2) by (auto simp: oct_def)
  qed
  then show ?thesis using m assms length_poke [OF m] by (auto simp: bwrite_def c_int_def INT_MAX_def INT_MIN_def)
qed

section \<open>The blocks of the inodes\<close>

lemma uint_small: "0 \<le> x \<Longrightarrow> x < 2147483648 \<Longrightarrow> uint (word_of_int x :: u32) = x"
  by (simp add: uint_word_of_int)

lemma sint_of_small: "uint (w :: u32) < 2147483648 \<Longrightarrow> sint w = uint w"
proof -
  assume "uint w < 2147483648"
  moreover have "unat w = nat (uint w)" by simp
  ultimately have "unat w < 2147483648" by linarith
  then show ?thesis using sint_small [of w] by simp
qed

lemma fs_okD:
  assumes "fs_ok s"
  shows "blocksz (fsd s) = 512" "dev0_blocksize s = 512" "nblocks (fsd s) = 512" "length (dev0_blocks s) = 262144" "length (block_cache s) = 512"
    "1 \<le> ninodes (fsd s)" "first_data s < 512" "freemaskbytes (fsd s) = 64" "length (freemask (fsd s)) = 64" "length (oft s) = 16"
    "first_data s \<le> next_free_data_block s" "next_free_data_block s < 512" "ninodes (fsd s) < 4080" "3 \<le> first_data s"
  using assms by (auto simp: fs_ok_def first_data_def NUM_FD_def)

lemma inodes_per_block: "fs_ok s \<Longrightarrow> INODES_PER_BLOCK s = 8"
  by (simp add: INODES_PER_BLOCK_def fs_okD SIZEOF_INODE_def)

lemma first_data_block:
  assumes "fs_ok s"
  shows "FIRST_DATA_BLOCK s = Some (first_data s)"
proof -
  let ?n = "ninodes (fsd s)" and ?w = "word_of_int (ninodes (fsd s)) :: u32"
  have n: "1 \<le> ?n" "?n < 4080" using fs_okD [OF assms] by auto
  have u: "uint ?w = ?n" using n by (intro uint_small) auto
  then have d: "uint (?w div 8) = ?n div 8" "uint (?w mod 8) = ?n mod 8" by (simp_all add: uint_div uint_mod)
  have q: "uint (2 + ?w div 8) = 2 + ?n div 8" "uint (2 + (?w div 8 + 1)) = 3 + ?n div 8"
    using d n by (simp_all add: uint_word_ariths)
  have z: "?w mod 8 = 0 \<longleftrightarrow> ?n mod 8 = 0" using d by (simp add: word_uint_eq_iff)
  have "first_data s = (if ?n mod 8 = 0 then 2 + ?n div 8 else 3 + ?n div 8)" unfolding first_data_def by presburger
  moreover have "sint (2 + ?w div 8) = 2 + ?n div 8" "sint (2 + (?w div 8 + 1)) = 3 + ?n div 8"
    using q n by (subst sint_of_small; simp)+
  ultimately show ?thesis using z assms
    by (simp add: FIRST_DATA_BLOCK_def NUM_INODE_BLOCKS_def inodes_per_block)
qed

lemma inode_place_eq:
  assumes "fs_ok s" "0 \<le> n" "n < ninodes (fsd s)"
  shows "inode_place n s = Some (n div 8 + 2, (n mod 8) * 64)" "n div 8 + 2 < first_data s"
proof -
  have n: "n < 4080" using fs_okD(13) [OF assms(1)] assms(3) by simp
  have u: "uint (word_of_int n :: u32) = n" using n assms(2) by (intro uint_small) auto
  have d: "uint ((word_of_int n :: u32) div 8) = n div 8" "uint ((word_of_int n :: u32) mod 8) = n mod 8" using u by (simp_all add: uint_div uint_mod)
  then have "sint ((word_of_int n :: u32) div 8) = n div 8" "sint ((word_of_int n :: u32) mod 8) = n mod 8"
    using n by (subst sint_of_small; simp)+
  moreover have "c_int (n div 8 + 2) = Some (n div 8 + 2)" using n assms(2) by (simp add: c_int_def INT_MAX_def INT_MIN_def)
  ultimately show "inode_place n s = Some (n div 8 + 2, (n mod 8) * 64)"
    using assms(1) by (simp add: inode_place_def inodes_per_block FIRST_INODE_BLOCK_def SIZEOF_INODE_def)
  show "n div 8 + 2 < first_data s" using assms(3) unfolding first_data_def by presburger
qed

lemma length_put_inode: "length (in_blocks i) = 12 \<Longrightarrow> length (put_inode i) = 64"
proof -
  have "length (concat (map put32 xs)) = 4 * length xs" for xs by (induction xs) (auto simp: put32_def)
  then show "length (in_blocks i) = 12 \<Longrightarrow> length (put_inode i) = 64" by (simp add: put_inode_def put32_def put16_def)
qed

text \<open>Writing an inode changes its 64 octets on the device and nothing else.\<close>

lemma put_inode_oct:
  assumes ok: "fs_ok s" and n: "0 \<le> n" "n < ninodes (fsd s)" and i: "length (in_blocks i) = 12"
  shows "\<exists>m c. put_inode_by_num 0 n i s = Some (OK, s\<lparr>block_cache := c, dev0_blocks := m\<rparr>) \<and>
    length m = 262144 \<and> length c = 512 \<and>
    (\<forall>b k. 0 \<le> b \<and> b < 512 \<and> 0 \<le> k \<and> k < 512 \<longrightarrow> oct (s\<lparr>block_cache := c, dev0_blocks := m\<rparr>) b k =
      (if b = n div 8 + 2 \<and> n mod 8 * 64 \<le> k \<and> k < n mod 8 * 64 + 64 then put_inode i ! nat (k - n mod 8 * 64) else oct s b k))"
proof -
  let ?b = "n div 8 + 2" and ?o = "n mod 8 * 64"
  note D = fs_okD [OF ok]
  have b: "0 \<le> ?b" "?b < 512" "0 \<le> ?o" "?o + 64 \<le> 512"
    using n(1) inode_place_eq(2) [OF ok n] D(7) pos_mod_bound [of 8 n] pos_imp_zdiv_nonneg_iff [of 8 n] by auto
  define xs where "xs = map (\<lambda>k. oct s ?b (0 + int k)) [0..<nat 512]"
  have rd: "bread 0 ?b 0 512 s = Some (OK, xs)" unfolding xs_def using D b by (intro bread_oct) auto
  have c0: "poke (block_cache s) 0 xs = Some xs" using D(5) by (simp add: poke_def xs_def)
  obtain c where c: "poke xs ?o (put_inode i) = Some c" using poke_Some [of ?o "put_inode i" xs] b length_put_inode [OF i] by (auto simp: xs_def)
  have lc: "length c = 512" using length_poke [OF c] by (simp add: xs_def)
  have pk: "peek c 0 512 = Some c" using lc by (simp add: peek_def)
  let ?s = "s\<lparr>block_cache := c\<rparr>"
  have oc: "oct ?s b k = oct s b k" for b k by (simp add: oct_def)
  obtain m where m: "bwrite 0 ?b 0 c ?s = Some (OK, ?s\<lparr>dev0_blocks := m\<rparr>)" "length m = 262144"
      "\<forall>d k. 0 \<le> d \<and> d < 512 \<and> 0 \<le> k \<and> k < 512 \<longrightarrow> oct (?s\<lparr>dev0_blocks := m\<rparr>) d k =
        (if d = ?b \<and> 0 \<le> k \<and> k < 0 + int (length c) then c ! nat (k - 0) else oct ?s d k)"
    using bwrite_oct [of ?s ?b 0 c] D b lc by auto
  have "put_inode_by_num 0 n i s = Some (OK, ?s\<lparr>dev0_blocks := m\<rparr>)"
    using n inode_place_eq(1) [OF ok n] D rd c0 c pk m(1) by (simp add: put_inode_by_num_def cache_block_def)
  moreover have "c ! nat k = (if ?o \<le> k \<and> k < ?o + 64 then put_inode i ! nat (k - ?o) else oct s ?b k)" if "0 \<le> k" "k < 512" for k
    using poke_nth [OF c, of "nat k"] that b length_put_inode [OF i] by (auto simp: xs_def nat_diff_distrib)
  ultimately show ?thesis using m(2,3) lc oc by (intro exI [of _ m] exI [of _ c]) auto
qed

section \<open>A file system\<close>

text \<open>
  A file system as the calls leave it: two files are open, each with one data block; the first one
  is at position 508.
\<close>

definition demo_inode :: "int \<Rightarrow> int \<Rightarrow> inode" where
  "demo_inode i b = \<lparr>in_id = i, in_type = INODE_TYPE_FILE, in_nlink = 0, in_device = 0, in_size = 508, in_blocks = b # replicate 11 (- 1)\<rparr>"

definition demo_open :: "int \<Rightarrow> int \<Rightarrow> filetable" where
  "demo_open i b = \<lparr>ft_state = FSTATE_OPEN, fileptr = 508, ft_mode = O_RDWR, de = Some i, ft_in = demo_inode i b\<rparr>"

definition demo_fs :: fsst where
  "demo_fs = \<lparr>fsd = \<lparr>nblocks = 512, blocksz = 512, ninodes = 128, inodes_used = 2, freemaskbytes = 64,
       freemask = [0xC0, 0, 0x30] @ replicate 61 0, numentries = 2, root_entry = []\<rparr>,
     dev0_numblocks = 512, dev0_blocksize = 512, dev0_blocks = replicate 262144 0, block_cache = replicate 512 0,
     oft = [demo_open 0 18, demo_open 1 19] @ replicate 14 blank_file, next_open_fd = 1, next_free_inode = 1, next_free_data_block = 19\<rparr>"

lemma length_replicate_num: "length (replicate (numeral k) x) = numeral k"
  by (rule length_replicate)

lemma demo_fs_ok: "fs_ok demo_fs"
  by (simp only: fs_ok_def demo_fs_def first_data_def NUM_FD_def fsst.simps fsystem.simps length_append length_replicate_num list.size) simp

end
