(* ===== verification/File_Properties.thy ===== *)
theory File_Properties
  imports File_Blocks
begin

unbundle bit_operations_syntax

text \<open>Properties of the file system: inodes and the contents of files survive being written to the device.\<close>

section \<open>Integers as octets\<close>

abbreviation int32 :: "int \<Rightarrow> bool" where
  "int32 x \<equiv> - 2147483648 \<le> x \<and> x < 2147483648"

abbreviation int16 :: "int \<Rightarrow> bool" where
  "int16 x \<equiv> - 32768 \<le> x \<and> x < 32768"

lemma uint_octet [simp]: "uint (word_of_int x :: octet) = x mod 256"
  by (simp add: uint_word_of_int)

lemma split16: "x mod 256 + 256 * (x div 256 mod 256) = x mod 65536" for x :: int
  using zmod_zmult2_eq [of 256 x 256] by simp

lemma split32: "x mod 256 + 256 * (x div 256 mod 256) + 65536 * (x div 65536 mod 256) + 16777216 * (x div 16777216 mod 256) = x mod 4294967296"
  for x :: int
proof -
  have "x mod (65536 * 65536) = 65536 * (x div 65536 mod 65536) + x mod 65536" by (rule zmod_zmult2_eq) simp
  moreover have "x div 65536 mod 65536 = x div 65536 mod 256 + 256 * (x div 65536 div 256 mod 256)" using split16 [of "x div 65536"] by simp
  moreover have "x div 65536 div 256 = x div 16777216" by (simp add: zdiv_zmult2_eq [symmetric])
  ultimately show ?thesis using split16 [of x] by simp
qed

lemma get32_put32 [simp]:
  assumes "int32 x"
  shows "get32 (put32 x @ m) = x"
proof -
  have "(word_of_int (x mod 4294967296) :: u32) = word_of_int x"
    by (rule word_uint_eqI) (simp add: uint_word_of_int)
  moreover have "sint (word_of_int x :: u32) = x"
    using assms by (simp add: signed_of_int signed_take_bit_int_eq_self)
  moreover have "uint ((put32 x @ m) ! 0) = x mod 256" "uint ((put32 x @ m) ! 1) = x div 256 mod 256"
      "uint ((put32 x @ m) ! 2) = x div 65536 mod 256" "uint ((put32 x @ m) ! 3) = x div 16777216 mod 256"
    by (simp_all add: put32_def)
  ultimately show ?thesis unfolding get32_def by (simp only: split32)
qed

lemma get16_put16 [simp]:
  assumes "int16 x"
  shows "get16 (put16 x @ m) = x"
proof -
  have "(word_of_int (x mod 65536) :: 16 word) = word_of_int x"
    by (rule word_uint_eqI) (simp add: uint_word_of_int)
  moreover have "sint (word_of_int x :: 16 word) = x"
    using assms by (simp add: signed_of_int signed_take_bit_int_eq_self)
  ultimately show ?thesis unfolding get16_def put16_def using split16 [of x] by simp
qed

text \<open>An inode whose fields are in the range of their C types.\<close>

definition inode_wf :: "inode \<Rightarrow> bool" where
  "inode_wf i \<longleftrightarrow> int32 (in_id i) \<and> int16 (in_type i) \<and> int16 (in_nlink i) \<and> int32 (in_device i) \<and> int32 (in_size i) \<and>
     length (in_blocks i) = INODEBLOCKS \<and> (\<forall>b \<in> set (in_blocks i). int32 b)"

lemma drop_blocks: "k < length bs \<Longrightarrow> drop (4 * k) (concat (map put32 bs)) = put32 (bs ! k) @ concat (map put32 (drop (Suc k) bs))"
proof (induction k arbitrary: bs)
  case 0
  then show ?case by (cases bs) simp_all
next
  case (Suc k)
  then obtain b bs' where bs: "bs = b # bs'" by (cases bs) auto
  have "drop (4 * Suc k) (concat (map put32 bs)) = drop (4 * k) (drop 4 (concat (map put32 bs)))" by (simp add: add.commute)
  also have "\<dots> = drop (4 * k) (concat (map put32 bs'))" by (simp add: bs put32_def)
  finally have "drop (4 * Suc k) (concat (map put32 bs)) = drop (4 * k) (concat (map put32 bs'))" .
  with Suc bs show ?case by simp
qed

lemma length_put [simp]: "length (put32 x) = 4" "length (put16 x) = 2"
  by (simp_all add: put32_def put16_def)

lemma get_put_inode:
  assumes "inode_wf i"
  shows "get_inode (put_inode i) = i"
proof -
  let ?h = "put32 (in_id i) @ put16 (in_type i) @ put16 (in_nlink i) @ put32 (in_device i) @ put32 (in_size i)"
  let ?c = "concat (map put32 (in_blocks i))"
  have p: "put_inode i = ?h @ ?c" by (simp add: put_inode_def)
  have "drop (16 + 4 * k) (put_inode i) = drop (4 * k) ?c" for k unfolding p by simp
  then have "map (\<lambda>k. get32 (drop (16 + 4 * k) (put_inode i))) [0..<INODEBLOCKS] = in_blocks i"
    using assms by (intro nth_equalityI) (auto simp: inode_wf_def drop_blocks)
  moreover have "get32 (put_inode i) = in_id i" "get16 (drop 4 (put_inode i)) = in_type i" "get16 (drop 6 (put_inode i)) = in_nlink i"
      "get32 (drop 8 (put_inode i)) = in_device i" "get32 (drop 12 (put_inode i)) = in_size i"
    using assms unfolding p by (simp_all add: inode_wf_def)
  ultimately show ?thesis by (simp add: get_inode_def)
qed

section \<open>Inodes\<close>

text \<open>The octets of an inode on the device.\<close>

definition inode_image :: "fsst \<Rightarrow> int \<Rightarrow> octet list" where
  "inode_image s n = map (\<lambda>k. oct s (n div 8 + 2) (n mod 8 * 64 + int k)) [0..<64]"

lemma get_inode_image:
  assumes ok: "fs_ok s" and n: "0 \<le> n" "n < ninodes (fsd s)"
  shows "\<exists>c. get_inode_by_num 0 n s = Some (OK, Some (get_inode (inode_image s n)), s\<lparr>block_cache := c\<rparr>) \<and> length c = 512"
proof -
  let ?b = "n div 8 + 2" and ?o = "n mod 8 * 64"
  note D = fs_okD [OF ok]
  have b: "0 \<le> ?b" "?b < 512" "0 \<le> ?o" "?o + 64 \<le> 512"
    using n(1) inode_place_eq(2) [OF ok n] D(7) pos_mod_bound [of 8 n] pos_imp_zdiv_nonneg_iff [of 8 n] by auto
  define xs where "xs = map (\<lambda>k. oct s ?b (0 + int k)) [0..<nat 512]"
  have rd: "bread 0 ?b 0 512 s = Some (OK, xs)" unfolding xs_def using D b by (intro bread_oct) auto
  have c0: "poke (block_cache s) 0 xs = Some xs" using D(5) by (simp add: poke_def xs_def)
  obtain ys where ys: "peek xs ?o 64 = Some ys" using peek_Some [of ?o 64 xs] b by (auto simp: xs_def)
  have "ys = inode_image s n"
  proof (rule nth_equalityI)
    fix k assume "k < length ys"
    then have k: "k < 64" using length_peek [OF ys] by simp
    then show "ys ! k = inode_image s n ! k" using peek_nth [OF ys, of k] b by (simp add: xs_def inode_image_def)
  qed (simp add: length_peek [OF ys] inode_image_def)
  then have "get_inode_by_num 0 n s = Some (OK, Some (get_inode (inode_image s n)), s\<lparr>block_cache := xs\<rparr>)"
    using n inode_place_eq(1) [OF ok n] D rd c0 ys by (simp add: get_inode_by_num_def cache_block_def SIZEOF_INODE_def)
  then show ?thesis by (intro exI [of _ xs]) (simp add: xs_def)
qed

text \<open>
  C37. An inode that is written with \<open>put_inode_by_num\<close> is the inode that \<open>get_inode_by_num\<close> reads
  afterwards, and every other inode reads as before.
\<close>

theorem inode_roundtrip:
  assumes ok: "fs_ok s" and n: "0 \<le> n" "n < ninodes (fsd s)" and i: "inode_wf i"
  shows "\<exists>s'. put_inode_by_num 0 n i s = Some (OK, s') \<and> fs_ok s' \<and>
    map_option (fst \<circ> snd) (get_inode_by_num 0 n s') = Some (Some i) \<and>
    (\<forall>k. 0 \<le> k \<and> k < ninodes (fsd s) \<and> k \<noteq> n \<longrightarrow>
      map_option (fst \<circ> snd) (get_inode_by_num 0 k s') = map_option (fst \<circ> snd) (get_inode_by_num 0 k s))"
proof -
  obtain m c where s': "put_inode_by_num 0 n i s = Some (OK, s\<lparr>block_cache := c, dev0_blocks := m\<rparr>)" "length m = 262144" "length c = 512"
    and oct: "\<And>b k. 0 \<le> b \<Longrightarrow> b < 512 \<Longrightarrow> 0 \<le> k \<Longrightarrow> k < 512 \<Longrightarrow> oct (s\<lparr>block_cache := c, dev0_blocks := m\<rparr>) b k =
      (if b = n div 8 + 2 \<and> n mod 8 * 64 \<le> k \<and> k < n mod 8 * 64 + 64 then put_inode i ! nat (k - n mod 8 * 64) else oct s b k)"
    using put_inode_oct [OF ok n, of i] i by (auto simp: inode_wf_def INODEBLOCKS_def)
  let ?s = "s\<lparr>block_cache := c, dev0_blocks := m\<rparr>"
  have ok': "fs_ok ?s" using ok s'(2,3) by (simp add: fs_ok_def first_data_def)
  have place: "0 \<le> k div 8 + 2 \<and> k div 8 + 2 < 512 \<and> 0 \<le> k mod 8 * 64 \<and> k mod 8 * 64 + 64 \<le> 512"
    if "0 \<le> k" "k < ninodes (fsd s)" for k
    using that inode_place_eq(2) [OF ok that] fs_okD(7) [OF ok] pos_mod_bound [of 8 k] pos_imp_zdiv_nonneg_iff [of 8 k] by auto
  have "inode_image ?s n = put_inode i"
    using place [OF n] oct length_put_inode [of i] i by (intro nth_equalityI) (auto simp: inode_image_def inode_wf_def INODEBLOCKS_def)
  moreover have "inode_image ?s k = inode_image s k" if k: "0 \<le> k" "k < ninodes (fsd s)" "k \<noteq> n" for k
  proof -
    have "k div 8 = n div 8 \<Longrightarrow> k mod 8 \<noteq> n mod 8" using k(3) by (metis div_mult_mod_eq)
    then have "oct ?s (k div 8 + 2) (k mod 8 * 64 + int j) = oct s (k div 8 + 2) (k mod 8 * 64 + int j)" if "j < 64" for j
      using place [OF k(1,2)] oct that by auto
    then show ?thesis by (auto simp: inode_image_def)
  qed
  ultimately show ?thesis
    using s'(1) ok' get_inode_image [OF ok] get_inode_image [OF ok'] get_put_inode [OF i] n by fastforce
qed

theorem inode_roundtrip_witness:
  "\<exists>s'. put_inode_by_num 0 5 (demo_inode 5 20) demo_fs = Some (OK, s') \<and> map_option (fst \<circ> snd) (get_inode_by_num 0 5 s') = Some (Some (demo_inode 5 20))"
proof -
  have "inode_wf (demo_inode 5 20)" by (simp add: inode_wf_def demo_inode_def INODEBLOCKS_def INODE_TYPE_FILE_def)
  moreover have "ninodes (fsd demo_fs) = 128" by (simp only: demo_fs_def fsst.simps fsystem.simps)
  ultimately show ?thesis using inode_roundtrip [OF demo_fs_ok, of 5 "demo_inode 5 20"] by auto
qed

end
