(* ===== verification/File_Contents.thy ===== *)
theory File_Contents
  imports File_Properties
begin

text \<open>
  The contents of files. A file is read and written octet by octet through the list of its blocks;
  new blocks come from the free block mask.
\<close>

section \<open>Allocation of data blocks\<close>

lemma used_upd [simp]: "used_block (s\<lparr>next_free_data_block := x\<rparr>) b = used_block s b" "used_block (s\<lparr>dev0_blocks := m\<rparr>) b = used_block s b"
    "used_block (s\<lparr>oft := t\<rparr>) b = used_block s b" "used_block (s\<lparr>block_cache := c\<rparr>) b = used_block s b"
  by (simp_all add: used_block_def)

lemma first_data_upd [simp]: "first_data (s\<lparr>next_free_data_block := x\<rparr>) = first_data s" "first_data (s\<lparr>dev0_blocks := m\<rparr>) = first_data s"
    "first_data (s\<lparr>oft := t\<rparr>) = first_data s" "first_data (s\<lparr>block_cache := c\<rparr>) = first_data s"
    "first_data (s\<lparr>fsd := (fsd s)\<lparr>freemask := f\<rparr>\<rparr>) = first_data s"
  by (simp_all add: first_data_def)

lemma oct_upd [simp]: "oct (s\<lparr>next_free_data_block := x\<rparr>) b k = oct s b k" "oct (s\<lparr>oft := t\<rparr>) b k = oct s b k"
    "oct (s\<lparr>fsd := f\<rparr>) b k = oct s b k"
  by (simp_all add: oct_def)

lemma find_block_scan:
  assumes "fs_ok s"
  shows "\<exists>r x. find_block n m s = Some (r, s\<lparr>next_free_data_block := x\<rparr>) \<and> first_data s \<le> x \<and> x < 512 \<and>
    (if r = Some 0 \<and> n > 0 then \<not> used_block s x
     else (r = (if n = 0 then m else Some 1)) \<and>
       (\<forall>j < n. used_block s (first_data s + (next_free_data_block s - first_data s + int j) mod (512 - first_data s))))"
  using assms
proof (induction n arbitrary: m s)
  case 0
  then show ?case using fs_okD(11,12) by (intro exI [of _ m] exI [of _ "next_free_data_block s"]) auto
next
  case (Suc n)
  let ?f = "first_data s" and ?x = "next_free_data_block s"
  note D = fs_okD [OF Suc.prems]
  have get: "getmaskbit ?x s = Some (of_bool (used_block s ?x))"
    using D by (intro getmaskbit_used) auto
  show ?case
  proof (cases "used_block s ?x")
    case False
    then show ?thesis using get D(11,12) by (intro exI [of _ "Some 0"] exI [of _ ?x]) simp
  next
    case True
    define y where "y = (if ?x + 1 \<ge> 512 then ?f else ?x + 1)"
    have ok: "fs_ok (s\<lparr>next_free_data_block := y\<rparr>)" using Suc.prems D by (auto simp: fs_ok_def y_def)
    have step: "find_block (Suc n) m s = find_block n (Some 1) (s\<lparr>next_free_data_block := y\<rparr>)"
      using get True first_data_block [OF Suc.prems] by (simp add: y_def MDEV_NUM_BLOCKS_def)
    have y: "y - ?f = (?x - ?f + 1) mod (512 - ?f)"
    proof (cases "?x + 1 \<ge> 512")
      case True
      then have "?x - ?f + 1 = 512 - ?f" using D(12) by simp
      then show ?thesis using True by (simp only: y_def) simp
    qed (use D(11) in \<open>simp add: y_def\<close>)
    have shift: "(y - ?f + int j) mod (512 - ?f) = (?x - ?f + int (Suc j)) mod (512 - ?f)" for j
      unfolding y mod_add_left_eq by (simp add: algebra_simps)
    have first: "(?x - ?f + int 0) mod (512 - ?f) = ?x - ?f" using D(11,12) by simp
    have "\<exists>r x. find_block n (Some 1) (s\<lparr>next_free_data_block := y\<rparr>) = Some (r, s\<lparr>next_free_data_block := x\<rparr>) \<and> ?f \<le> x \<and> x < 512 \<and>
        (if r = Some 0 \<and> n > 0 then \<not> used_block s x
         else (r = Some 1) \<and> (\<forall>j < n. used_block s (?f + (y - ?f + int j) mod (512 - ?f))))"
      using Suc.IH [OF ok, of "Some 1"] by (simp cong: if_cong split del: if_split)
    then obtain r x where R: "find_block n (Some 1) (s\<lparr>next_free_data_block := y\<rparr>) = Some (r, s\<lparr>next_free_data_block := x\<rparr>)" "?f \<le> x" "x < 512"
        "if r = Some 0 \<and> n > 0 then \<not> used_block s x
         else (r = Some 1) \<and> (\<forall>j < n. used_block s (?f + (y - ?f + int j) mod (512 - ?f)))"
      by blast
    have "used_block s (?f + (?x - ?f + int j) mod (512 - ?f))" if "\<forall>j < n. used_block s (?f + (y - ?f + int j) mod (512 - ?f))" "j < Suc n" for j
    proof (cases j)
      case 0
      then show ?thesis using first True by simp
    next
      case (Suc i)
      then show ?thesis using that shift by simp
    qed
    then show ?thesis using step R by (intro exI [of _ r] exI [of _ x]) (auto split: if_splits)
  qed
qed

lemma setmaskbit_512:
  assumes "length (freemask (fsd s)) = 64" "0 \<le> b" "b < 512"
  shows "\<exists>m. setmaskbit b s = Some (fsdu (\<lambda>f. f\<lparr>freemask := m\<rparr>) s) \<and> length m = 64 \<and>
    (\<forall>c. 0 \<le> c \<and> c < 512 \<longrightarrow> used_block (fsdu (\<lambda>f. f\<lparr>freemask := m\<rparr>) s) c = (used_block s c \<or> c = b))"
proof -
  have lt: "c div 8 < 64 \<longleftrightarrow> c < 512" for c :: int by presburger
  show ?thesis using setmaskbit_used [of b s] assms by (simp add: lt)
qed

text \<open>Either a free block is taken, or every data block is in use.\<close>

lemma alloc_block_spec:
  assumes ok: "fs_ok s"
  shows "\<exists>r s'. alloc_block s = Some (r, s') \<and> fs_ok s' \<and> oft s' = oft s \<and> first_data s' = first_data s \<and> ninodes (fsd s') = ninodes (fsd s) \<and>
    (\<forall>b k. first_data s \<le> b \<and> b < 512 \<and> 0 \<le> k \<and> k < 512 \<longrightarrow> oct s' b k = oct s b k) \<and>
    (if r then \<not> used_block s (next_free_data_block s') \<and>
       (\<forall>b. first_data s \<le> b \<and> b < 512 \<longrightarrow> used_block s' b = (used_block s b \<or> b = next_free_data_block s'))
     else \<forall>b. first_data s \<le> b \<and> b < 512 \<longrightarrow> used_block s b \<and> used_block s' b)"
proof -
  let ?f = "first_data s" and ?L = "512 - first_data s"
  note D = fs_okD [OF ok]
  have pos: "nat ?L > 0" "nat ?L \<noteq> 0" using D(7) by simp_all
  from find_block_scan [OF ok, of "nat ?L" None] obtain r x where
    R: "find_block (nat ?L) None s = Some (r, s\<lparr>next_free_data_block := x\<rparr>)" "?f \<le> x" "x < 512"
      "if r = Some 0 then \<not> used_block s x
       else (r = Some 1) \<and> (\<forall>j < nat ?L. used_block s (?f + (next_free_data_block s - ?f + int j) mod ?L))"
    using pos by (metis (no_types, lifting))
  let ?s = "s\<lparr>next_free_data_block := x\<rparr>"
  have ok1: "fs_ok ?s" using ok R(2,3) by (auto simp: fs_ok_def)
  show ?thesis
  proof (cases "r = Some 0")
    case False
    have "used_block s b" if b: "?f \<le> b" "b < 512" for b
    proof -
      let ?j = "(b - next_free_data_block s) mod ?L"
      have j: "0 \<le> ?j" "?j < ?L" using D(7) by simp_all
      have "(next_free_data_block s - ?f + ?j) mod ?L = (b - ?f) mod ?L" unfolding mod_add_right_eq by simp
      also have "\<dots> = b - ?f" using b by simp
      finally show ?thesis using R(4) False j by (auto dest!: spec [of _ "nat ?j"])
    qed
    moreover have "alloc_block s = Some (False, ?s)" using R(1,4) False first_data_block [OF ok] D(3) by (simp add: alloc_block_def)
    ultimately show ?thesis using ok1 by (intro exI [of _ False] exI [of _ ?s]) auto
  next
    case True
    obtain m where m: "setmaskbit x ?s = Some (fsdu (\<lambda>f. f\<lparr>freemask := m\<rparr>) ?s)" "length m = 64"
        "\<And>c. 0 \<le> c \<Longrightarrow> c < 512 \<Longrightarrow> used_block (fsdu (\<lambda>f. f\<lparr>freemask := m\<rparr>) ?s) c = (used_block s c \<or> c = x)"
      using setmaskbit_512 [of ?s x] R(2,3) D(9,14) by auto
    let ?t = "fsdu (\<lambda>f. f\<lparr>freemask := m\<rparr>) ?s"
    obtain m' where m': "setmaskbit 1 ?t = Some (fsdu (\<lambda>f. f\<lparr>freemask := m'\<rparr>) ?t)" "length m' = 64"
        "\<And>c. 0 \<le> c \<Longrightarrow> c < 512 \<Longrightarrow> used_block (fsdu (\<lambda>f. f\<lparr>freemask := m'\<rparr>) ?t) c = (used_block ?t c \<or> c = 1)"
      using setmaskbit_512 [of ?t 1] m(2) by auto
    let ?u = "fsdu (\<lambda>f. f\<lparr>freemask := m'\<rparr>) ?t"
    have pk: "peek m' 0 64 = Some m'" using m'(2) by (simp add: peek_def)
    obtain d where d: "bwrite 0 1 0 m' ?u = Some (OK, ?u\<lparr>dev0_blocks := d\<rparr>)" "length d = 262144"
        "\<forall>b k. 0 \<le> b \<and> b < 512 \<and> 0 \<le> k \<and> k < 512 \<longrightarrow> oct (?u\<lparr>dev0_blocks := d\<rparr>) b k = (if b = 1 \<and> 0 \<le> k \<and> k < 0 + int (length m') then m' ! nat (k - 0) else oct ?u b k)"
      using bwrite_oct [of ?u 1 0 m'] D m'(2) by auto
    have "alloc_block s = Some (True, ?u\<lparr>dev0_blocks := d\<rparr>)"
      using R(1) True first_data_block [OF ok] D(3,8) m(1) m'(1) pk d(1) by (simp add: alloc_block_def BM_BLK_def)
    moreover have "fs_ok (?u\<lparr>dev0_blocks := d\<rparr>)" using ok1 m'(2) d(2) by (simp add: fs_ok_def first_data_def)
    moreover have "used_block (?u\<lparr>dev0_blocks := d\<rparr>) b = (used_block s b \<or> b = x)" if "?f \<le> b" "b < 512" for b
      using that m(3) [of b] m'(3) [of b] D(14) by simp
    moreover have "oct (?u\<lparr>dev0_blocks := d\<rparr>) b k = oct s b k" if "?f \<le> b" "b < 512" "0 \<le> k" "k < 512" for b k
      using d(3) that D(14) by simp
    ultimately show ?thesis using R(4) True
      by (intro exI [of _ True] exI [of _ "?u\<lparr>dev0_blocks := d\<rparr>"]) (simp add: first_data_def)
  qed
qed

section \<open>Octets of a file\<close>

abbreviation ofile :: "fsst \<Rightarrow> int \<Rightarrow> filetable" where
  "ofile s fd \<equiv> at (oft s) fd"

text \<open>Block \<open>i\<close> of an open file, octet \<open>q\<close> of the file, and that block \<open>i\<close> is a data block in use.\<close>

definition blk :: "fsst \<Rightarrow> int \<Rightarrow> int \<Rightarrow> int" where
  "blk s fd i = in_blocks (ft_in (ofile s fd)) ! nat i"

definition fbyte :: "fsst \<Rightarrow> int \<Rightarrow> int \<Rightarrow> octet" where
  "fbyte s fd q = oct s (blk s fd (q div 512)) (q mod 512)"

definition mapped :: "fsst \<Rightarrow> int \<Rightarrow> int \<Rightarrow> bool" where
  "mapped s fd i \<longleftrightarrow> first_data s \<le> blk s fd i \<and> blk s fd i < 512 \<and> used_block s (blk s fd i)"

text \<open>
  What writing to one file keeps: the shape of the file system, the other open files, the
  attributes of the file but its size, its blocks before index \<open>i\<close>, and every data block in use.
\<close>

definition kept :: "int \<Rightarrow> int \<Rightarrow> fsst \<Rightarrow> fsst \<Rightarrow> bool" where
  "kept fd i s s' \<longleftrightarrow> fs_ok s' \<and> first_data s' = first_data s \<and> ninodes (fsd s') = ninodes (fsd s) \<and> length (oft s') = length (oft s) \<and>
     (\<forall>j. inarr (oft s) j \<and> j \<noteq> fd \<longrightarrow> ofile s' j = ofile s j) \<and>
     (\<exists>p bs. ofile s' fd = (ofile s fd)\<lparr>fileptr := p, ft_in := (ft_in (ofile s fd))\<lparr>in_blocks := bs\<rparr>\<rparr> \<and> length bs = length (in_blocks (ft_in (ofile s fd)))) \<and>
     (\<forall>j. 0 \<le> j \<and> j < i \<longrightarrow> blk s' fd j = blk s fd j) \<and>
     (\<forall>b. first_data s \<le> b \<and> b < 512 \<and> used_block s b \<longrightarrow> used_block s' b \<and> (\<forall>k. 0 \<le> k \<and> k < 512 \<longrightarrow> oct s' b k = oct s b k))"

lemma kept_trans:
  assumes a: "kept fd i s t" and b: "kept fd j t u" and le: "i \<le> j"
  shows "kept fd i s u"
proof -
  obtain p bs where t: "ofile t fd = (ofile s fd)\<lparr>fileptr := p, ft_in := (ft_in (ofile s fd))\<lparr>in_blocks := bs\<rparr>\<rparr>"
      "length bs = length (in_blocks (ft_in (ofile s fd)))" using a unfolding kept_def by blast
  moreover obtain q cs where "ofile u fd = (ofile t fd)\<lparr>fileptr := q, ft_in := (ft_in (ofile t fd))\<lparr>in_blocks := cs\<rparr>\<rparr>"
      "length cs = length (in_blocks (ft_in (ofile t fd)))" using b unfolding kept_def by blast
  ultimately have "\<exists>p bs. ofile u fd = (ofile s fd)\<lparr>fileptr := p, ft_in := (ft_in (ofile s fd))\<lparr>in_blocks := bs\<rparr>\<rparr> \<and>
      length bs = length (in_blocks (ft_in (ofile s fd)))"
    by (intro exI [of _ q] exI [of _ cs]) simp
  then show ?thesis using a b le unfolding kept_def inarr_def by auto
qed

lemma write_part_spec:
  assumes ok: "fs_ok s" and fd: "inarr (oft s) fd" and b: "0 \<le> b" "b < 512" "0 \<le> i" "i < 512" "0 \<le> n" "i + n \<le> 512"
    and buf: "0 \<le> d" "d + n \<le> int (length buf)"
  shows "\<exists>m. write_part fd buf d b i n s = Some (OK, s\<lparr>dev0_blocks := m, oft := upd (oft s) fd (\<lambda>f. f\<lparr>fileptr := fileptr f + n\<rparr>)\<rparr>) \<and>
    length m = 262144 \<and> (\<forall>c k. 0 \<le> c \<and> c < 512 \<and> 0 \<le> k \<and> k < 512 \<longrightarrow> oct (s\<lparr>dev0_blocks := m\<rparr>) c k =
      (if c = b \<and> i \<le> k \<and> k < i + n then buf ! nat (d + (k - i)) else oct s c k))"
proof -
  obtain xs where xs: "peek buf d n = Some xs" using peek_Some [of d n buf] buf b(5) by auto
  have len: "int (length xs) = n" using length_peek [OF xs] b(5) by simp
  obtain m where m: "bwrite 0 b i xs s = Some (OK, s\<lparr>dev0_blocks := m\<rparr>)" "length m = 262144"
      "\<forall>c k. 0 \<le> c \<and> c < 512 \<and> 0 \<le> k \<and> k < 512 \<longrightarrow> oct (s\<lparr>dev0_blocks := m\<rparr>) c k =
        (if c = b \<and> i \<le> k \<and> k < i + int (length xs) then xs ! nat (k - i) else oct s c k)"
    using bwrite_oct [of s b i xs] fs_okD [OF ok] b len by auto
  have "xs ! nat (k - i) = buf ! nat (d + (k - i))" if "i \<le> k" "k < i + n" for k
    using peek_nth [OF xs, of "nat (k - i)"] that buf(1) by (simp add: nat_add_distrib)
  then show ?thesis using m fd xs len by (intro exI [of _ m]) (auto simp: write_part_def)
qed

end
