(* ===== verification/File_Transfer.thy ===== *)
theory File_Transfer
  imports File_Contents
begin

text \<open>
  \<open>fwrite\<close> and \<open>fread\<close>: the loops over the blocks of a file end, and what they leave on the device.
\<close>

section \<open>Writing\<close>

text \<open>One turn of the loop of \<open>fwrite\<close>: the device is full, or a fresh block gets the next part of the buffer.\<close>

lemma fwrite_turn:
  assumes ok: "fs_ok s" and fd: "inarr (oft s) fd" and bl: "length (in_blocks (ft_in (ofile s fd))) = 12"
    and p: "fileptr (ofile s fd) = 512 * j" "0 \<le> j" "j < 12" and nb: "0 < nb" and buf: "0 \<le> d" "d + nb \<le> int (length buf)"
  shows "(\<exists>s'. fwrite_loop fd buf d nb s = Some (SYSERR, s') \<and> kept fd j s s' \<and> (\<forall>b. first_data s \<le> b \<and> b < 512 \<longrightarrow> used_block s b)) \<or>
    (\<exists>s'. fwrite_loop fd buf d nb s = fwrite_loop fd buf (d + min nb 512) (nb - min nb 512) s' \<and> kept fd j s s' \<and>
      fileptr (ofile s' fd) = 512 * j + min nb 512 \<and> mapped s' fd j \<and>
      (\<forall>k. 0 \<le> k \<and> k < min nb 512 \<longrightarrow> oct s' (blk s' fd j) k = buf ! nat (d + k)))"
proof -
  let ?f = "first_data s"
  define n where "n = min nb 512"
  have n: "0 < n" "n \<le> 512" "d + n \<le> int (length buf)" "(if nb < MDEV_BLOCK_SIZE then nb else MDEV_BLOCK_SIZE) = n"
    using nb buf by (auto simp: n_def MDEV_BLOCK_SIZE_def)
  note D = fs_okD [OF ok]
  from alloc_block_spec [OF ok] obtain r t where
    A: "alloc_block s = Some (r, t)" "fs_ok t" "oft t = oft s" "first_data t = ?f" "ninodes (fsd t) = ninodes (fsd s)"
      "\<forall>b k. ?f \<le> b \<and> b < 512 \<and> 0 \<le> k \<and> k < 512 \<longrightarrow> oct t b k = oct s b k" and
    R: "if r then \<not> used_block s (next_free_data_block t) \<and> (\<forall>b. ?f \<le> b \<and> b < 512 \<longrightarrow> used_block t b = (used_block s b \<or> b = next_free_data_block t))
       else \<forall>b. ?f \<le> b \<and> b < 512 \<longrightarrow> used_block s b \<and> used_block t b"
    by blast
  show ?thesis
  proof (cases r)
    case False
    have "fwrite_loop fd buf d nb s = Some (SYSERR, t)" using nb A(1) False by (simp add: fwrite_loop.simps)
    moreover have "kept fd j s t" unfolding kept_def using A R False
      by (auto simp: blk_def intro!: exI [of _ "fileptr (ofile s fd)"] exI [of _ "in_blocks (ft_in (ofile s fd))"])
    ultimately show ?thesis using R False by auto
  next
    case True
    define x where "x = next_free_data_block t"
    define u where "u = t\<lparr>oft := upd (oft s) fd (\<lambda>f. f\<lparr>ft_in := (ft_in f)\<lparr>in_blocks := upd (in_blocks (ft_in (ofile s fd))) j (\<lambda>_. x)\<rparr>\<rparr>)\<rparr>"
    have x: "?f \<le> x" "x < 512" "\<not> used_block s x" "\<And>b. ?f \<le> b \<Longrightarrow> b < 512 \<Longrightarrow> used_block t b = (used_block s b \<or> b = x)"
      using fs_okD(11,12) [OF A(2)] A(4) R True by (auto simp: x_def)
    have j: "inarr (in_blocks (ft_in (ofile s fd))) j" using p bl by (simp add: inarr_def)
    have oku: "fs_ok u" using A(2,3) by (simp add: u_def fs_ok_def)
    have fdu: "inarr (oft u) fd" "next_free_data_block u = x" using fd by (simp_all add: u_def x_def)
    obtain m where m: "write_part fd buf d x 0 n u = Some (OK, u\<lparr>dev0_blocks := m, oft := upd (oft u) fd (\<lambda>f. f\<lparr>fileptr := fileptr f + n\<rparr>)\<rparr>)"
        "length m = 262144" "\<forall>c k. 0 \<le> c \<and> c < 512 \<and> 0 \<le> k \<and> k < 512 \<longrightarrow> oct (u\<lparr>dev0_blocks := m\<rparr>) c k =
          (if c = x \<and> 0 \<le> k \<and> k < 0 + n then buf ! nat (d + (k - 0)) else oct u c k)"
      using write_part_spec [OF oku fdu(1), of x 0 n d buf] x(1,2) D(14) n buf(1) by auto
    let ?v = "u\<lparr>dev0_blocks := m, oft := upd (oft u) fd (\<lambda>f. f\<lparr>fileptr := fileptr f + n\<rparr>)\<rparr>"
    have q: "fileptr (ofile s fd) sdiv MDEV_BLOCK_SIZE = j" using p(1,2) by (simp add: MDEV_BLOCK_SIZE_def)
    have loop: "fwrite_loop fd buf d nb s = fwrite_loop fd buf (d + n) (nb - n) ?v"
      using nb A(1,3) True fd j q m(1) fdu(2)
      by (subst fwrite_loop.simps) (simp add: u_def x_def [symmetric] n(4) split del: if_split)
    have fl: "ofile ?v fd = (ofile s fd)\<lparr>fileptr := 512 * j + n,
        ft_in := (ft_in (ofile s fd))\<lparr>in_blocks := upd (in_blocks (ft_in (ofile s fd))) j (\<lambda>_. x)\<rparr>\<rparr>"
      using fd p(1) by (simp add: u_def)
    have oct: "oct ?v b k = (if b = x \<and> k < n then buf ! nat (d + k) else oct s b k)" if "?f \<le> b" "b < 512" "0 \<le> k" "k < 512" for b k
    proof -
      have "oct ?v b k = oct (u\<lparr>dev0_blocks := m\<rparr>) b k" "oct u b k = oct s b k" using A(6) that by (simp_all add: oct_def u_def)
      then show ?thesis using m(3) that D(14) by simp
    qed
    have blk: "blk ?v fd i = (if i = j then x else blk s fd i)" if "0 \<le> i" "i \<le> j" for i
      using fl j that p(3) at_upd_same [OF j, of "\<lambda>_. x"] at_upd_other [of j i "in_blocks (ft_in (ofile s fd))" "\<lambda>_. x"]
      by (auto simp: blk_def at_def inarr_def)
    have used: "used_block ?v b = used_block t b" for b by (simp add: u_def)
    have okv: "fs_ok ?v" using oku m(2) by (simp add: fs_ok_def)
    have other: "ofile ?v i = ofile s i" if "inarr (oft s) i" "i \<noteq> fd" for i using that fd by (simp add: u_def)
    have dims: "first_data ?v = ?f" "ninodes (fsd ?v) = ninodes (fsd s)" "length (oft ?v) = length (oft s)" using A(3-5) by (simp_all add: u_def)
    have "\<exists>p bs. ofile ?v fd = (ofile s fd)\<lparr>fileptr := p, ft_in := (ft_in (ofile s fd))\<lparr>in_blocks := bs\<rparr>\<rparr> \<and> length bs = length (in_blocks (ft_in (ofile s fd)))"
      using fl length_upd by blast
    moreover have "used_block ?v b" "oct ?v b k = oct s b k" if "?f \<le> b" "b < 512" "used_block s b" "0 \<le> k" "k < 512" for b k
      using oct [of b k] used x that by auto
    moreover have "blk ?v fd i = blk s fd i" if "0 \<le> i" "i < j" for i using blk [of i] that by simp
    ultimately have "kept fd j s ?v" unfolding kept_def using okv dims other
      by (metis (no_types, lifting) order_refl zero_less_numeral)
    moreover have "mapped ?v fd j" "\<forall>k. 0 \<le> k \<and> k < n \<longrightarrow> oct ?v (blk ?v fd j) k = buf ! nat (d + k)"
      using blk [of j] p(2) x dims(1) used oct n(2) by (auto simp: mapped_def)
    ultimately show ?thesis using loop fl unfolding n_def [symmetric] by (intro disjI2 exI [of _ ?v]) simp
  qed
qed


text \<open>A written block survives what is kept.\<close>

lemma kept_mapped:
  assumes "mapped s fd j" "kept fd i s s'" "0 \<le> j" "j < i"
  shows "mapped s' fd j" "\<And>k. 0 \<le> k \<Longrightarrow> k < 512 \<Longrightarrow> oct s' (blk s' fd j) k = oct s (blk s fd j) k"
  using assms unfolding mapped_def kept_def by auto

lemma kept_refl: "fs_ok s \<Longrightarrow> kept fd i s s"
  unfolding kept_def by (auto intro!: exI [of _ "fileptr (ofile s fd)"] exI [of _ "in_blocks (ft_in (ofile s fd))"])

lemma kept_file:
  assumes "kept fd i s s'"
  shows "fs_ok s'" "length (in_blocks (ft_in (ofile s' fd))) = length (in_blocks (ft_in (ofile s fd)))" "inarr (oft s') j = inarr (oft s) j"
    "ft_state (ofile s' fd) = ft_state (ofile s fd)" "ft_mode (ofile s' fd) = ft_mode (ofile s fd)" "in_id (ft_in (ofile s' fd)) = in_id (ft_in (ofile s fd))"
    "in_size (ft_in (ofile s' fd)) = in_size (ft_in (ofile s fd))" "first_data s' = first_data s" "ninodes (fsd s') = ninodes (fsd s)"
  using assms unfolding kept_def inarr_def by auto

text \<open>The octets \<open>[p, p + n)\<close> of a file are those of the buffer from \<open>d\<close> on.\<close>

definition holds_buf :: "fsst \<Rightarrow> int \<Rightarrow> int \<Rightarrow> int \<Rightarrow> octet list \<Rightarrow> int \<Rightarrow> bool" where
  "holds_buf s fd p n buf d \<longleftrightarrow> (\<forall>q. p \<le> q \<and> q < p + n \<longrightarrow> mapped s fd (q div 512) \<and> fbyte s fd q = buf ! nat (d + (q - p)))"

lemma holds_buf_append:
  assumes "holds_buf s fd p m buf d" "holds_buf s fd (p + m) n buf (d + m)"
  shows "holds_buf s fd p (m + n) buf d"
  unfolding holds_buf_def
proof safe
  fix q assume q: "p \<le> q" "q < p + (m + n)"
  have e: "d + m + (q - (p + m)) = d + (q - p)" by simp
  show "mapped s fd (q div 512)" "fbyte s fd q = buf ! nat (d + (q - p))"
    using assms q e unfolding holds_buf_def by (metis add.assoc not_le)+
qed

lemma holds_buf_kept:
  assumes "holds_buf s fd p n buf d" "kept fd j s s'" "0 \<le> p" "p + n \<le> 512 * j"
  shows "holds_buf s' fd p n buf d"
  unfolding holds_buf_def
proof safe
  fix q assume q: "p \<le> q" "q < p + n"
  have j: "0 \<le> q div 512" "q div 512 < j" "0 \<le> q mod 512" "q mod 512 < 512" using q assms(3,4) by (auto simp: pos_imp_zdiv_nonneg_iff)
  have m: "mapped s fd (q div 512)" "fbyte s fd q = buf ! nat (d + (q - p))" using assms(1) q by (auto simp: holds_buf_def)
  show "mapped s' fd (q div 512)" "fbyte s' fd q = buf ! nat (d + (q - p))"
    using kept_mapped [OF m(1) assms(2) j(1,2)] j m(2) by (simp_all add: fbyte_def)
qed

lemma holds_buf_block:
  assumes "mapped s fd j" "0 \<le> k" "k + n \<le> 512" "\<And>i. k \<le> i \<Longrightarrow> i < k + n \<Longrightarrow> oct s (blk s fd j) i = buf ! nat (d + (i - k))"
  shows "holds_buf s fd (512 * j + k) n buf d"
  unfolding holds_buf_def
proof safe
  fix q assume q: "512 * j + k \<le> q" "q < 512 * j + k + n"
  then have j: "q div 512 = j" using assms(2,3) by auto
  then have m: "q mod 512 = q - 512 * j" using minus_mult_div_eq_mod [of q 512] by simp
  have e: "q - 512 * j - k = q - (512 * j + k)" by simp
  show "mapped s fd (q div 512)" "fbyte s fd q = buf ! nat (d + (q - (512 * j + k)))"
    using assms(1) assms(4) [of "q - 512 * j"] q j m e by (simp_all add: fbyte_def)
qed

text \<open>The loop ends: every octet is in the file, or the device is full.\<close>

lemma fwrite_loop_spec:
  assumes "fs_ok s" "inarr (oft s) fd" "length (in_blocks (ft_in (ofile s fd))) = 12" "fileptr (ofile s fd) = 512 * j" "0 \<le> j"
    "512 * j + nb \<le> 6144" "0 \<le> nb" "0 \<le> d" "d + nb \<le> int (length buf)"
  shows "\<exists>r s'. fwrite_loop fd buf d nb s = Some (r, s') \<and> kept fd j s s' \<and>
    (if r = OK then fileptr (ofile s' fd) = 512 * j + nb \<and> holds_buf s' fd (512 * j) nb buf d
     else r = SYSERR \<and> 0 < nb \<and> (\<forall>b. first_data s \<le> b \<and> b < 512 \<longrightarrow> used_block s' b))"
  using assms
proof (induction "nat nb" arbitrary: nb d s j rule: less_induct)
  case less
  show ?case
  proof (cases "nb = 0")
    case True
    then show ?thesis using less.prems kept_refl by (intro exI [of _ OK] exI [of _ s]) (auto simp: fwrite_loop.simps holds_buf_def)
  next
    case False
    let ?n = "min nb 512"
    have j: "j < 12" "0 < nb" using less.prems False by auto
    from fwrite_turn [OF less.prems(1-5) j less.prems(8,9)] show ?thesis
    proof (elim disjE exE conjE)
      fix t assume t: "fwrite_loop fd buf d nb s = Some (SYSERR, t)" "kept fd j s t" "\<forall>b. first_data s \<le> b \<and> b < 512 \<longrightarrow> used_block s b"
      then show ?thesis using j(2) unfolding kept_def by (intro exI [of _ SYSERR] exI [of _ t]) (auto simp: c_consts)
    next
      fix t assume t: "fwrite_loop fd buf d nb s = fwrite_loop fd buf (d + ?n) (nb - ?n) t" "kept fd j s t"
        "fileptr (ofile t fd) = 512 * j + ?n" "mapped t fd j" "\<forall>k. 0 \<le> k \<and> k < ?n \<longrightarrow> oct t (blk t fd j) k = buf ! nat (d + k)"
      have h: "holds_buf t fd (512 * j) ?n buf d" using holds_buf_block [OF t(4), of 0 ?n buf d] t(5) by simp
      show ?thesis
      proof (cases "nb \<le> 512")
        case True
        then show ?thesis using t h by (intro exI [of _ OK] exI [of _ t]) (simp add: fwrite_loop.simps)
      next
        case False
        then have n: "?n = 512" by simp
        have IH: "\<exists>r s'. fwrite_loop fd buf (d + 512) (nb - 512) t = Some (r, s') \<and> kept fd (j + 1) t s' \<and>
            (if r = OK then fileptr (ofile s' fd) = 512 * (j + 1) + (nb - 512) \<and> holds_buf s' fd (512 * (j + 1)) (nb - 512) buf (d + 512)
             else r = SYSERR \<and> 0 < nb - 512 \<and> (\<forall>b. first_data t \<le> b \<and> b < 512 \<longrightarrow> used_block s' b))"
          using False less.prems t(3) n kept_file [OF t(2)] by (intro less.hyps) auto
        then obtain r u where u: "fwrite_loop fd buf (d + 512) (nb - 512) t = Some (r, u)" "kept fd (j + 1) t u"
            "if r = OK then fileptr (ofile u fd) = 512 * (j + 1) + (nb - 512) \<and> holds_buf u fd (512 * (j + 1)) (nb - 512) buf (d + 512)
             else r = SYSERR \<and> 0 < nb - 512 \<and> (\<forall>b. first_data t \<le> b \<and> b < 512 \<longrightarrow> used_block u b)"
          by blast
        have "holds_buf u fd (512 * j) 512 buf d" using holds_buf_kept [OF h u(2)] n less.prems(5) by simp
        then have "r = OK \<Longrightarrow> holds_buf u fd (512 * j) nb buf d"
          using holds_buf_append [of u fd "512 * j" 512 buf d "nb - 512"] u(3) by (simp add: algebra_simps)
        then show ?thesis using t(1) u n kept_trans [OF t(2) u(2)] kept_file(8) [OF t(2)]
          by (intro exI [of _ r] exI [of _ u]) auto
      qed
    qed
  qed
qed


lemma holds_buf_cong:
  assumes "holds_buf s fd p n buf d" "\<And>i. blk s' fd i = blk s fd i" "\<And>b. used_block s' b = used_block s b" "first_data s' = first_data s"
    "\<And>b k. first_data s \<le> b \<Longrightarrow> b < 512 \<Longrightarrow> 0 \<le> k \<Longrightarrow> k < 512 \<Longrightarrow> oct s' b k = oct s b k"
  shows "holds_buf s' fd p n buf d"
  using assms unfolding holds_buf_def mapped_def fbyte_def by auto

text \<open>The parts of a file before and behind the first block boundary.\<close>

lemma fwrite_parts:
  assumes ok: "fs_ok s" and fd: "inarr (oft s) fd" and bl: "length (in_blocks (ft_in (ofile s fd))) = 12"
    and p: "fileptr (ofile s fd) = p" "0 \<le> p" and n: "0 < n" "n \<le> int (length buf)" "p + n < 5120" and mp: "mapped s fd (p div 512)"
    and len: "len = (if n < 512 - p mod 512 then n else 512 - p mod 512)"
  shows "\<exists>t r u. write_part fd buf 0 (blk s fd (p div 512)) (p mod 512) len s = Some (OK, t) \<and>
    fwrite_loop fd buf len (n - len) t = Some (r, u) \<and> kept fd (p div 512 + 1) t u \<and>
    ofile t fd = (ofile s fd)\<lparr>fileptr := p + len\<rparr> \<and> oft t = upd (oft s) fd (\<lambda>_. ofile t fd) \<and> first_data t = first_data s \<and> ninodes (fsd t) = ninodes (fsd s) \<and>
    (\<forall>b. used_block t b = used_block s b) \<and>
    (\<forall>b k. 0 \<le> b \<and> b < 512 \<and> 0 \<le> k \<and> k < 512 \<and> \<not> (b = blk s fd (p div 512) \<and> p mod 512 \<le> k) \<longrightarrow> oct t b k = oct s b k) \<and>
    (if r = OK then fileptr (ofile u fd) = p + n \<and> holds_buf u fd p n buf 0
     else r = SYSERR \<and> 512 - p mod 512 < n \<and> (\<forall>b. first_data s \<le> b \<and> b < 512 \<longrightarrow> used_block u b))"
proof -
  let ?j = "p div 512" and ?b = "blk s fd (p div 512)" and ?o = "p mod 512"
  note D = fs_okD [OF ok]
  have b: "0 \<le> ?b" "?b < 512" "0 \<le> ?o" "?o < 512" using mp D(14) by (auto simp: mapped_def)
  have l: "0 < len" "len \<le> n" "?o + len \<le> 512" using n(1) b unfolding len by auto
  obtain m where m: "write_part fd buf 0 ?b ?o len s = Some (OK, s\<lparr>dev0_blocks := m, oft := upd (oft s) fd (\<lambda>f. f\<lparr>fileptr := fileptr f + len\<rparr>)\<rparr>)"
      "length m = 262144" "\<forall>c k. 0 \<le> c \<and> c < 512 \<and> 0 \<le> k \<and> k < 512 \<longrightarrow> oct (s\<lparr>dev0_blocks := m\<rparr>) c k =
        (if c = ?b \<and> ?o \<le> k \<and> k < ?o + len then buf ! nat (0 + (k - ?o)) else oct s c k)"
    using write_part_spec [OF ok fd, of ?b ?o len 0 buf] b l n(2) by auto
  let ?t = "s\<lparr>dev0_blocks := m, oft := upd (oft s) fd (\<lambda>f. f\<lparr>fileptr := fileptr f + len\<rparr>)\<rparr>"
  have fl: "ofile ?t fd = (ofile s fd)\<lparr>fileptr := p + len\<rparr>" using fd p by simp
  have oft: "oft ?t = upd (oft s) fd (\<lambda>_. ofile ?t fd)" using fd by (simp add: upd_def at_def inarr_def nat_less_iff)
  have okt: "fs_ok ?t" using ok m(2) by (simp add: fs_ok_def)
  have blk: "blk ?t fd i = blk s fd i" for i using fl by (simp add: blk_def)
  have mpt: "mapped ?t fd ?j" using mp unfolding mapped_def blk by simp
  have oct: "oct ?t c k = (if c = ?b \<and> ?o \<le> k \<and> k < ?o + len then buf ! nat (k - ?o) else oct s c k)"
    if "0 \<le> c" "c < 512" "0 \<le> k" "k < 512" for c k
  proof -
    have "oct ?t c k = oct (s\<lparr>dev0_blocks := m\<rparr>) c k" by (simp add: oct_def)
    then show ?thesis using m(3) that by simp
  qed
  have "holds_buf ?t fd (512 * ?j + ?o) len buf 0"
    using l(3) b oct [of ?b] unfolding blk [symmetric] by (intro holds_buf_block [OF mpt]) auto
  then have h: "holds_buf ?t fd p len buf 0" by simp
  have "\<exists>r u. fwrite_loop fd buf len (n - len) ?t = Some (r, u) \<and> kept fd (?j + 1) ?t u \<and>
    (if r = OK then fileptr (ofile u fd) = p + n \<and> holds_buf u fd p n buf 0
     else r = SYSERR \<and> 512 - p mod 512 < n \<and> (\<forall>b. first_data s \<le> b \<and> b < 512 \<longrightarrow> used_block u b))"
  proof (cases "n < 512 - ?o")
    case True
    then have "len = n" by (simp add: len)
    then show ?thesis using kept_refl [OF okt] h fl by (intro exI [of _ OK] exI [of _ ?t]) (simp add: fwrite_loop.simps)
  next
    case False
    then have le: "len = 512 - ?o" by (simp add: len)
    have pj: "p + len = 512 * (?j + 1)" using minus_mult_div_eq_mod [of p 512] unfolding le by simp
    have "\<exists>r u. fwrite_loop fd buf len (n - len) ?t = Some (r, u) \<and> kept fd (?j + 1) ?t u \<and>
      (if r = OK then fileptr (ofile u fd) = 512 * (?j + 1) + (n - len) \<and> holds_buf u fd (512 * (?j + 1)) (n - len) buf len
       else r = SYSERR \<and> 0 < n - len \<and> (\<forall>b. first_data ?t \<le> b \<and> b < 512 \<longrightarrow> used_block u b))"
      using l n okt fd bl fl pj p(2) by (intro fwrite_loop_spec) (auto simp: pos_imp_zdiv_nonneg_iff)
    then obtain r u where u: "fwrite_loop fd buf len (n - len) ?t = Some (r, u)" "kept fd (?j + 1) ?t u"
      "if r = OK then fileptr (ofile u fd) = p + len + (n - len) \<and> holds_buf u fd (p + len) (n - len) buf len
       else r = SYSERR \<and> 0 < n - len \<and> (\<forall>b. first_data s \<le> b \<and> b < 512 \<longrightarrow> used_block u b)"
      unfolding pj [symmetric] by (auto split del: if_split cong: if_cong)
    have "holds_buf u fd p len buf 0" using holds_buf_kept [OF h u(2) p(2)] pj by simp
    then have "r = OK \<Longrightarrow> holds_buf u fd p n buf 0" using holds_buf_append [of u fd p len buf 0 "n - len"] u(3) by simp
    then show ?thesis using u le by (intro exI [of _ r] exI [of _ u]) auto
  qed
  then obtain r u where "fwrite_loop fd buf len (n - len) ?t = Some (r, u)" "kept fd (?j + 1) ?t u"
    "if r = OK then fileptr (ofile u fd) = p + n \<and> holds_buf u fd p n buf 0 else r = SYSERR \<and> 512 - p mod 512 < n \<and> (\<forall>b. first_data s \<le> b \<and> b < 512 \<longrightarrow> used_block u b)"
    by blast
  moreover have "\<forall>b k. 0 \<le> b \<and> b < 512 \<and> 0 \<le> k \<and> k < 512 \<and> \<not> (b = ?b \<and> ?o \<le> k) \<longrightarrow> oct ?t b k = oct s b k" using oct by auto
  moreover have "\<forall>b. used_block ?t b = used_block s b" "first_data ?t = first_data s" "ninodes (fsd ?t) = ninodes (fsd s)" by simp_all
  ultimately show ?thesis using m(1) fl oft by blast
qed

end
