(* ===== verification/File_Roundtrip.thy ===== *)
theory File_Roundtrip
  imports File_Transfer
begin

text \<open>
  The calls \<open>fwrite\<close> and \<open>fread\<close> as a whole: what has been written is read back.
\<close>

section \<open>Writing\<close>

lemma kept_oct:
  assumes "kept fd i s s'" "first_data s \<le> b" "b < 512" "used_block s b"
  shows "used_block s' b" "\<And>k. 0 \<le> k \<Longrightarrow> k < 512 \<Longrightarrow> oct s' b k = oct s b k"
  using assms unfolding kept_def by auto

lemma kept_other:
  assumes "kept fd i s s'"
  shows "length (oft s') = length (oft s)" "\<And>j. inarr (oft s) j \<Longrightarrow> j \<noteq> fd \<Longrightarrow> ofile s' j = ofile s j"
    "\<exists>p bs. ofile s' fd = (ofile s fd)\<lparr>fileptr := p, ft_in := (ft_in (ofile s fd))\<lparr>in_blocks := bs\<rparr>\<rparr> \<and> length bs = length (in_blocks (ft_in (ofile s fd)))"
  using assms unfolding kept_def by auto

lemma fwrite_spec:
  assumes ok: "fs_ok s" and fd: "inarr (oft s) fd" and bl: "length (in_blocks (ft_in (ofile s fd))) = 12"
    and opn: "ft_state (ofile s fd) = FSTATE_OPEN" "ft_mode (ofile s fd) = O_WRONLY \<or> ft_mode (ofile s fd) = O_RDWR"
    and ino: "0 \<le> in_id (ft_in (ofile s fd))" "in_id (ft_in (ofile s fd)) < ninodes (fsd s)"
    and p: "fileptr (ofile s fd) = p" "0 \<le> p" and n: "0 < n" "n \<le> int (length buf)" "p + n < 5120" and mp: "mapped s fd (p div 512)"
  shows "\<exists>r s'. fwrite fd buf n s = Some (r, s') \<and> length (oft s') = length (oft s) \<and>
    (\<forall>j. inarr (oft s) j \<and> j \<noteq> fd \<longrightarrow> ofile s' j = ofile s j) \<and>
    (\<forall>b k. first_data s \<le> b \<and> b < 512 \<and> used_block s b \<and> 0 \<le> k \<and> k < 512 \<and> \<not> (b = blk s fd (p div 512) \<and> p mod 512 \<le> k) \<longrightarrow>
      oct s' b k = oct s b k) \<and>
    (if r = n then fs_ok s' \<and> holds_buf s' fd p n buf 0 \<and>
       (\<exists>bs. length bs = 12 \<and> ofile s' fd = (ofile s fd)\<lparr>fileptr := p + n,
          ft_in := (ft_in (ofile s fd))\<lparr>in_blocks := bs, in_size := max (in_size (ft_in (ofile s fd))) (p + n)\<rparr>\<rparr>)
     else r = SYSERR \<and> 512 - p mod 512 < n \<and> (\<forall>b. first_data s \<le> b \<and> b < 512 \<longrightarrow> used_block s' b))"
proof -
  let ?j = "p div 512" and ?b = "blk s fd (p div 512)" and ?o = "p mod 512" and ?i = "ft_in (ofile s fd)"
  define len where "len = (if n < 512 - ?o then n else 512 - ?o)"
  have len: "(if n < MDEV_BLOCK_SIZE - ?o then n else MDEV_BLOCK_SIZE - ?o) = len" by (simp add: len_def MDEV_BLOCK_SIZE_def)
  have j: "0 \<le> ?j" "?j < 12" using p(2) n(1,3) by (auto simp: pos_imp_zdiv_nonneg_iff)
  have pos: "p sdiv MDEV_BLOCK_SIZE = ?j" "p smod MDEV_BLOCK_SIZE = ?o" "aget (in_blocks ?i) ?j = Some ?b" "c_int (n + p) = Some (n + p)"
    using p(2) n(1,3) j bl by (simp_all add: MDEV_BLOCK_SIZE_def blk_def aget_def c_consts c_int_def)
  from fwrite_parts [OF ok fd bl p n mp len_def] obtain t r u where
    T: "write_part fd buf 0 ?b ?o len s = Some (OK, t)" "fwrite_loop fd buf len (n - len) t = Some (r, u)" "kept fd (?j + 1) t u"
      "ofile t fd = (ofile s fd)\<lparr>fileptr := p + len\<rparr>" "oft t = upd (oft s) fd (\<lambda>_. ofile t fd)" "first_data t = first_data s" "ninodes (fsd t) = ninodes (fsd s)"
      "\<forall>b. used_block t b = used_block s b"
      "\<forall>b k. 0 \<le> b \<and> b < 512 \<and> 0 \<le> k \<and> k < 512 \<and> \<not> (b = ?b \<and> ?o \<le> k) \<longrightarrow> oct t b k = oct s b k" and
    R: "if r = OK then fileptr (ofile u fd) = p + n \<and> holds_buf u fd p n buf 0
        else r = SYSERR \<and> 512 - p mod 512 < n \<and> (\<forall>b. first_data s \<le> b \<and> b < 512 \<longrightarrow> used_block u b)"
    by blast
  note K = kept_file [OF T(3)]
  have lt: "length (oft t) = length (oft s)" "inarr (oft t) i = inarr (oft s) i" for i using T(5) by (metis length_upd, metis inarr_upd)
  have fdu: "inarr (oft u) fd" using K(3) [of fd] lt(2) fd by simp
  have ot: "ofile t i = ofile s i" if "inarr (oft s) i" "i \<noteq> fd" for i using T(5) at_upd_other [of fd i "oft s"] that fd by metis
  have other: "ofile u i = ofile s i" if "inarr (oft s) i" "i \<noteq> fd" for i
    using kept_other(2) [OF T(3), of i] that ot [OF that] lt(2) [of i] by simp
  have lu: "length (oft u) = length (oft s)" using kept_other(1) [OF T(3)] lt(1) by simp
  have octu: "oct u b k = oct s b k" if "first_data s \<le> b" "b < 512" "used_block s b" "0 \<le> k" "k < 512" "\<not> (b = ?b \<and> ?o \<le> k)" for b k
    using kept_oct(2) [OF T(3), of b k] T(6,8,9) that fs_okD(14) [OF ok] by simp
  have pre: "fwrite fd buf n s = do {
      (r, s) \<leftarrow> Some (r, u);
      if r \<noteq> OK then Some (SYSERR, s)
      else do {
        s \<leftarrow> (if p + n > in_size ?i then oftu fd (\<lambda>f. f\<lparr>ft_in := (ft_in f)\<lparr>in_size := fileptr f\<rparr>\<rparr>) s else Some s);
        f \<leftarrow> aget (oft s) fd;
        (_, s) \<leftarrow> put_inode_by_num 0 (in_id (ft_in f)) (ft_in f) s;
        Some (n, s) } }"
    unfolding fwrite_def using fd opn n pos p(1) len T(1,2)
    by (auto simp: MDEV_BLOCK_SIZE_def INODEDIRECTBLOCKS_def add.commute cong: if_cong split del: if_split)
  show ?thesis
  proof (cases "r = OK")
    case False
    then show ?thesis using pre R lu other octu n(1) by (intro exI [of _ SYSERR] exI [of _ u]) (simp add: c_consts)
  next
    case True
    define w where "w = u\<lparr>oft := upd (oft u) fd (\<lambda>f. f\<lparr>ft_in := (ft_in f)\<lparr>in_size := max (in_size ?i) (p + n)\<rparr>\<rparr>)\<rparr>"
    obtain p' bs where bs: "ofile u fd = (ofile t fd)\<lparr>fileptr := p', ft_in := (ft_in (ofile t fd))\<lparr>in_blocks := bs\<rparr>\<rparr>"
        "length bs = length (in_blocks (ft_in (ofile t fd)))" using kept_other(3) [OF T(3)] by blast
    have p': "p' = p + n" "length bs = 12" using R True bs bl T(4) by auto
    have fw: "ofile w fd = (ofile s fd)\<lparr>fileptr := p + n, ft_in := ?i\<lparr>in_blocks := bs, in_size := max (in_size ?i) (p + n)\<rparr>\<rparr>"
      using fdu bs(1) p'(1) T(4) by (simp add: w_def)
    have grow: "(if p + n > in_size ?i then oftu fd (\<lambda>f. f\<lparr>ft_in := (ft_in f)\<lparr>in_size := fileptr f\<rparr>\<rparr>) u else Some u) = Some w"
    proof (cases "p + n > in_size ?i")
      case True
      have "upd (oft u) fd (\<lambda>f. f\<lparr>ft_in := (ft_in f)\<lparr>in_size := fileptr f\<rparr>\<rparr>) = upd (oft u) fd (\<lambda>f. f\<lparr>ft_in := (ft_in f)\<lparr>in_size := max (in_size ?i) (p + n)\<rparr>\<rparr>)"
        using bs(1) p'(1) True fdu by (simp add: upd_def at_def)
      then show ?thesis using True fdu by (simp add: w_def)
    next
      case False
      have "upd (oft u) fd (\<lambda>f. f\<lparr>ft_in := (ft_in f)\<lparr>in_size := max (in_size ?i) (p + n)\<rparr>\<rparr>) = oft u"
        using bs(1) T(4) False fdu by (intro upd_id) (simp_all add: max_def)
      then show ?thesis using False by (simp add: w_def)
    qed
    have okw: "fs_ok w" using K(1) by (simp add: w_def fs_ok_def)
    have fdw: "inarr (oft w) fd" "ninodes (fsd w) = ninodes (fsd s)" "first_data w = first_data s" using fdu K(8,9) T(6,7) by (simp_all add: w_def)
    have "\<exists>m c. put_inode_by_num 0 (in_id ?i) (ft_in (ofile w fd)) w = Some (OK, w\<lparr>block_cache := c, dev0_blocks := m\<rparr>) \<and>
      length m = 262144 \<and> length c = 512 \<and> (\<forall>b k. 0 \<le> b \<and> b < 512 \<and> 0 \<le> k \<and> k < 512 \<longrightarrow> oct (w\<lparr>block_cache := c, dev0_blocks := m\<rparr>) b k =
        (if b = in_id ?i div 8 + 2 \<and> in_id ?i mod 8 * 64 \<le> k \<and> k < in_id ?i mod 8 * 64 + 64 then put_inode (ft_in (ofile w fd)) ! nat (k - in_id ?i mod 8 * 64) else oct w b k))"
      using fdw ino fw p'(2) by (intro put_inode_oct [OF okw]) simp_all
    then obtain m c where m: "put_inode_by_num 0 (in_id ?i) (ft_in (ofile w fd)) w = Some (OK, w\<lparr>block_cache := c, dev0_blocks := m\<rparr>)"
      "length m = 262144" "length c = 512" "\<forall>b k. 0 \<le> b \<and> b < 512 \<and> 0 \<le> k \<and> k < 512 \<longrightarrow> oct (w\<lparr>block_cache := c, dev0_blocks := m\<rparr>) b k =
        (if b = in_id ?i div 8 + 2 \<and> in_id ?i mod 8 * 64 \<le> k \<and> k < in_id ?i mod 8 * 64 + 64 then put_inode (ft_in (ofile w fd)) ! nat (k - in_id ?i mod 8 * 64) else oct w b k)"
      by blast
    let ?v = "w\<lparr>block_cache := c, dev0_blocks := m\<rparr>"
    have octv: "oct ?v b k = oct u b k" if "first_data s \<le> b" "b < 512" "0 \<le> k" "k < 512" for b k
    proof -
      have "oct ?v b k = oct w b k" using m(4) that inode_place_eq(2) [OF ok ino] fs_okD(14) [OF ok] by simp
      then show ?thesis by (simp add: w_def)
    qed
    have call: "fwrite fd buf n s = Some (n, ?v)" using pre True grow fdw(1) m(1) fw by (simp split del: if_split)
    have okv: "fs_ok ?v" using okw m(2,3) by (simp add: fs_ok_def)
    have otherv: "\<forall>j. inarr (oft s) j \<and> j \<noteq> fd \<longrightarrow> ofile ?v j = ofile s j" using other fdu K(3) lt(2) by (simp add: w_def)
    have "blk ?v fd i = blk u fd i" for i using fdu by (simp add: w_def blk_def)
    then have hv: "holds_buf ?v fd p n buf 0"
      using R True octv K(8) T(6) by (intro holds_buf_cong [of u fd p n buf 0 ?v]) (simp_all add: w_def)
    have fv: "ofile ?v fd = (ofile s fd)\<lparr>fileptr := p + n, ft_in := ?i\<lparr>in_blocks := bs, in_size := max (in_size ?i) (p + n)\<rparr>\<rparr>" using fw by simp
    have lv: "length (oft ?v) = length (oft s)" using lu by (simp add: w_def)
    have ov: "\<forall>b k. first_data s \<le> b \<and> b < 512 \<and> used_block s b \<and> 0 \<le> k \<and> k < 512 \<and> \<not> (b = ?b \<and> ?o \<le> k) \<longrightarrow> oct ?v b k = oct s b k"
      using octv octu by simp
    show ?thesis using call otherv ov lv okv hv fv p'(2) by (intro exI [of _ n] exI [of _ ?v] conjI) (simp_all, blast+)
  qed
qed


section \<open>Reading\<close>

lemma read_part_spec:
  assumes "fs_ok s" "inarr (oft s) fd" "0 \<le> b" "b < 512" "0 \<le> i" "i < 512" "0 \<le> n" "i + n \<le> 512"
  shows "read_part fd b i n s = Some (OK, map (\<lambda>k. oct s b (i + int k)) [0..<nat n], s\<lparr>oft := upd (oft s) fd (\<lambda>f. f\<lparr>fileptr := fileptr f + n\<rparr>)\<rparr>)"
  using bread_oct [of s b i n] fs_okD(2,4) [OF assms(1)] assms(2-) by (simp add: read_part_def)

text \<open>The octets \<open>[p, p + n)\<close> of a file.\<close>

definition fbytes :: "fsst \<Rightarrow> int \<Rightarrow> int \<Rightarrow> int \<Rightarrow> octet list" where
  "fbytes s fd p n = map (\<lambda>k. fbyte s fd (p + int k)) [0..<nat n]"

lemma fbytes_append:
  assumes "0 \<le> m" "0 \<le> n"
  shows "fbytes s fd p m @ fbytes s fd (p + m) n = fbytes s fd p (m + n)"
proof (rule nth_equalityI)
  fix i assume "i < length (fbytes s fd p m @ fbytes s fd (p + m) n)"
  then have i: "i < nat (m + n)" using assms by (simp add: fbytes_def nat_add_distrib)
  show "(fbytes s fd p m @ fbytes s fd (p + m) n) ! i = fbytes s fd p (m + n) ! i"
  proof (cases "i < nat m")
    case False
    then have "p + m + int (i - nat m) = p + int i" "i - nat m < nat n" using assms i by linarith+
    then show ?thesis using i False by (simp add: fbytes_def nth_append)
  qed (use i in \<open>simp add: fbytes_def nth_append\<close>)
qed (use assms in \<open>simp add: fbytes_def nat_add_distrib\<close>)

lemma fbytes_block:
  assumes "0 \<le> k" "0 \<le> n" "k + n \<le> 512"
  shows "map (\<lambda>i. oct s (blk s fd j) (k + int i)) [0..<nat n] = fbytes s fd (512 * j + k) n"
  unfolding fbytes_def
proof (rule map_cong [OF refl])
  fix i assume "i \<in> set [0..<nat n]"
  then have i: "0 \<le> k + int i" "k + int i < 512" using assms by auto
  then have d: "(512 * j + k + int i) div 512 = j" by simp
  then have "(512 * j + k + int i) mod 512 = k + int i" using minus_mult_div_eq_mod [of "512 * j + k + int i" 512] by simp
  then show "oct s (blk s fd j) (k + int i) = fbyte s fd (512 * j + k + int i)" using d by (simp add: fbyte_def)
qed

lemma fbytes_fileptr:
  "inarr (oft s) fd \<Longrightarrow> fbytes (s\<lparr>oft := upd (oft s) fd (\<lambda>f. f\<lparr>fileptr := x f\<rparr>)\<rparr>) fd p n = fbytes s fd p n"
  "inarr (oft s) fd \<Longrightarrow> mapped (s\<lparr>oft := upd (oft s) fd (\<lambda>f. f\<lparr>fileptr := x f\<rparr>)\<rparr>) fd i = mapped s fd i"
  by (simp_all add: fbytes_def fbyte_def blk_def mapped_def)

lemma fread_loop_spec:
  assumes "fs_ok s" "inarr (oft s) fd" "length (in_blocks (ft_in (ofile s fd))) = 12" "fileptr (ofile s fd) = 512 * j" "0 \<le> j"
    "512 * j + nb \<le> 6144" "0 \<le> nb" "\<And>q. 512 * j \<le> q \<Longrightarrow> q < 512 * j + nb \<Longrightarrow> mapped s fd (q div 512)"
  shows "fread_loop fd xs nb s = Some (OK, xs @ fbytes s fd (512 * j) nb, s\<lparr>oft := upd (oft s) fd (\<lambda>f. f\<lparr>fileptr := fileptr f + nb\<rparr>)\<rparr>)"
  using assms
proof (induction "nat nb" arbitrary: nb xs s j rule: less_induct)
  case less
  show ?case
  proof (cases "nb = 0")
    case True
    then show ?thesis using less.prems(2) by (simp add: fread_loop.simps fbytes_def)
  next
    case False
    define n where "n = min nb 512"
    have n: "0 < n" "n \<le> 512" "n \<le> nb" "(if nb < MDEV_BLOCK_SIZE then nb else MDEV_BLOCK_SIZE) = n" "0 < nb"
      using less.prems(7) False by (auto simp: n_def MDEV_BLOCK_SIZE_def)
    have mp: "mapped s fd j" using less.prems(8) [of "512 * j"] n(5) by simp
    have b: "3 \<le> blk s fd j" "blk s fd j < 512" using mp fs_okD(14) [OF less.prems(1)] by (auto simp: mapped_def)
    have q: "fileptr (ofile s fd) sdiv MDEV_BLOCK_SIZE = j" "aget (in_blocks (ft_in (ofile s fd))) j = Some (blk s fd j)"
      using less.prems(3-7) n(5) by (simp_all add: MDEV_BLOCK_SIZE_def aget_def blk_def)
    let ?t = "s\<lparr>oft := upd (oft s) fd (\<lambda>f. f\<lparr>fileptr := fileptr f + n\<rparr>)\<rparr>"
    have rp: "read_part fd (blk s fd j) 0 n s = Some (OK, fbytes s fd (512 * j) n, ?t)"
      using read_part_spec [OF less.prems(1,2), of "blk s fd j" 0 n] fbytes_block [of 0 n s fd j] b n by simp
    have turn: "fread_loop fd xs nb s = fread_loop fd (xs @ fbytes s fd (512 * j) n) (nb - n) ?t"
      using n(4,5) less.prems(2) q b rp by (subst fread_loop.simps) (simp split del: if_split)
    show ?thesis
    proof (cases "nb \<le> 512")
      case True
      then have "n = nb" by (simp add: n_def)
      then show ?thesis using turn by (simp add: fread_loop.simps)
    next
      case False
      then have n5: "n = 512" by (simp add: n_def)
      have "fread_loop fd (xs @ fbytes s fd (512 * j) n) (nb - n) ?t =
          Some (OK, (xs @ fbytes s fd (512 * j) n) @ fbytes ?t fd (512 * (j + 1)) (nb - n), ?t\<lparr>oft := upd (oft ?t) fd (\<lambda>f. f\<lparr>fileptr := fileptr f + (nb - n)\<rparr>)\<rparr>)"
        using less.prems False n5 by (intro less.hyps) (auto simp: fs_ok_def fbytes_fileptr)
      moreover have "fbytes s fd (512 * j) n @ fbytes s fd (512 * (j + 1)) (nb - n) = fbytes s fd (512 * j) nb"
        using fbytes_append [of n "nb - n" s fd "512 * j"] n n5 by (simp add: algebra_simps)
      ultimately show ?thesis using turn less.prems(2) by (simp add: fbytes_fileptr)
    qed
  qed
qed


lemma fread_spec:
  assumes ok: "fs_ok s" and fd: "inarr (oft s) fd" and bl: "length (in_blocks (ft_in (ofile s fd))) = 12"
    and opn: "ft_state (ofile s fd) = FSTATE_OPEN" "ft_mode (ofile s fd) = O_RDONLY \<or> ft_mode (ofile s fd) = O_RDWR"
    and p: "fileptr (ofile s fd) = p" "0 \<le> p" and n: "0 < n" "p + n < 5120" "p + n \<le> in_size (ft_in (ofile s fd))"
    and mp: "\<And>q. p \<le> q \<Longrightarrow> q < p + n \<Longrightarrow> mapped s fd (q div 512)"
  shows "fread fd n s = Some (n, fbytes s fd p n, s\<lparr>oft := upd (oft s) fd (\<lambda>f. f\<lparr>fileptr := p + n\<rparr>)\<rparr>)"
proof -
  let ?j = "p div 512" and ?b = "blk s fd (p div 512)" and ?o = "p mod 512" and ?i = "ft_in (ofile s fd)"
  define len where "len = (if n < 512 - ?o then n else 512 - ?o)"
  have len: "(if n < MDEV_BLOCK_SIZE - ?o then n else MDEV_BLOCK_SIZE - ?o) = len" by (simp add: len_def MDEV_BLOCK_SIZE_def)
  have j: "0 \<le> ?j" "?j < 12" using p(2) n(1,2) by (auto simp: pos_imp_zdiv_nonneg_iff)
  have pos: "p sdiv MDEV_BLOCK_SIZE = ?j" "p smod MDEV_BLOCK_SIZE = ?o" "aget (in_blocks ?i) ?j = Some ?b" "c_int (n + p) = Some (n + p)"
    using p(2) n(1,2) j bl by (simp_all add: MDEV_BLOCK_SIZE_def blk_def aget_def c_consts c_int_def)
  have o: "0 \<le> ?o" "?o < 512" by auto
  have l: "0 < len" "len \<le> n" "?o + len \<le> 512" using n(1) o unfolding len_def by auto
  have b: "0 \<le> ?b" "?b < 512" using mp [of p] n(1) fs_okD(14) [OF ok] by (auto simp: mapped_def)
  let ?t = "s\<lparr>oft := upd (oft s) fd (\<lambda>f. f\<lparr>fileptr := fileptr f + len\<rparr>)\<rparr>"
  have rp: "read_part fd ?b ?o len s = Some (OK, fbytes s fd p len, ?t)"
    using read_part_spec [OF ok fd, of ?b ?o len] fbytes_block [of ?o len s fd ?j] b o l by simp
  have "fread_loop fd (fbytes s fd p len) (n - len) ?t =
      Some (OK, fbytes s fd p len @ fbytes s fd (p + len) (n - len), ?t\<lparr>oft := upd (oft ?t) fd (\<lambda>f. f\<lparr>fileptr := fileptr f + (n - len)\<rparr>)\<rparr>)"
  proof (cases "n < 512 - ?o")
    case True
    then have "len = n" by (simp add: len_def)
    then show ?thesis using fd by (simp add: fread_loop.simps fbytes_def)
  next
    case False
    then have le: "len = 512 - ?o" by (simp add: len_def)
    have pj: "p + len = 512 * (?j + 1)" using minus_mult_div_eq_mod [of p 512] unfolding le by simp
    have "fread_loop fd (fbytes s fd p len) (n - len) ?t =
      Some (OK, fbytes s fd p len @ fbytes ?t fd (512 * (?j + 1)) (n - len), ?t\<lparr>oft := upd (oft ?t) fd (\<lambda>f. f\<lparr>fileptr := fileptr f + (n - len)\<rparr>)\<rparr>)"
    proof (rule fread_loop_spec)
      show "mapped ?t fd (q div 512)" if "512 * (?j + 1) \<le> q" "q < 512 * (?j + 1) + (n - len)" for q
        using mp [of q] that pj l fd by (simp add: fbytes_fileptr)
    qed (use ok fd bl p pj l n j in \<open>simp_all add: fs_ok_def\<close>)
    then show ?thesis unfolding pj using fd by (simp add: fbytes_fileptr)
  qed
  then have loop: "fread_loop fd (fbytes s fd p len) (n - len) ?t = Some (OK, fbytes s fd p n, s\<lparr>oft := upd (oft s) fd (\<lambda>f. f\<lparr>fileptr := fileptr f + n\<rparr>)\<rparr>)"
    using fbytes_append [of len "n - len" s fd p] l fd by simp
  have "upd (oft s) fd (\<lambda>f. f\<lparr>fileptr := fileptr f + n\<rparr>) = upd (oft s) fd (\<lambda>f. f\<lparr>fileptr := p + n\<rparr>)" using p(1) by (simp add: upd_def at_def)
  then show ?thesis unfolding fread_def using fd opn n pos p(1) len rp loop
    by (auto simp: MDEV_BLOCK_SIZE_def INODEDIRECTBLOCKS_def add.commute cong: if_cong split del: if_split)
qed

section \<open>What is written is read back\<close>

lemma holds_buf_fbytes:
  assumes "holds_buf s fd p n buf 0" "n \<le> int (length buf)"
  shows "fbytes s fd p n = take (nat n) buf"
  using assms by (intro nth_equalityI) (auto simp: fbytes_def holds_buf_def nat_le_iff)

lemma demo_files:
  "inarr (oft demo_fs) 0" "inarr (oft demo_fs) 1" "at (oft demo_fs) 0 = demo_open 0 18" "at (oft demo_fs) 1 = demo_open 1 19" "ninodes (fsd demo_fs) = 128"
  by (simp_all only: demo_fs_def fsst.simps fsystem.simps inarr_def at_def length_append length_replicate_num) simp_all

lemma demo_mapped: "mapped demo_fs 0 0" "mapped demo_fs 1 0" "blk demo_fs 0 0 = 18" "blk demo_fs 1 0 = 19"
proof -
  show b: "blk demo_fs 0 0 = 18" "blk demo_fs 1 0 = 19" by (simp_all add: blk_def demo_files demo_open_def demo_inode_def)
  have f: "first_data demo_fs = 18" by (simp add: first_data_def demo_files)
  have m: "freemask (fsd demo_fs) = [0xC0, 0, 0x30] @ replicate 61 0" by (simp only: demo_fs_def fsst.simps fsystem.simps)
  have "used_block demo_fs 18" "used_block demo_fs 19" by (simp_all add: used_block_def m)
  then show "mapped demo_fs 0 0" "mapped demo_fs 1 0" using b f by (simp_all add: mapped_def)
qed





section \<open>Making a file system\<close>

lemma poke_fill: "length m = n \<Longrightarrow> poke m 0 (replicate n x) = Some (replicate n x)"
  by (simp add: poke_def)

lemma bwrite_length:
  assumes "dev0_blocksize s = 512" "length (dev0_blocks s) = 262144" "0 \<le> b" "b < 500" "length xs \<le> 1024"
  shows "\<exists>m. bwrite 0 b 0 xs s = Some (OK, s\<lparr>dev0_blocks := m\<rparr>) \<and> length m = 262144"
proof -
  obtain m where m: "poke (dev0_blocks s) (b * 512) xs = Some m" using poke_Some [of "b * 512" xs "dev0_blocks s"] assms by auto
  then show ?thesis using assms length_poke [OF m] by (intro exI [of _ m]) (simp add: bwrite_def c_int_def c_consts)
qed

text \<open>
  C36. \<open>mkbsdev\<close> with default sizes and \<open>mkfs\<close> with up to 4072 inodes make a well-formed file
  system: the mask marks the superblock and the block of the mask as used and every other block as
  free, the search for data blocks begins behind the inodes, and every file is closed. The octets
  that the allocated memory held before do not matter.
\<close>

theorem mkfs_ok:
  assumes "mg 262144 = Some mem" "length mem = 262144" "mg 64 = Some fmem" "length fmem = 64" "length sb = SIZEOF_FSYSTEM" "length (block_cache s) = 512" "length (oft s) = NUM_FD"
    "1 \<le> k" "k \<le> 4072"
  shows "\<exists>s0 s'. mkbsdev mg 0 0 0 s = Some (OK, s0) \<and> mkfs mg sb 0 k s0 = Some (OK, s') \<and> fs_ok s' \<and>
    ninodes (fsd s') = k \<and> (\<forall>b. 0 \<le> b \<and> b < 512 \<longrightarrow> used_block s' b = (b = 0 \<or> b = 1)) \<and>
    next_free_data_block s' = first_data s' \<and> (\<forall>f \<in> set (oft s'). ft_state f = FSTATE_CLOSED)"
proof -
  define a where "a = s\<lparr>dev0_blocksize := 512, dev0_numblocks := 512, dev0_blocks := mem,
    fsd := (fsd s)\<lparr>nblocks := 512, blocksz := 512, ninodes := k, freemaskbytes := 64, freemask := replicate 64 0, inodes_used := 0\<rparr>\<rparr>"
  have free: "\<not> used_block a b" if "0 \<le> b" "b < 512" for b using that by (simp add: used_block_def a_def nat_less_iff)
  obtain m where m: "setmaskbit 0 a = Some (fsdu (\<lambda>f. f\<lparr>freemask := m\<rparr>) a)" "length m = 64"
      "\<And>c. 0 \<le> c \<Longrightarrow> c < 512 \<Longrightarrow> used_block (fsdu (\<lambda>f. f\<lparr>freemask := m\<rparr>) a) c = (used_block a c \<or> c = 0)"
    using setmaskbit_512 [of a 0] by (auto simp: a_def)
  let ?b = "fsdu (\<lambda>f. f\<lparr>freemask := m\<rparr>) a"
  obtain d where d: "bwrite 0 0 0 sb ?b = Some (OK, ?b\<lparr>dev0_blocks := d\<rparr>)" "length d = 262144"
    using bwrite_length [of ?b 0 sb] assms(2,5) by (auto simp: a_def SIZEOF_FSYSTEM_def)
  let ?c = "?b\<lparr>dev0_blocks := d\<rparr>"
  obtain m' where m': "setmaskbit 1 ?c = Some (fsdu (\<lambda>f. f\<lparr>freemask := m'\<rparr>) ?c)" "length m' = 64"
      "\<And>c. 0 \<le> c \<Longrightarrow> c < 512 \<Longrightarrow> used_block (fsdu (\<lambda>f. f\<lparr>freemask := m'\<rparr>) ?c) c = (used_block ?c c \<or> c = 1)"
    using setmaskbit_512 [of ?c 1] m(2) by auto
  let ?d = "fsdu (\<lambda>f. f\<lparr>freemask := m'\<rparr>) ?c"
  have pk: "peek m' 0 64 = Some m'" using m'(2) by (simp add: peek_def)
  obtain e where e: "bwrite 0 1 0 m' ?d = Some (OK, ?d\<lparr>dev0_blocks := e\<rparr>)" "length e = 262144"
    using bwrite_length [of ?d 1 m'] d(2) m'(2) by (auto simp: a_def)
  define g where "g = ?d\<lparr>dev0_blocks := e, oft := map (\<lambda>f. blank_file\<lparr>ft_mode := ft_mode f\<rparr>) (oft s)\<rparr>"
  have fg: "first_data g = 2 + (k + 7) div 8" by (simp add: first_data_def g_def a_def)
  let ?s = "g\<lparr>next_free_data_block := first_data g\<rparr>"
  have ok: "fs_ok ?s" using assms e(2) m'(2) fg by (simp add: fs_ok_def g_def a_def first_data_def)
  have "FIRST_DATA_BLOCK g = FIRST_DATA_BLOCK ?s" by (simp add: FIRST_DATA_BLOCK_def NUM_INODE_BLOCKS_def INODES_PER_BLOCK_def cong: if_cong)
  then have fd: "FIRST_DATA_BLOCK g = Some (first_data g)" using first_data_block [OF ok] by simp
  define s0 where "s0 = s\<lparr>dev0_blocksize := 512, dev0_numblocks := 512, dev0_blocks := mem\<rparr>"
  have dev: "mkbsdev mg 0 0 0 s = Some (OK, s0)"
    using assms(1) by (simp add: mkbsdev_def MDEV_BLOCK_SIZE_def MDEV_NUM_BLOCKS_def c_int_def c_consts s0_def)
  have "mkfs mg sb 0 k s0 = Some (1, ?s)"
    using assms(3,4,8) m(1) d(1) m'(1) pk e(1) fd
    by (simp add: mkfs_def s0_def SB_BLK_def BM_BLK_def poke_fill a_def g_def c_int_def INT_MIN_def INT_MAX_def)
  moreover have "used_block ?s b = (b = 0 \<or> b = 1)" if "0 \<le> b" "b < 512" for b
  proof -
    have "used_block ?s b = used_block ?d b" by (simp add: used_block_def g_def)
    also have "\<dots> = (used_block ?b b \<or> b = 1)" using m'(3) [OF that] by simp
    finally show ?thesis using m(3) [OF that] free [OF that] by simp
  qed
  moreover have "\<forall>f \<in> set (oft ?s). ft_state f = FSTATE_CLOSED" by (simp add: g_def blank_file_def)
  ultimately show ?thesis using ok dev by (intro exI [of _ s0] exI [of _ ?s] conjI) (simp_all add: OK_def g_def a_def)
qed

lemma length_replicate_nat: "length (replicate (nat (numeral k)) x) = numeral k"
  by (simp only: length_replicate nat_numeral)

theorem mkfs_ok_witness:
  "\<exists>s0 s'. mkbsdev (\<lambda>n. Some (replicate (nat n) 9)) 0 0 0 demo_fs = Some (OK, s0) \<and>
    mkfs (\<lambda>n. Some (replicate (nat n) 9)) (replicate 604 0) 0 128 s0 = Some (OK, s') \<and> fs_ok s'"
proof -
  let ?mg = "\<lambda>n. Some (replicate (nat n) (9 :: octet))"
  have "length (block_cache demo_fs) = 512" "length (oft demo_fs) = NUM_FD" using fs_okD [OF demo_fs_ok] by (simp_all add: NUM_FD_def)
  then have "\<exists>s0 s'. mkbsdev ?mg 0 0 0 demo_fs = Some (OK, s0) \<and> mkfs ?mg (replicate 604 0) 0 128 s0 = Some (OK, s') \<and> fs_ok s' \<and>
    ninodes (fsd s') = 128 \<and> (\<forall>b. 0 \<le> b \<and> b < 512 \<longrightarrow> used_block s' b = (b = 0 \<or> b = 1)) \<and>
    next_free_data_block s' = first_data s' \<and> (\<forall>f \<in> set (oft s'). ft_state f = FSTATE_CLOSED)"
    by (intro mkfs_ok [OF refl length_replicate_nat refl length_replicate_nat]) (simp_all add: SIZEOF_FSYSTEM_def)
  then show ?thesis by blast
qed

end
