(* ===== verification/File_Create.thy ===== *)
theory File_Create
  imports File_Properties
begin

text \<open>
  The search of \<open>fcreate\<close> for a free inode. \<open>mkfs\<close> does not write the inodes, so an inode counts as
  free when its number happens to be out of range on the device.
\<close>

text \<open>Every inode on the device looks used.\<close>

definition inodes_taken :: "fsst \<Rightarrow> bool" where
  "inodes_taken s \<longleftrightarrow> (\<forall>k. 0 \<le> k \<and> k < ninodes (fsd s) \<longrightarrow>
     0 \<le> in_id (get_inode (inode_image s k)) \<and> in_id (get_inode (inode_image s k)) < ninodes (fsd s))"

lemma inode_image_upd [simp]: "inode_image (s\<lparr>block_cache := c\<rparr>) k = inode_image s k" "inode_image (s\<lparr>oft := t\<rparr>) k = inode_image s k"
    "inode_image (s\<lparr>next_free_inode := x\<rparr>) k = inode_image s k"
  by (simp_all add: inode_image_def oct_def)

text \<open>One turn of the search; \<open>try_inode\<close> is the state that it leaves.\<close>

definition try_inode :: "int \<Rightarrow> octet list \<Rightarrow> fsst \<Rightarrow> fsst" where
  "try_inode fd c s = s\<lparr>block_cache := c, oft := upd (oft s) fd (\<lambda>f. f\<lparr>ft_in := get_inode (inode_image s (next_free_inode s))\<rparr>),
     next_free_inode := (if next_free_inode s + 1 \<ge> ninodes (fsd s) then 0 else next_free_inode s + 1)\<rparr>"

lemma find_inode_turn:
  assumes "fs_ok s" "inodes_taken s" "inarr (oft s) fd" "0 \<le> next_free_inode s" "next_free_inode s < ninodes (fsd s)"
  shows "\<exists>c. length c = 512 \<and> find_inode (Suc n) fd s = find_inode n fd (try_inode fd c s)"
proof -
  let ?i = "get_inode (inode_image s (next_free_inode s))"
  obtain c where c: "get_inode_by_num 0 (next_free_inode s) s = Some (OK, Some ?i, s\<lparr>block_cache := c\<rparr>)" "length c = 512"
    using get_inode_image [OF assms(1,4,5)] by blast
  have "\<not> (in_id ?i < 0 \<or> in_id ?i \<ge> ninodes (fsd s))" using assms(2,4,5) by (auto simp: inodes_taken_def not_less)
  then have "find_inode (Suc n) fd s = find_inode n fd (try_inode fd c s)" using c(1) assms(3) by (simp add: try_inode_def cong: if_cong split del: if_split)
  then show ?thesis using c(2) by blast
qed

lemma try_inode_keeps:
  assumes "fs_ok s" "inodes_taken s" "inarr (oft s) fd" "0 \<le> next_free_inode s" "next_free_inode s < ninodes (fsd s)" "length c = 512"
  shows "fs_ok (try_inode fd c s)" "inodes_taken (try_inode fd c s)" "inarr (oft (try_inode fd c s)) fd" "ninodes (fsd (try_inode fd c s)) = ninodes (fsd s)"
    "0 \<le> next_free_inode (try_inode fd c s)" "next_free_inode (try_inode fd c s) < ninodes (fsd s)" "ft_state (at (oft (try_inode fd c s)) fd) = ft_state (at (oft s) fd)"
    "0 \<le> in_id (ft_in (at (oft (try_inode fd c s)) fd))" "in_id (ft_in (at (oft (try_inode fd c s)) fd)) < ninodes (fsd s)"
  using assms by (simp_all add: try_inode_def fs_ok_def first_data_def inodes_taken_def)

lemma find_inode_taken:
  assumes "fs_ok s" "inodes_taken s" "inarr (oft s) fd" "0 \<le> next_free_inode s" "next_free_inode s < ninodes (fsd s)"
  shows "\<exists>s'. find_inode (Suc n) fd s = Some s' \<and> inarr (oft s') fd \<and> ninodes (fsd s') = ninodes (fsd s) \<and> ft_state (at (oft s') fd) = ft_state (at (oft s) fd) \<and>
    0 \<le> in_id (ft_in (at (oft s') fd)) \<and> in_id (ft_in (at (oft s') fd)) < ninodes (fsd s)"
  using assms
proof (induction n arbitrary: s)
  case (0 s)
  from find_inode_turn [OF 0, of 0] obtain c where "length c = 512" "find_inode (Suc 0) fd s = find_inode 0 fd (try_inode fd c s)" by blast
  then show ?case using try_inode_keeps [OF 0, of c] by (simp only: find_inode.simps(1)) blast
next
  case (Suc n)
  from find_inode_turn [OF Suc.prems, of "Suc n"] obtain c where c: "length c = 512" "find_inode (Suc (Suc n)) fd s = find_inode (Suc n) fd (try_inode fd c s)" by blast
  note K = try_inode_keeps [OF Suc.prems c(1)]
  show ?case unfolding c(2) using Suc.IH [OF K(1-3,5), unfolded K(4,7), OF K(6)] .
qed


lemma demo_taken: "inodes_taken demo_fs"
proof -
  have d: "dev0_blocks demo_fs = replicate 262144 0" "ninodes (fsd demo_fs) = 128" by (simp_all only: demo_fs_def fsst.simps fsystem.simps)
  have "in_id (get_inode (inode_image demo_fs k)) = 0" if k: "0 \<le> k" "k < 128" for k
  proof -
    have "oct demo_fs b i = 0" if "0 \<le> b" "b < 512" "0 \<le> i" "i < 512" for b i
      using that unfolding oct_def d(1) by (subst nth_replicate) auto
    then have "\<forall>j < 64. inode_image demo_fs k ! j = 0"
      using k pos_mod_bound [of 8 k] pos_mod_sign [of 8 k] by (auto simp: inode_image_def)
    then show ?thesis by (simp add: get_inode_def get32_def)
  qed
  then show ?thesis using d(2) by (simp add: inodes_taken_def)
qed


end
