(* ===== verification/Spec2Isabelle.thy ===== *)
theory Spec2Isabelle
  imports Queue_Properties Memory_Properties Kernel_Properties Mailbox_Properties Lifecycle_Properties
    Initialize_Properties Bufpool_Properties Future_Properties Tcp_Reassembly Tcp_Delta Tcp_Transitions
    Lib_Sort File_Roundtrip File_Create
begin

text \<open>
  A verification development for the kernel of Embedded Xinu.
\<close>

end
